(* ===== verification/Prelude.thy ===== *)
theory Prelude
  imports Main "HOL-Library.Word" "HOL-Library.AList" "HOL-Library.Char_ord"
    "HOL-Library.List_Lexorder"
begin

text \<open>
  Shared vocabulary of the development: bytes and Go strings, the error values of
  the program with the wrapping of \<open>fmt.Errorf\<close>, Go maps as association lists, decimal
  printing, and the generic lemmas on lists and association lists that the component
  theories use.

  A Go \<open>string\<close> is a sequence of bytes and is modelled as a \<^typ>\<open>string\<close> (a list of
  8-bit characters); a \<open>[]byte\<close> is a list of \<open>8 word\<close>. A \<open>time.Time\<close> is the
  number of nanoseconds since the Unix epoch, in UTC, and a \<open>time.Duration\<close> a number of
  nanoseconds. Values the program draws from the outside (the clock, fresh UUIDs, random
  bytes) are arguments of the operations that draw them.

  A Go map is an association list with distinct keys. Its order stands for the order in which
  a \<open>range\<close> loop visits the entries; Go leaves that order open, so theorems about loops
  over a map are stated for every such list.
\<close>

section \<open>Types\<close>

type_synonym byte = "8 word"
type_synonym bytes = "byte list"
type_synonym time = int
type_synonym duration = int
type_synonym ('k, 'v) gomap = "('k \<times> 'v) list"

text \<open>
  The program's error values. The constructors without argument are the sentinel errors
  declared with \<open>errors.New\<close> at package level; \<open>NewErr\<close> is an error made in place
  (or returned by a library) with its message; \<open>Wrapf m e\<close> is
  \<open>fmt.Errorf("m: %w", e)\<close> and \<open>WrapPre e m\<close> is \<open>fmt.Errorf("%w: %s", e, m)\<close>.
  \<open>Panic\<close> is not an error of Go but a panic of the runtime or of a library: it is carried
  like an error, and no code of the program wraps or handles it.
\<close>

datatype go_error =
    ErrNotFound
  | ErrEmptyTree
  | ErrIndexOutOfRange
  | ErrObjectExists
  | ErrObjectNotFound
  | ErrInvalidKey
  | ErrInvalidPassphrase
  | ErrKeyNotFound
  | ErrDecryptionFailed
  | NewErr string
  | Wrapf string go_error
  | WrapPre go_error string
  | Panic string

type_synonym 'a result = "go_error + 'a"

text \<open>\<open>errors.Is\<close> walks the chain of wrapped errors.\<close>

fun errors_Is :: "go_error \<Rightarrow> go_error \<Rightarrow> bool" where
  "errors_Is e target = (e = target \<or> (case e of Wrapf _ e' \<Rightarrow> errors_Is e' target
     | WrapPre e' _ \<Rightarrow> errors_Is e' target | _ \<Rightarrow> False))"

text \<open>The text of an error, as \<open>err.Error()\<close> and the verb \<open>%v\<close> print it.\<close>

fun error_text :: "go_error \<Rightarrow> string" where
  "error_text ErrNotFound = ''record not found''"
| "error_text ErrEmptyTree = ''cannot build merkle tree from empty leaves''"
| "error_text ErrIndexOutOfRange = ''leaf index out of range''"
| "error_text ErrObjectExists = ''archive object already exists and is immutable''"
| "error_text ErrObjectNotFound = ''archive object not found''"
| "error_text ErrInvalidKey = ''invalid object key''"
| "error_text ErrInvalidPassphrase = ''invalid passphrase or corrupted keyfile''"
| "error_text ErrKeyNotFound = ''key version not found''"
| "error_text ErrDecryptionFailed = ''decryption failed''"
| "error_text (NewErr m) = m"
| "error_text (Wrapf m e) = m @ '': '' @ error_text e"
| "error_text (WrapPre e m) = error_text e @ '': '' @ m"
| "error_text (Panic m) = ''panic: '' @ m"

section \<open>Results\<close>

fun result_bind :: "'a result \<Rightarrow> ('a \<Rightarrow> 'b result) \<Rightarrow> 'b result" where
  "result_bind (Inl e) f = Inl e"
| "result_bind (Inr a) f = f a"

text \<open>\<open>if err != nil { return fmt.Errorf("m: %w", err) }\<close>\<close>

fun wrap_err :: "string \<Rightarrow> 'a result \<Rightarrow> 'a result" where
  "wrap_err m (Inl (Panic p)) = Inl (Panic p)"
| "wrap_err m (Inl e) = Inl (Wrapf m e)"
| "wrap_err m (Inr a) = Inr a"

lemma result_bind_Inr [simp]: "result_bind r f = Inr b \<longleftrightarrow> (\<exists>a. r = Inr a \<and> f a = Inr b)"
  by (cases r) auto

lemma wrap_err_Inr [simp]: "wrap_err m r = Inr a \<longleftrightarrow> r = Inr a"
  by (cases "(m, r)" rule: wrap_err.cases) auto

lemma wrap_err_of_Inr [simp]: "wrap_err m (Inr a) = Inr a"
  by simp

text \<open>
  The loop \<open>for _, x := range xs { s = f(x, s) }\<close> whose body may return early with an error.
\<close>

fun try_fold :: "('a \<Rightarrow> 's \<Rightarrow> 's result) \<Rightarrow> 'a list \<Rightarrow> 's \<Rightarrow> 's result" where
  "try_fold f [] s = Inr s"
| "try_fold f (x # xs) s = result_bind (f x s) (try_fold f xs)"

text \<open>A loop that stops at the first error and collects the results otherwise.\<close>

fun traverse :: "('a \<Rightarrow> 'b result) \<Rightarrow> 'a list \<Rightarrow> 'b list result" where
  "traverse f [] = Inr []"
| "traverse f (x # xs) =
     (case f x of Inl e \<Rightarrow> Inl e
      | Inr y \<Rightarrow> (case traverse f xs of Inl e \<Rightarrow> Inl e | Inr ys \<Rightarrow> Inr (y # ys)))"

lemma traverse_Inr_iff: "traverse f xs = Inr ys \<longleftrightarrow> list_all2 (\<lambda>x y. f x = Inr y) xs ys"
proof (induction xs arbitrary: ys)
  case (Cons x xs)
  show ?case
  proof (cases "traverse f xs")
    case (Inl e)
    with Cons.IH have "\<not> list_all2 (\<lambda>x y. f x = Inr y) xs zs" for zs by simp
    with Inl show ?thesis by (cases ys) (auto split: sum.splits)
  next
    case (Inr zs)
    with Cons.IH have "list_all2 (\<lambda>x y. f x = Inr y) xs ws \<longleftrightarrow> zs = ws" for ws by simp
    with Inr show ?thesis by (cases ys) (auto split: sum.splits)
  qed
qed auto

lemma traverse_length: "traverse f xs = Inr ys \<Longrightarrow> length ys = length xs"
  by (auto simp: traverse_Inr_iff dest: list_all2_lengthD)

lemma traverse_nth: "traverse f xs = Inr ys \<Longrightarrow> i < length xs \<Longrightarrow> f (xs ! i) = Inr (ys ! i)"
  by (auto simp: traverse_Inr_iff dest: list_all2_nthD)

lemma traverse_eq_Inr_map: "(\<And>x. x \<in> set xs \<Longrightarrow> f x = Inr (g x)) \<Longrightarrow> traverse f xs = Inr (map g xs)"
  by (induction xs) auto

lemma traverse_map: "traverse f (map g xs) = traverse (f \<circ> g) xs"
  by (induction xs) (auto split: sum.splits)

section \<open>Bytes and strings\<close>

definition bytes_of :: "string \<Rightarrow> bytes" where
  "bytes_of s = map of_char s"

definition string_of :: "bytes \<Rightarrow> string" where
  "string_of bs = map (\<lambda>b. char_of (unat b)) bs"

lemma char_of_unat_of_char [simp]: "char_of (unat (of_char c :: byte)) = c"
proof -
  have "(of_char c :: nat) < 256"
    by (metis of_char_mod_256 mod_less_divisor zero_less_numeral)
  then have "unat (of_nat (of_char c) :: byte) = of_char c"
    by (simp add: unat_of_nat)
  then have "unat (of_char c :: byte) = of_char c"
    by (simp only: of_nat_of_char)
  then show ?thesis by simp
qed

lemma of_char_char_of_unat [simp]: "of_char (char_of (unat b)) = (b :: byte)"
proof -
  have "of_char (char_of (unat b) :: char) = unat b"
    using unsigned_less [of b, where ?'a = nat] by simp
  then have "of_nat (of_char (char_of (unat b) :: char)) = b"
    by simp
  then show ?thesis by (simp only: of_nat_of_char)
qed

lemma string_of_bytes_of [simp]: "string_of (bytes_of s) = s"
  by (simp add: string_of_def bytes_of_def comp_def)

lemma bytes_of_string_of [simp]: "bytes_of (string_of bs) = bs"
  by (simp add: string_of_def bytes_of_def comp_def)

lemma bytes_of_inject [simp]: "bytes_of s = bytes_of t \<longleftrightarrow> s = t"
  by (metis string_of_bytes_of)

lemma bytes_of_append [simp]: "bytes_of (s @ t) = bytes_of s @ bytes_of t"
  by (simp add: bytes_of_def)

lemma length_bytes_of [simp]: "length (bytes_of s) = length s"
  by (simp add: bytes_of_def)

end
