(* ===== verification/GoStrings.thy ===== *)
theory GoStrings
  imports Prelude
begin

text \<open>
  The functions of Go's package \<open>strings\<close> that several components use, on strings of bytes.
\<close>

text \<open>\<open>strings.TrimPrefix\<close> and \<open>strings.TrimSpace\<close>; the spaces of Unicode as UTF-8.\<close>

definition has_prefix :: "string \<Rightarrow> string \<Rightarrow> bool" where
  "has_prefix s pre \<longleftrightarrow> take (length pre) s = pre"

definition has_suffix :: "string \<Rightarrow> string \<Rightarrow> bool" where
  "has_suffix s suf \<longleftrightarrow> length suf \<le> length s \<and> drop (length s - length suf) s = suf"

definition TrimPrefix :: "string \<Rightarrow> string \<Rightarrow> string" where
  "TrimPrefix s pre = (if has_prefix s pre then drop (length pre) s else s)"

definition unicode_spaces :: "string list" where
  "unicode_spaces = map (map char_of)
     ([[0x09], [0x0A], [0x0B], [0x0C], [0x0D], [0x20], [0xC2, 0x85], [0xC2, 0xA0], [0xE1, 0x9A, 0x80]]
      @ map (\<lambda>i. [0xE2, 0x80, 0x80 + i]) [0..<11]
      @ [[0xE2, 0x80, 0xA8], [0xE2, 0x80, 0xA9], [0xE2, 0x80, 0xAF], [0xE2, 0x81, 0x9F], [0xE3, 0x80, 0x80 :: nat]])"

function trim_left :: "string \<Rightarrow> string" where
  "trim_left s = (case find (\<lambda>w. w \<noteq> [] \<and> has_prefix s w) unicode_spaces of
       None \<Rightarrow> s | Some w \<Rightarrow> if s = [] then s else trim_left (drop (length w) s))"
  by pat_completeness auto
termination
  by (relation "measure length") (auto simp: find_Some_iff)

function trim_right :: "string \<Rightarrow> string" where
  "trim_right s = (case find (\<lambda>w. w \<noteq> [] \<and> has_suffix s w) unicode_spaces of
       None \<Rightarrow> s | Some w \<Rightarrow> if s = [] then s else trim_right (take (length s - length w) s))"
  by pat_completeness auto
termination
  by (relation "measure length") (auto simp: find_Some_iff)

declare trim_left.simps [simp del] trim_right.simps [simp del]

definition TrimSpace :: "string \<Rightarrow> string" where
  "TrimSpace s = trim_right (trim_left s)"

text \<open>
  \<open>strings.ToUpper\<close>, as far as it matters when the result is compared with ASCII texts: ASCII
  letters, and the two other characters whose upper case is ASCII, U+0131 and U+017F.
\<close>

definition upper_ascii :: "char \<Rightarrow> char" where
  "upper_ascii c = (if 97 \<le> (of_char c :: nat) \<and> (of_char c :: nat) \<le> 122 then char_of ((of_char c :: nat) - 32) else c)"

fun ToUpper :: "string \<Rightarrow> string" where
  "ToUpper (a # b # cs) =
     (if (of_char a :: nat) = 0xC4 \<and> (of_char b :: nat) = 0xB1 then CHR ''I'' # ToUpper cs
      else if (of_char a :: nat) = 0xC5 \<and> (of_char b :: nat) = 0xBF then CHR ''S'' # ToUpper cs
      else upper_ascii a # ToUpper (b # cs))"
| "ToUpper [a] = [upper_ascii a]"
| "ToUpper [] = []"

end
