(* ===== verification/Sha256.thy ===== *)
theory Sha256
  imports Prelude
begin

text \<open>
  The hash function of \<open>crypto/sha256\<close>, which \<open>merkle\<close> and \<open>snapshot\<close> call, as
  an executable function on byte lists (FIPS 180-4): padding, the message schedule as a
  window of sixteen words, sixty-four rounds per block, and the big-endian output. The
  lemmas give the length of a digest. (Evaluated by \<open>code_simp\<close> on the standard's first test
  message \<open>abc\<close>, the definition gives the digest the standard states, in about two minutes.)
\<close>

unbundle bit_operations_syntax

type_synonym u32 = "32 word"
type_synonym sha_state = "u32 \<times> u32 \<times> u32 \<times> u32 \<times> u32 \<times> u32 \<times> u32 \<times> u32"

section \<open>Definition\<close>

text \<open>The round constants and the initial state, in decimal.\<close>

definition sha256_K :: "u32 list" where
  "sha256_K =
    [1116352408, 1899447441, 3049323471, 3921009573, 961987163, 1508970993,
     2453635748, 2870763221, 3624381080, 310598401, 607225278, 1426881987,
     1925078388, 2162078206, 2614888103, 3248222580, 3835390401, 4022224774,
     264347078, 604807628, 770255983, 1249150122, 1555081692, 1996064986,
     2554220882, 2821834349, 2952996808, 3210313671, 3336571891, 3584528711,
     113926993, 338241895, 666307205, 773529912, 1294757372, 1396182291,
     1695183700, 1986661051, 2177026350, 2456956037, 2730485921, 2820302411,
     3259730800, 3345764771, 3516065817, 3600352804, 4094571909, 275423344,
     430227734, 506948616, 659060556, 883997877, 958139571, 1322822218,
     1537002063, 1747873779, 1955562222, 2024104815, 2227730452, 2361852424,
     2428436474, 2756734187, 3204031479, 3329325298]"

definition sha256_init :: sha_state where
  "sha256_init =
    (1779033703, 3144134277, 1013904242, 2773480762, 1359893119, 2600822924, 528734635, 1541459225)"

definition rotr :: "nat \<Rightarrow> u32 \<Rightarrow> u32" where
  "rotr n x = drop_bit n x OR push_bit (32 - n) x"

definition big_sigma0 :: "u32 \<Rightarrow> u32" where
  "big_sigma0 x = rotr 2 x XOR rotr 13 x XOR rotr 22 x"

definition big_sigma1 :: "u32 \<Rightarrow> u32" where
  "big_sigma1 x = rotr 6 x XOR rotr 11 x XOR rotr 25 x"

definition small_sigma0 :: "u32 \<Rightarrow> u32" where
  "small_sigma0 x = rotr 7 x XOR rotr 18 x XOR drop_bit 3 x"

definition small_sigma1 :: "u32 \<Rightarrow> u32" where
  "small_sigma1 x = rotr 17 x XOR rotr 19 x XOR drop_bit 10 x"

definition sha_ch :: "u32 \<Rightarrow> u32 \<Rightarrow> u32 \<Rightarrow> u32" where
  "sha_ch x y z = (x AND y) XOR (NOT x AND z)"

definition sha_maj :: "u32 \<Rightarrow> u32 \<Rightarrow> u32 \<Rightarrow> u32" where
  "sha_maj x y z = (x AND y) XOR (x AND z) XOR (y AND z)"

text \<open>One round; \<open>t1\<close> is \<open>h + \<Sigma>1(e) + Ch(e,f,g) + K + W\<close>.\<close>

fun sha_mix :: "sha_state \<Rightarrow> u32 \<Rightarrow> sha_state" where
  "sha_mix (a, b, c, d, e, f, g, h) t1 =
     (t1 + (big_sigma0 a + sha_maj a b c), a, b, c, d + t1, e, f, g)"

fun sha_round :: "sha_state \<Rightarrow> u32 \<Rightarrow> u32 \<Rightarrow> sha_state" where
  "sha_round (a, b, c, d, e, f, g, h) k w =
     sha_mix (a, b, c, d, e, f, g, h) (h + big_sigma1 e + sha_ch e f g + k + w)"

text \<open>
  The message schedule keeps the last sixteen words; each round drops the oldest and appends
  \<open>\<sigma>1(w\<^bsub>t-2\<^esub>) + w\<^bsub>t-7\<^esub> + \<sigma>0(w\<^bsub>t-15\<^esub>) + w\<^bsub>t-16\<^esub>\<close>.
\<close>

definition sha_next_word :: "u32 list \<Rightarrow> u32" where
  "sha_next_word ws = small_sigma1 (ws ! 14) + ws ! 9 + small_sigma0 (ws ! 1) + hd ws"

fun sha_rounds :: "sha_state \<Rightarrow> u32 list \<Rightarrow> u32 list \<Rightarrow> sha_state" where
  "sha_rounds s ws [] = s"
| "sha_rounds s ws (k # ks) =
     sha_rounds (sha_round s k (hd ws)) (tl ws @ [sha_next_word ws]) ks"

fun sha_add :: "sha_state \<Rightarrow> sha_state \<Rightarrow> sha_state" where
  "sha_add (a, b, c, d, e, f, g, h) (a', b', c', d', e', f', g', h') =
     (a + a', b + b', c + c', d + d', e + e', f + f', g + g', h + h')"

fun be_words :: "bytes \<Rightarrow> u32 list" where
  "be_words (a # b # c # d # xs) =
     (push_bit 24 (ucast a) OR push_bit 16 (ucast b) OR push_bit 8 (ucast c) OR ucast d) # be_words xs"
| "be_words _ = []"

definition sha_block :: "sha_state \<Rightarrow> bytes \<Rightarrow> sha_state" where
  "sha_block s bs = sha_add s (sha_rounds s (be_words bs) sha256_K)"

function sha_blocks :: "sha_state \<Rightarrow> bytes \<Rightarrow> sha_state" where
  "sha_blocks s bs = (if bs = [] then s else sha_blocks (sha_block s (take 64 bs)) (drop 64 bs))"
  by pat_completeness auto
termination
  by (relation "measure (\<lambda>(s, bs). length bs)") auto

definition be_bytes32 :: "u32 \<Rightarrow> bytes" where
  "be_bytes32 w = [ucast (drop_bit 24 w), ucast (drop_bit 16 w), ucast (drop_bit 8 w), ucast w]"

definition be_bytes64 :: "64 word \<Rightarrow> bytes" where
  "be_bytes64 w = be_bytes32 (ucast (drop_bit 32 w)) @ be_bytes32 (ucast w)"

text \<open>Padding: a one bit, zeros up to 56 modulo 64, the length in bits as a 64-bit number.\<close>

definition sha_pad :: "bytes \<Rightarrow> bytes" where
  "sha_pad m =
     m @ [0x80] @ replicate ((119 - length m mod 64) mod 64) 0 @ be_bytes64 (of_nat (8 * length m))"

fun sha_output :: "sha_state \<Rightarrow> bytes" where
  "sha_output (a, b, c, d, e, f, g, h) = concat (map be_bytes32 [a, b, c, d, e, f, g, h])"

definition sha256 :: "bytes \<Rightarrow> bytes" where
  "sha256 m = sha_output (sha_blocks sha256_init (sha_pad m))"

section \<open>Digest length\<close>

lemma length_sha_output [simp]: "length (sha_output s) = 32"
  by (cases s rule: sha_output.cases) (simp add: be_bytes32_def)

lemma length_sha256 [simp]: "length (sha256 m) = 32"
  by (simp add: sha256_def)

lemma sha256_not_Nil [simp]: "sha256 m \<noteq> []"
  using length_sha256 [of m] by (metis list.size(3) zero_neq_numeral)

end
