(* ===== verification/Codec.thy ===== *)
theory Codec
  imports Prelude
begin

text \<open>
  The text encodings the program takes from Go's library: lower-case hexadecimal
  (\<open>encoding/hex\<close>), standard base64 with padding (\<open>encoding/base64\<close>) and decimal
  numbers (the verb \<open>%d\<close>). Each is executable; decoding is a value of option type, as the
  callers only ask whether it failed. The lemmas are the round trips.
\<close>

section \<open>Hexadecimal\<close>

definition hex_char :: "nat \<Rightarrow> char" where
  "hex_char n = char_of (if n < 10 then 48 + n else 87 + n)"

definition hex_val :: "char \<Rightarrow> nat option" where
  "hex_val c =
     (let n = of_char c :: nat in
      if 48 \<le> n \<and> n \<le> 57 then Some (n - 48)
      else if 97 \<le> n \<and> n \<le> 102 then Some (n - 87)
      else if 65 \<le> n \<and> n \<le> 70 then Some (n - 55)
      else None)"

text \<open>\<open>hex.EncodeToString\<close>, also the verb \<open>%x\<close> on a byte slice.\<close>

fun hex_encode :: "bytes \<Rightarrow> string" where
  "hex_encode [] = []"
| "hex_encode (b # bs) = hex_char (unat b div 16) # hex_char (unat b mod 16) # hex_encode bs"

text \<open>\<open>hex.DecodeString\<close>: an odd length or a foreign character is an error.\<close>

fun hex_decode :: "string \<Rightarrow> bytes option" where
  "hex_decode [] = Some []"
| "hex_decode [c] = None"
| "hex_decode (c # d # cs) =
     (case (hex_val c, hex_val d, hex_decode cs) of
        (Some hi, Some lo, Some bs) \<Rightarrow> Some (of_nat (16 * hi + lo) # bs)
      | _ \<Rightarrow> None)"

lemma hex_val_char: "n < 16 \<Longrightarrow> hex_val (hex_char n) = Some n"
  by (simp add: hex_val_def hex_char_def Let_def)

lemma unat_byte_less [simp]: "unat (b :: byte) < 256"
  using unsigned_less [of b, where ?'a = nat] by simp

lemma hex_decode_encode [simp]: "hex_decode (hex_encode bs) = Some bs"
proof (induction bs)
  case (Cons b bs)
  have "unat b div 16 < 16" "unat b mod 16 < 16"
    using unat_byte_less [of b] by (simp_all add: less_mult_imp_div_less)
  with Cons show ?case by (simp add: hex_val_char)
qed simp

lemma hex_encode_inject [simp]: "hex_encode bs = hex_encode cs \<longleftrightarrow> bs = cs"
  by (metis hex_decode_encode option.inject)

lemma length_hex_encode [simp]: "length (hex_encode bs) = 2 * length bs"
  by (induction bs) auto

section \<open>Base64\<close>

text \<open>The alphabet \<open>A..Z a..z 0..9 + /\<close>, by character codes.\<close>

definition b64_code :: "nat \<Rightarrow> nat" where
  "b64_code n = (if n < 26 then 65 + n else if n < 52 then 71 + n else if n < 62 then n - 4
                 else if n = 62 then 43 else 47)"

definition b64_char :: "nat \<Rightarrow> char" where
  "b64_char n = char_of (b64_code n)"

definition b64_val :: "char \<Rightarrow> nat option" where
  "b64_val c =
     (let n = of_char c :: nat in
      if 65 \<le> n \<and> n \<le> 90 then Some (n - 65)
      else if 97 \<le> n \<and> n \<le> 122 then Some (n - 71)
      else if 48 \<le> n \<and> n \<le> 57 then Some (n + 4)
      else if n = 43 then Some 62
      else if n = 47 then Some 63
      else None)"

text \<open>\<open>base64.StdEncoding.EncodeToString\<close>.\<close>

fun b64_encode :: "bytes \<Rightarrow> string" where
  "b64_encode [] = []"
| "b64_encode [a] =
     [b64_char (unat a div 4), b64_char (unat a mod 4 * 16), CHR ''='', CHR ''='']"
| "b64_encode [a, b] =
     [b64_char (unat a div 4), b64_char (unat a mod 4 * 16 + unat b div 16),
      b64_char (unat b mod 16 * 4), CHR ''='']"
| "b64_encode (a # b # c # rest) =
     b64_char (unat a div 4) # b64_char (unat a mod 4 * 16 + unat b div 16)
     # b64_char (unat b mod 16 * 4 + unat c div 64) # b64_char (unat c mod 64) # b64_encode rest"

text \<open>The three bytes that four six-bit digits stand for.\<close>

definition b64_byte1 :: "nat \<Rightarrow> nat \<Rightarrow> byte" where
  "b64_byte1 v1 v2 = of_nat (v1 * 4 + v2 div 16)"

definition b64_byte2 :: "nat \<Rightarrow> nat \<Rightarrow> byte" where
  "b64_byte2 v2 v3 = of_nat (v2 mod 16 * 16 + v3 div 4)"

definition b64_byte3 :: "nat \<Rightarrow> nat \<Rightarrow> byte" where
  "b64_byte3 v3 v4 = of_nat (v3 mod 4 * 64 + v4)"

text \<open>
  \<open>base64.StdEncoding.DecodeString\<close>: carriage returns and newlines are skipped, padding is
  required and must end the text; the unused low bits of the last digit are not checked.
\<close>

fun b64_quanta :: "string \<Rightarrow> bytes option" where
  "b64_quanta [] = Some []"
| "b64_quanta (c1 # c2 # c3 # c4 # rest) =
     (case (b64_val c1, b64_val c2) of
        (Some v1, Some v2) \<Rightarrow>
          (if c3 = CHR ''='' then
             (if c4 = CHR ''='' \<and> rest = [] then Some [b64_byte1 v1 v2] else None)
           else (case b64_val c3 of None \<Rightarrow> None | Some v3 \<Rightarrow>
             (if c4 = CHR ''='' then
                (if rest = []
                 then Some [b64_byte1 v1 v2, b64_byte2 v2 v3]
                 else None)
              else (case (b64_val c4, b64_quanta rest) of
                      (Some v4, Some bs) \<Rightarrow>
                        Some (b64_byte1 v1 v2 # b64_byte2 v2 v3
                              # b64_byte3 v3 v4 # bs)
                    | _ \<Rightarrow> None))))
      | _ \<Rightarrow> None)"
| "b64_quanta _ = None"

definition b64_decode :: "string \<Rightarrow> bytes option" where
  "b64_decode s = b64_quanta (filter (\<lambda>c. c \<noteq> CHR 0x0D \<and> c \<noteq> CHR 0x0A) s)"

lemma of_char_b64_char: "n < 64 \<Longrightarrow> of_char (b64_char n) = b64_code n"
  by (simp add: b64_char_def b64_code_def)

lemma b64_val_char: "n < 64 \<Longrightarrow> b64_val (b64_char n) = Some n"
  by (simp add: b64_val_def of_char_b64_char Let_def) (auto simp: b64_code_def)

lemma b64_char_neq:
  assumes "n < 64" and "(of_char c :: nat) \<notin> b64_code ` {..<64}"
  shows "b64_char n \<noteq> c"
  using of_char_b64_char [OF assms(1)] assms by (metis image_eqI lessThan_iff)

lemma b64_char_special:
  assumes "n < 64"
  shows "b64_char n \<noteq> CHR ''=''" "b64_char n \<noteq> CHR 0x0D" "b64_char n \<noteq> CHR 0x0A"
  by (rule b64_char_neq [OF assms]; auto simp: b64_code_def split: if_splits)+

text \<open>The six-bit groups of three bytes, and what the decoder makes of them.\<close>

lemma b64_groups:
  fixes a b c :: nat
  shows "a < 256 \<Longrightarrow> a div 4 < 64" and "a mod 4 * 16 < 64"
    and "b < 256 \<Longrightarrow> a mod 4 * 16 + b div 16 < 64" and "b mod 16 * 4 < 64"
    and "c < 256 \<Longrightarrow> b mod 16 * 4 + c div 64 < 64" and "c mod 64 < 64"
proof -
  have "a mod 4 < 4" "b mod 16 < 16" "b < 256 \<Longrightarrow> b div 16 < 16" "c < 256 \<Longrightarrow> c div 64 < 4"
    by auto
  then show "a < 256 \<Longrightarrow> a div 4 < 64" "a mod 4 * 16 < 64" "b < 256 \<Longrightarrow> a mod 4 * 16 + b div 16 < 64"
    "b mod 16 * 4 < 64" "c < 256 \<Longrightarrow> b mod 16 * 4 + c div 64 < 64" "c mod 64 < 64"
    by linarith+
qed

lemma b64_ungroup:
  fixes a b c :: nat
  shows "a div 4 * 4 + (a mod 4 * 16) div 16 = a"
    and "b < 256 \<Longrightarrow> a div 4 * 4 + (a mod 4 * 16 + b div 16) div 16 = a"
    and "b < 256 \<Longrightarrow> (a mod 4 * 16 + b div 16) mod 16 * 16 + (b mod 16 * 4) div 4 = b"
    and "b < 256 \<Longrightarrow> c < 256 \<Longrightarrow>
      (a mod 4 * 16 + b div 16) mod 16 * 16 + (b mod 16 * 4 + c div 64) div 4 = b"
    and "c < 256 \<Longrightarrow> (b mod 16 * 4 + c div 64) mod 4 * 64 + c mod 64 = c"
  by simp_all

lemma b64_bytes:
  fixes a b c :: byte
  shows "b64_byte1 (unat a div 4) (unat a mod 4 * 16) = a"
    and "b64_byte1 (unat a div 4) (unat a mod 4 * 16 + unat b div 16) = a"
    and "b64_byte2 (unat a mod 4 * 16 + unat b div 16) (unat b mod 16 * 4) = b"
    and "b64_byte2 (unat a mod 4 * 16 + unat b div 16) (unat b mod 16 * 4 + unat c div 64) = b"
    and "b64_byte3 (unat b mod 16 * 4 + unat c div 64) (unat c mod 64) = c"
  unfolding b64_byte1_def b64_byte2_def b64_byte3_def
  by (simp_all only: b64_ungroup unat_byte_less of_nat_unat ucast_id)

lemmas b64_simps = b64_val_char b64_char_special b64_groups b64_bytes

lemma b64_decode_quanta: "b64_decode (b64_encode bs) = b64_quanta (b64_encode bs)"
proof -
  have "filter (\<lambda>c. c \<noteq> CHR 0x0D \<and> c \<noteq> CHR 0x0A) (b64_encode bs) = b64_encode bs"
    by (induction bs rule: b64_encode.induct) (simp_all add: b64_simps)
  then show ?thesis by (simp add: b64_decode_def)
qed

lemma b64_decode_encode [simp]: "b64_decode (b64_encode bs) = Some bs"
  unfolding b64_decode_quanta
proof (induction bs rule: b64_encode.induct)
  case (4 a b c rest)
  then show ?case by (simp add: b64_simps)
qed (simp_all add: b64_simps)

section \<open>Decimal numbers\<close>

definition dec_char :: "nat \<Rightarrow> char" where
  "dec_char n = char_of (48 + n)"

fun show_nat :: "nat \<Rightarrow> string" where
  "show_nat n = (if n < 10 then [dec_char n] else show_nat (n div 10) @ [dec_char (n mod 10)])"

declare show_nat.simps [simp del]

definition show_int :: "int \<Rightarrow> string" where
  "show_int i = (if i < 0 then CHR ''-'' # show_nat (nat (- i)) else show_nat (nat i))"

definition dec_val :: "char \<Rightarrow> nat" where
  "dec_val c = of_char c - 48"

definition nat_of_digits :: "string \<Rightarrow> nat" where
  "nat_of_digits s = foldl (\<lambda>n c. 10 * n + dec_val c) 0 s"

lemma dec_val_char: "n < 10 \<Longrightarrow> dec_val (dec_char n) = n"
  by (simp add: dec_val_def dec_char_def)

lemma nat_of_digits_show [simp]: "nat_of_digits (show_nat n) = n"
proof (induction n rule: show_nat.induct)
  case (1 n)
  then show ?case
    by (cases "n < 10") (auto simp: show_nat.simps [of n] nat_of_digits_def dec_val_char)
qed

lemma show_nat_inject [simp]: "show_nat m = show_nat n \<longleftrightarrow> m = n"
  by (metis nat_of_digits_show)

lemma show_nat_digits: "c \<in> set (show_nat n) \<Longrightarrow> 48 \<le> (of_char c :: nat) \<and> (of_char c :: nat) \<le> 57"
proof (induction n rule: show_nat.induct)
  case (1 n)
  have "n < 10 \<Longrightarrow> 48 \<le> (of_char (dec_char n) :: nat) \<and> (of_char (dec_char n) :: nat) \<le> 57" for n
    by (simp add: dec_char_def)
  with 1 show ?case by (cases "n < 10") (auto simp: show_nat.simps [of n])
qed

lemma show_int_inject [simp]: "show_int i = show_int j \<longleftrightarrow> i = j"
proof -
  have minus: "show_nat m \<noteq> CHR ''-'' # s" for m s
    using show_nat_digits [of "CHR ''-''" m] by auto
  show ?thesis
    by (auto simp: show_int_def minus minus [symmetric])
qed

end
