(* ===== verification/GoTime.thy ===== *)
theory GoTime
  imports Codec
begin

text \<open>
  The parts of Go's \<open>time\<close> package the program relies on: the proleptic Gregorian
  calendar, \<open>Format\<close> with the layouts \<open>RFC3339\<close> and \<open>RFC3339Nano\<close> for times in
  UTC, and \<open>Parse\<close> with the layout \<open>RFC3339Nano\<close>. A time is a number of nanoseconds
  since the Unix epoch.

  The lemmas show that a formatted time of a four-digit year parses back to itself, so that
  the normalisation in \<open>ComputeRecordLeafHash\<close> leaves such a text alone and distinct
  times have distinct texts.
\<close>

section \<open>Calendar\<close>

text \<open>
  Days are counted from 0000-03-01, so that a leap day ends its year: an era is 400 years or
  146097 days, and \<open>doy\<close> counts from 1 March.
\<close>

definition days_from_civil :: "int \<Rightarrow> int \<Rightarrow> int \<Rightarrow> int" where
  "days_from_civil y m d =
     (let y' = (if m \<le> 2 then y - 1 else y);
          era = y' div 400;
          yoe = y' mod 400;
          doy = (153 * ((m + 9) mod 12) + 2) div 5 + d - 1
      in era * 146097 + (yoe * 365 + yoe div 4 - yoe div 100 + doy) - 719468)"

text \<open>
  The year and day within an era: full centuries of 36524 days (the fourth has one more),
  full cycles of 1461 days, and years of 365 days (the fourth has one more).
\<close>

definition era_split :: "int \<Rightarrow> int \<times> int" where
  "era_split doe =
     (let n100 = min (doe div 36524) 3;
          r = doe - 36524 * n100;
          n4 = r div 1461;
          n1 = min (r mod 1461 div 365) 3
      in (100 * n100 + 4 * n4 + n1, r mod 1461 - 365 * n1))"

definition civil_from_days :: "int \<Rightarrow> int \<times> int \<times> int" where
  "civil_from_days z =
     (case era_split ((z + 719468) mod 146097) of (yoe, doy) \<Rightarrow>
        (let era = (z + 719468) div 146097;
             mp = (5 * doy + 2) div 153;
             d = doy - (153 * mp + 2) div 5 + 1;
             m = (if mp < 10 then mp + 3 else mp - 9);
             y = yoe + era * 400 + (if m \<le> 2 then 1 else 0)
         in (y, m, d)))"

definition is_leap :: "int \<Rightarrow> bool" where
  "is_leap y \<longleftrightarrow> y mod 4 = 0 \<and> (y mod 100 \<noteq> 0 \<or> y mod 400 = 0)"

definition days_in :: "int \<Rightarrow> int \<Rightarrow> int" where
  "days_in m y =
     (if m = 2 then (if is_leap y then 29 else 28)
      else if m = 4 \<or> m = 6 \<or> m = 9 \<or> m = 11 then 30 else 31)"

section \<open>Formatting\<close>

definition pad :: "nat \<Rightarrow> nat \<Rightarrow> string" where
  "pad w n = replicate (w - length (show_nat n)) (CHR ''0'') @ show_nat n"

definition pad_int :: "nat \<Rightarrow> int \<Rightarrow> string" where
  "pad_int w i = (if i < 0 then CHR ''-'' # pad w (nat (- i)) else pad w (nat i))"

text \<open>Fractional seconds with trailing zeros removed; nothing for a whole second.\<close>

definition frac_text :: "nat \<Rightarrow> string" where
  "frac_text ns =
     (if ns = 0 then []
      else CHR ''.'' # rev (dropWhile (\<lambda>c. c = CHR ''0'') (rev (pad 9 ns))))"

abbreviation nanos_per_day :: int where
  "nanos_per_day \<equiv> 86400000000000"

definition date_text :: "time \<Rightarrow> string" where
  "date_text t =
     (case civil_from_days (t div nanos_per_day) of (y, m, d) \<Rightarrow>
        (let s = nat (t mod nanos_per_day div 1000000000)
         in pad_int 4 y @ ''-'' @ pad 2 (nat m) @ ''-'' @ pad 2 (nat d) @ ''T''
            @ pad 2 (s div 3600) @ '':'' @ pad 2 (s div 60 mod 60) @ '':'' @ pad 2 (s mod 60)))"

definition format_RFC3339Nano :: "time \<Rightarrow> string" where
  "format_RFC3339Nano t = date_text t @ frac_text (nat (t mod 1000000000)) @ ''Z''"

definition format_RFC3339 :: "time \<Rightarrow> string" where
  "format_RFC3339 t = date_text t @ ''Z''"

section \<open>Parsing\<close>

definition is_digit :: "char \<Rightarrow> bool" where
  "is_digit c \<longleftrightarrow> 48 \<le> (of_char c :: nat) \<and> (of_char c :: nat) \<le> 57"

text \<open>\<open>getnum\<close>: two digits, or one digit when \<open>fixed\<close> is false.\<close>

fun getnum :: "bool \<Rightarrow> string \<Rightarrow> (nat \<times> string) option" where
  "getnum fixed [] = None"
| "getnum fixed [c] = (if is_digit c \<and> \<not> fixed then Some (dec_val c, []) else None)"
| "getnum fixed (c # d # s) =
     (if \<not> is_digit c then None
      else if \<not> is_digit d then (if fixed then None else Some (dec_val c, d # s))
      else Some (10 * dec_val c + dec_val d, s))"

fun skip :: "char \<Rightarrow> string \<Rightarrow> string option" where
  "skip c [] = None"
| "skip c (d # s) = (if c = d then Some s else None)"

definition get_year :: "string \<Rightarrow> (nat \<times> string) option" where
  "get_year s =
     (if length s < 4 \<or> \<not> list_all is_digit (take 4 s) then None
      else Some (nat_of_digits (take 4 s), drop 4 s))"

text \<open>An optional fraction, introduced by a period or a comma; digits past the ninth are dropped.\<close>

definition get_frac :: "string \<Rightarrow> nat \<times> string" where
  "get_frac s =
     (case s of
        p # c # _ \<Rightarrow>
          (if (p = CHR ''.'' \<or> p = CHR '','') \<and> is_digit c then
             (let ds = takeWhile is_digit (tl s); used = take 9 ds
              in (nat_of_digits used * 10 ^ (9 - length used), drop (length ds) (tl s)))
           else (0, s))
      | _ \<Rightarrow> (0, s))"

text \<open>The zone: \<open>Z\<close>, or a signed offset of hours and minutes; the result is in seconds.\<close>

definition get_zone :: "string \<Rightarrow> (int \<times> string) option" where
  "get_zone s =
     (case s of
        [] \<Rightarrow> None
      | c # rest \<Rightarrow>
          if c = CHR ''Z'' then Some (0, rest)
          else if length s < 6 \<or> s ! 3 \<noteq> CHR '':'' then None
          else (case (getnum True (take 2 rest), getnum True (take 2 (drop 3 rest))) of
                  (Some (hr, _), Some (mm, _)) \<Rightarrow>
                    (if hr > 24 \<or> mm > 60 then None
                     else if c = CHR ''+'' then Some (int (hr * 60 + mm) * 60, drop 5 rest)
                     else if c = CHR ''-'' then Some (- int (hr * 60 + mm) * 60, drop 5 rest)
                     else None)
                | _ \<Rightarrow> None))"

definition parse_RFC3339Nano :: "string \<Rightarrow> time option" where
  "parse_RFC3339Nano v =
     Option.bind (get_year v) (\<lambda>(y, v).
     Option.bind (skip (CHR ''-'') v) (\<lambda>v.
     Option.bind (getnum True v) (\<lambda>(mo, v).
     Option.bind (skip (CHR ''-'') v) (\<lambda>v.
     Option.bind (getnum True v) (\<lambda>(d, v).
     Option.bind (skip (CHR ''T'') v) (\<lambda>v.
     Option.bind (getnum False v) (\<lambda>(h, v).
     Option.bind (skip (CHR '':'') v) (\<lambda>v.
     Option.bind (getnum True v) (\<lambda>(mi, v).
     Option.bind (skip (CHR '':'') v) (\<lambda>v.
     Option.bind (getnum True v) (\<lambda>(s, v).
     (case get_frac v of (ns, v) \<Rightarrow>
     Option.bind (get_zone v) (\<lambda>(off, v).
       if mo < 1 \<or> 12 < mo \<or> d < 1 \<or> days_in (int mo) (int y) < int d
          \<or> 24 \<le> h \<or> 60 \<le> mi \<or> 60 \<le> s \<or> v \<noteq> [] then None
       else Some ((days_from_civil (int y) (int mo) (int d) * 86400
                   + int (h * 3600 + mi * 60 + s) - off) * 1000000000 + int ns))))))))))))))"

section \<open>Calendar round trip\<close>

lemma era_split_props:
  assumes "0 \<le> doe" "doe < 146097" "era_split doe = (yoe, doy)"
  shows "0 \<le> yoe" "yoe < 400" "0 \<le> doy" "doy \<le> 365"
    and "doe = yoe * 365 + yoe div 4 - yoe div 100 + doy"
    and "doy = 365 \<Longrightarrow> is_leap (yoe + 1)"
proof -
  define n100 where "n100 = min (doe div 36524) 3"
  define r where "r = doe - 36524 * n100"
  define n4 where "n4 = r div 1461"
  define q where "q = r mod 1461"
  define n1 where "n1 = min (q div 365) 3"
  have y: "yoe = 100 * n100 + 4 * n4 + n1" and d: "doy = q - 365 * n1"
    using assms(3) by (auto simp: era_split_def Let_def n100_def r_def n4_def n1_def q_def)
  have n100: "0 \<le> n100" "n100 \<le> 3" using assms(1) by (auto simp: n100_def)
  have r: "0 \<le> r" "r \<le> 36524" "n100 < 3 \<Longrightarrow> r < 36524"
    using assms(1,2) by (auto simp: r_def n100_def min_def)
  have n4: "0 \<le> n4" "n4 \<le> 24" using r(1,2) by (auto simp: n4_def)
  have q: "0 \<le> q" "q \<le> 1460" "r = 1461 * n4 + q" by (auto simp: q_def n4_def)
  have n1: "0 \<le> n1" "n1 \<le> 3" using q(1) by (auto simp: n1_def)
  show yb: "0 \<le> yoe" "yoe < 400" using y n100 n4 n1 by auto
  show "0 \<le> doy" using d q(1) by (auto simp: n1_def min_def)
  show db: "doy \<le> 365" using d q(2) by (auto simp: n1_def min_def)
  have "yoe div 4 = 25 * n100 + n4" using y n1 by auto
  moreover have "yoe div 100 = n100" using y n1 n4 by auto
  ultimately show "doe = yoe * 365 + yoe div 4 - yoe div 100 + doy"
    using y d q(3) by (simp add: r_def)
  assume "doy = 365"
  then have "n1 = 3" "q = 1460" using d q(2) n1 by (auto simp: n1_def min_def split: if_splits)
  then have "(yoe + 1) mod 4 = 0" using y by auto
  moreover have "(yoe + 1) mod 400 = 0" if "(yoe + 1) mod 100 = 0"
  proof -
    have "n4 = 24" using that y n4 \<open>n1 = 3\<close> by presburger
    with r(3) q(3) \<open>q = 1460\<close> have "\<not> n100 < 3" by auto
    with n100 have "n100 = 3" by simp
    with y \<open>n4 = 24\<close> \<open>n1 = 3\<close> show ?thesis by simp
  qed
  ultimately show "is_leap (yoe + 1)" by (auto simp: is_leap_def)
qed

lemma is_leap_era: "is_leap (y + era * 400) \<longleftrightarrow> is_leap y"
proof -
  have "y + era * 400 = y + era * 100 * 4" "y + era * 400 = y + era * 4 * 100" by simp_all
  then have "(y + era * 400) mod 4 = y mod 4" "(y + era * 400) mod 100 = y mod 100"
    by (metis mod_mult_self1)+
  then show ?thesis by (simp add: is_leap_def)
qed

lemma month_props:
  fixes doy :: int
  assumes "0 \<le> doy" "doy \<le> 365"
  defines "mp \<equiv> (5 * doy + 2) div 153"
  shows "0 \<le> mp" "mp \<le> 11" "0 \<le> doy - (153 * mp + 2) div 5"
    and "mp = 11 \<Longrightarrow> doy - (153 * mp + 2) div 5 \<le> 28"
    and "mp = 11 \<Longrightarrow> doy \<noteq> 365 \<Longrightarrow> doy - (153 * mp + 2) div 5 \<le> 27"
    and "mp \<in> {1, 3, 6, 8} \<Longrightarrow> doy - (153 * mp + 2) div 5 \<le> 29"
    and "doy - (153 * mp + 2) div 5 \<le> 30"
proof -
  show mp: "0 \<le> mp" "mp \<le> 11" using assms(1,2) by (auto simp: mp_def)
  have b: "153 * mp \<le> 5 * doy + 2" "5 * doy + 2 < 153 * mp + 153"
    by (auto simp: mp_def)
  define t where "t = (153 * mp + 2) div 5"
  have t: "5 * t \<le> 153 * mp + 2" "153 * mp + 2 < 5 * t + 5"
    by (auto simp: t_def)
  have "0 \<le> doy - t" "doy - t \<le> 30" using b t by linarith+
  then show "0 \<le> doy - (153 * mp + 2) div 5" "doy - (153 * mp + 2) div 5 \<le> 30"
    by (simp_all only: t_def)
  show "mp = 11 \<Longrightarrow> doy - (153 * mp + 2) div 5 \<le> 28"
    "mp = 11 \<Longrightarrow> doy \<noteq> 365 \<Longrightarrow> doy - (153 * mp + 2) div 5 \<le> 27" using assms(2) by auto
  show "mp \<in> {1, 3, 6, 8} \<Longrightarrow> doy - (153 * mp + 2) div 5 \<le> 29" using b by auto
qed

lemma civil_from_days_props:
  assumes "civil_from_days z = (y, m, d)"
  shows "days_from_civil y m d = z" "1 \<le> m" "m \<le> 12" "1 \<le> d" "d \<le> days_in m y"
proof -
  define doe where "doe = (z + 719468) mod 146097"
  define era where "era = (z + 719468) div 146097"
  obtain yoe doy where split: "era_split doe = (yoe, doy)" by (cases "era_split doe")
  define mp where "mp = (5 * doy + 2) div 153"
  have doe: "0 \<le> doe" "doe < 146097" "z + 719468 = era * 146097 + doe"
    by (simp_all add: doe_def era_def)
  note e = era_split_props [OF doe(1,2) split]
  note mpp = month_props [OF e(3,4), folded mp_def]
  have d: "d = doy - (153 * mp + 2) div 5 + 1"
    and m: "m = (if mp < 10 then mp + 3 else mp - 9)"
    and y: "y = yoe + era * 400 + (if m \<le> 2 then 1 else 0)"
    using assms split by (auto simp: civil_from_days_def Let_def doe_def era_def mp_def)
  show "1 \<le> m" "m \<le> 12" "1 \<le> d" using m mpp(1-3) d by auto
  have "(if m \<le> 2 then y - 1 else y) = yoe + era * 400" using y by simp
  then have "(if m \<le> 2 then y - 1 else y) div 400 = era" "(if m \<le> 2 then y - 1 else y) mod 400 = yoe"
    using e(1,2) by simp_all
  moreover have "(m + 9) mod 12 = mp" using m mpp(1,2) by (auto split: if_splits)
  ultimately have "days_from_civil y m d =
      era * 146097 + (yoe * 365 + yoe div 4 - yoe div 100 + ((153 * mp + 2) div 5 + d - 1)) - 719468"
    unfolding days_from_civil_def Let_def by (simp only:)
  also have "\<dots> = era * 146097 + (yoe * 365 + yoe div 4 - yoe div 100 + doy) - 719468"
    by (simp only: d)
  also have "\<dots> = z" using doe(3) by (simp only: e(5) [symmetric])
  finally show "days_from_civil y m d = z" .
  show "d \<le> days_in m y"
  proof (cases "mp = 11")
    case True
    then have "m = 2" "y = yoe + 1 + era * 400" using m y by simp_all
    then show ?thesis
      using True e(6) mpp(4,5) d is_leap_era [of "yoe + 1" era]
      by (cases "doy = 365") (auto simp: days_in_def)
  next
    case False
    show ?thesis
    proof (cases "mp \<in> {1, 3, 6, 8}")
      case True
      then have "days_in m y = 30" using m by (auto simp: days_in_def)
      with mpp(6) [OF True] d show ?thesis by simp
    next
      case not30: False
      then have "days_in m y = 31" using m False mpp(1,2) by (auto simp: days_in_def)
      with mpp(7) d show ?thesis by simp
    qed
  qed
qed

section \<open>Text round trip\<close>

lemma dec_char_digit: "n < 10 \<Longrightarrow> is_digit (dec_char n)"
  by (simp add: is_digit_def dec_char_def)

lemma is_digit_zero [simp]: "is_digit (CHR ''0'')"
  by (simp add: is_digit_def)

lemma length_show_nat: "n < 10 ^ w \<Longrightarrow> 0 < w \<Longrightarrow> length (show_nat n) \<le> w"
proof (induction w arbitrary: n)
  case (Suc w)
  show ?case
  proof (cases "n < 10")
    case True
    then show ?thesis by (simp add: show_nat.simps [of n])
  next
    case False
    then have "0 < w" using Suc.prems(1) by (cases w) auto
    with Suc.prems(1) Suc.IH [of "n div 10"] have "length (show_nat (n div 10)) \<le> w"
      by (simp add: less_mult_imp_div_less mult.commute)
    with False show ?thesis by (simp add: show_nat.simps [of n])
  qed
qed simp

lemma nat_of_digits_append:
  "nat_of_digits (s @ t) = nat_of_digits s * 10 ^ length t + nat_of_digits t"
proof (induction t rule: rev_induct)
  case (snoc c t)
  have "nat_of_digits (u @ [c]) = 10 * nat_of_digits u + dec_val c" for u
    by (simp add: nat_of_digits_def)
  from this [of "s @ t"] this [of t] snoc show ?case by (simp add: algebra_simps)
qed (simp add: nat_of_digits_def)

lemma nat_of_digits_zeros [simp]: "nat_of_digits (replicate k (CHR ''0'')) = 0"
  by (induction k) (simp_all add: nat_of_digits_def dec_val_def)

lemma nat_of_digits_pad [simp]: "nat_of_digits (pad w n) = n"
  by (simp add: pad_def nat_of_digits_append)

lemma length_pad: "n < 10 ^ w \<Longrightarrow> 0 < w \<Longrightarrow> length (pad w n) = w"
  using length_show_nat [of n w] by (simp add: pad_def)

lemma pad_digits: "c \<in> set (pad w n) \<Longrightarrow> is_digit c"
  using show_nat_digits [of c n] by (auto simp: pad_def is_digit_def)

lemma getnum_digits:
  "length ds = 2 \<Longrightarrow> list_all is_digit ds \<Longrightarrow> getnum f (ds @ s) = Some (nat_of_digits ds, s)"
  by (cases ds rule: list.exhaust; cases "tl ds") (auto simp: nat_of_digits_def)

lemma getnum_pad: "n < 100 \<Longrightarrow> getnum f (pad 2 n @ s) = Some (n, s)"
  using getnum_digits [of "pad 2 n" f s] length_pad [of n 2] pad_digits [of _ 2 n]
  by (simp add: list_all_iff)

lemma get_year_pad: "n < 10000 \<Longrightarrow> get_year (pad 4 n @ s) = Some (n, s)"
  using length_pad [of n 4] pad_digits [of _ 4 n] by (simp add: get_year_def list_all_iff)

lemma strip_zeros:
  "\<exists>k. s = rev (dropWhile (\<lambda>c. c = CHR ''0'') (rev s)) @ replicate k (CHR ''0'')"
proof -
  let ?z = "takeWhile (\<lambda>c. c = CHR ''0'') (rev s)"
  have "rev s = ?z @ dropWhile (\<lambda>c. c = CHR ''0'') (rev s)" by simp
  then have "s = rev (dropWhile (\<lambda>c. c = CHR ''0'') (rev s)) @ rev ?z"
    by (metis rev_append rev_rev_ident)
  moreover have "rev ?z = replicate (length ?z) (CHR ''0'')"
    by (rule replicate_eqI) (auto dest: set_takeWhileD)
  ultimately show ?thesis by metis
qed

lemma get_frac_text:
  assumes "ns < 1000000000"
  shows "get_frac (frac_text ns @ ''Z'') = (ns, ''Z'')"
proof (cases "ns = 0")
  case True
  then show ?thesis by (simp add: frac_text_def get_frac_def)
next
  case False
  define ds where "ds = rev (dropWhile (\<lambda>c. c = CHR ''0'') (rev (pad 9 ns)))"
  obtain k where k: "pad 9 ns = ds @ replicate k (CHR ''0'')"
    using strip_zeros [of "pad 9 ns"] ds_def by blast
  have len: "length ds + k = 9"
    using length_pad [of ns 9] assms k by simp
  have val: "nat_of_digits ds * 10 ^ k = ns"
    using arg_cong [OF k, of nat_of_digits] by (simp add: nat_of_digits_append)
  with False have "ds \<noteq> []" by (auto simp: nat_of_digits_def)
  then obtain c cs where ds: "ds = c # cs" by (cases ds) auto
  have dig: "\<forall>c \<in> set ds. is_digit c" using pad_digits [of _ 9 ns] k by auto
  then have "takeWhile is_digit (ds @ ''Z'') = ds"
    by (simp add: takeWhile_append2 is_digit_def)
  with ds dig len val False show ?thesis
    by (auto simp: frac_text_def ds_def [symmetric] get_frac_def Let_def)
qed

text \<open>Times whose calendar year has four digits, the range in which the layout is unambiguous.\<close>

definition year_ok :: "time \<Rightarrow> bool" where
  "year_ok t \<longleftrightarrow> (let y = fst (civil_from_days (t div nanos_per_day)) in 0 \<le> y \<and> y < 10000)"

lemma seconds_split: "s div 3600 * 3600 + s div 60 mod 60 * 60 + s mod 60 = (s :: nat)"
proof -
  have "s div 3600 = s div 60 div 60" by (simp add: div_mult2_eq [symmetric])
  then have "s div 3600 * 60 + s div 60 mod 60 = s div 60" by simp
  then have "s div 3600 * 3600 + s div 60 mod 60 * 60 = s div 60 * 60" by simp
  then show ?thesis by simp
qed

lemma time_split:
  "t = (t div nanos_per_day * 86400 + t mod nanos_per_day div 1000000000) * 1000000000 + t mod 1000000000"
proof -
  have "t div nanos_per_day = t div 1000000000 div 86400"
    "t mod nanos_per_day div 1000000000 = t div 1000000000 mod 86400"
    using zdiv_zmult2_eq [of 86400 t 1000000000] mod_mult2_eq' [of t 1000000000 86400] by auto
  then show ?thesis by simp
qed

lemma parse_format_RFC3339Nano:
  assumes "year_ok t"
  shows "parse_RFC3339Nano (format_RFC3339Nano t) = Some t"
proof -
  obtain y m d where civ: "civil_from_days (t div nanos_per_day) = (y, m, d)"
    by (cases "civil_from_days (t div nanos_per_day)") auto
  note c = civil_from_days_props [OF civ]
  have y: "0 \<le> y" "nat y < 10000" using assms civ by (auto simp: year_ok_def)
  have "d \<le> 31" using c(5) by (auto simp: days_in_def split: if_splits)
  then have md: "nat m < 100" "nat d < 100" using c(3) by auto
  define s where "s = nat (t mod nanos_per_day div 1000000000)"
  have s: "s < 86400" by (simp add: s_def)
  have hms: "s div 3600 < 24" "s div 60 mod 60 < 60" "s mod 60 < 60"
    "s div 3600 * 3600 + s div 60 mod 60 * 60 + s mod 60 = s" using s
    by (simp_all add: less_mult_imp_div_less seconds_split)
  have rng: "\<not> 12 < nat m" "\<not> 60 \<le> s div 60 mod 60" "\<not> 60 \<le> s mod 60"
    using c(3) hms(2,3) by (auto simp: not_le)
  define ns where "ns = nat (t mod 1000000000)"
  have ns: "ns < 1000000000" by (simp add: ns_def)
  have t: "t = (t div nanos_per_day * 86400 + int s) * 1000000000 + int ns"
  proof -
    have "0 \<le> t mod nanos_per_day div 1000000000" by (simp add: pos_imp_zdiv_nonneg_iff)
    with time_split [of t] show ?thesis by (simp add: s_def ns_def)
  qed
  have "format_RFC3339Nano t = pad 4 (nat y) @ ''-'' @ pad 2 (nat m) @ ''-'' @ pad 2 (nat d) @ ''T''
      @ pad 2 (s div 3600) @ '':'' @ pad 2 (s div 60 mod 60) @ '':'' @ pad 2 (s mod 60)
      @ frac_text ns @ ''Z''"
    using y(1) by (simp add: format_RFC3339Nano_def date_text_def civ s_def ns_def pad_int_def Let_def)
  then have "parse_RFC3339Nano (format_RFC3339Nano t) =
      Some ((days_from_civil y m d * 86400 + int (s div 3600 * 3600 + s div 60 mod 60 * 60 + s mod 60) - 0)
         * 1000000000 + int ns)"
    using y md hms(1-3) c(2-5) rng
    by (simp add: parse_RFC3339Nano_def get_year_pad getnum_pad get_frac_text [OF ns] get_zone_def
        del: of_nat_add of_nat_mult)
  also have "\<dots> = Some t" using t hms(4) c(1) by simp
  finally show ?thesis .
qed

lemma format_RFC3339Nano_inject:
  "year_ok t \<Longrightarrow> year_ok u \<Longrightarrow> format_RFC3339Nano t = format_RFC3339Nano u \<longleftrightarrow> t = u"
  using parse_format_RFC3339Nano by (metis option.inject)

end
