(* ===== verification/Json.thy ===== *)
theory Json
  imports GoTime
begin

text \<open>
  The encoder of \<open>encoding/json\<close> as the program uses it: dynamic Go values (the
  \<open>interface{}\<close> entries of a row image), string quoting with Go's escapes, \<open>Marshal\<close> of
  values and maps (keys in byte order), and the scanner that validates and compacts a
  \<open>json.RawMessage\<close> when a structure that holds one is marshalled.
\<close>

section \<open>Go values\<close>

text \<open>
  A row value keeps the Go type the driver gave it, since the code asks for it with type
  assertions. A floating-point number is represented by the literal \<open>Marshal\<close> prints for
  it, which is the only use the program makes of it; \<open>None\<close> stands for NaN and the
  infinities, which have no literal.
\<close>

datatype int_kind = KInt | KInt8 | KInt16 | KInt32 | KInt64 | KUint8 | KUint16 | KUint32 | KUint64

datatype gval =
    GNil
  | GBool bool
  | GInt int_kind int
  | GFloat "string option"
  | GString string
  | GBytes bytes
  | GTime time
  | GList "gval list"
  | GMap "(string \<times> gval) list"

type_synonym row = "(string, gval) gomap"

text \<open>The type assertion \<open>v.(string)\<close> with the zero value on failure, as in \<open>s, _ := \<dots>\<close>.\<close>

fun as_string :: "gval option \<Rightarrow> string" where
  "as_string (Some (GString s)) = s"
| "as_string _ = []"

section \<open>Strings\<close>

abbreviation DQ :: char where "DQ \<equiv> CHR 0x22"
abbreviation BSL :: char where "BSL \<equiv> CHR 0x5C"

abbreviation code :: "char \<Rightarrow> nat" where "code c \<equiv> of_char c"

definition is_cont :: "char \<Rightarrow> bool" where
  "is_cont c \<longleftrightarrow> 0x80 \<le> code c \<and> code c \<le> 0xBF"

text \<open>The well-formed sequences of two, three and four bytes.\<close>

definition seq2 :: "char \<Rightarrow> char \<Rightarrow> bool" where
  "seq2 c c1 \<longleftrightarrow> 0xC2 \<le> code c \<and> code c \<le> 0xDF \<and> is_cont c1"

definition seq3 :: "char \<Rightarrow> char \<Rightarrow> char \<Rightarrow> bool" where
  "seq3 c c1 c2 \<longleftrightarrow> 0xE0 \<le> code c \<and> code c \<le> 0xEF
     \<and> (if code c = 0xE0 then 0xA0 else 0x80) \<le> code c1
     \<and> code c1 \<le> (if code c = 0xED then 0x9F else 0xBF) \<and> is_cont c2"

definition seq4 :: "char \<Rightarrow> char \<Rightarrow> char \<Rightarrow> char \<Rightarrow> bool" where
  "seq4 c c1 c2 c3 \<longleftrightarrow> 0xF0 \<le> code c \<and> code c \<le> 0xF4
     \<and> (if code c = 0xF0 then 0x90 else 0x80) \<le> code c1
     \<and> code c1 \<le> (if code c = 0xF4 then 0x8F else 0xBF) \<and> is_cont c2 \<and> is_cont c3"

text \<open>The length of the UTF-8 sequence at the head of a string, 0 if there is none.\<close>

fun utf8_size :: "string \<Rightarrow> nat" where
  "utf8_size [] = 0"
| "utf8_size [c] = (if code c < 0x80 then 1 else 0)"
| "utf8_size [c, c1] = (if code c < 0x80 then 1 else if seq2 c c1 then 2 else 0)"
| "utf8_size [c, c1, c2] =
     (if code c < 0x80 then 1 else if seq2 c c1 then 2 else if seq3 c c1 c2 then 3 else 0)"
| "utf8_size (c # c1 # c2 # c3 # _) =
     (if code c < 0x80 then 1 else if seq2 c c1 then 2 else if seq3 c c1 c2 then 3
      else if seq4 c c1 c2 c3 then 4 else 0)"

definition hex_escape :: "char \<Rightarrow> string" where
  "hex_escape c = [BSL, CHR ''u'', CHR ''0'', CHR ''0'', hex_char (code c div 16), hex_char (code c mod 16)]"

definition html_special :: "char \<Rightarrow> bool" where
  "html_special c \<longleftrightarrow> c = CHR ''<'' \<or> c = CHR ''>'' \<or> c = CHR ''&''"

definition escape_ascii :: "char \<Rightarrow> string" where
  "escape_ascii c =
     (if c = DQ \<or> c = BSL then [BSL, c]
      else if code c = 0x08 then [BSL, CHR ''b'']
      else if code c = 0x0C then [BSL, CHR ''f'']
      else if code c = 0x0A then [BSL, CHR ''n'']
      else if code c = 0x0D then [BSL, CHR ''r'']
      else if code c = 0x09 then [BSL, CHR ''t'']
      else if code c < 0x20 \<or> html_special c then hex_escape c
      else [c])"

text \<open>U+2028 and U+2029, encoded \<open>E2 80 A8\<close> and \<open>E2 80 A9\<close>, are escaped.\<close>

fun line_separator :: "string \<Rightarrow> bool" where
  "line_separator (a # b # c # _) \<longleftrightarrow> code a = 0xE2 \<and> code b = 0x80 \<and> (code c = 0xA8 \<or> code c = 0xA9)"
| "line_separator _ \<longleftrightarrow> False"

definition sep_escape :: "string \<Rightarrow> string" where
  "sep_escape s = [BSL, CHR ''u'', CHR ''2'', CHR ''0'', CHR ''2'', hex_char (code (s ! 2) mod 16)]"

function quote_body :: "string \<Rightarrow> string" where
  "quote_body s =
     (case s of
        [] \<Rightarrow> []
      | c # rest \<Rightarrow>
          if code c < 0x80 then escape_ascii c @ quote_body rest
          else if utf8_size s = 0 then [BSL] @ ''ufffd'' @ quote_body rest
          else if line_separator s then sep_escape s @ quote_body (drop 3 s)
          else take (utf8_size s) s @ quote_body (drop (utf8_size s) s))"
  by pat_completeness auto
termination
  by (relation "measure length") (auto split: if_splits)

declare quote_body.simps [simp del]

lemma quote_body_Nil [simp]: "quote_body [] = []"
  by (simp add: quote_body.simps [of "[]"])

lemma quote_body_Cons:
  "quote_body (c # cs) =
     (if code c < 0x80 then escape_ascii c @ quote_body cs
      else if utf8_size (c # cs) = 0 then [BSL] @ ''ufffd'' @ quote_body cs
      else if line_separator (c # cs) then sep_escape (c # cs) @ quote_body (drop 3 (c # cs))
      else take (utf8_size (c # cs)) (c # cs) @ quote_body (drop (utf8_size (c # cs)) (c # cs)))"
  by (subst quote_body.simps) simp

definition quote :: "string \<Rightarrow> string" where
  "quote s = [DQ] @ quote_body s @ [DQ]"

section \<open>Values\<close>

fun sequence :: "'a result list \<Rightarrow> 'a list result" where
  "sequence rs = traverse id rs"

fun join :: "string \<Rightarrow> string list \<Rightarrow> string" where
  "join sep [] = []"
| "join sep [x] = x"
| "join sep (x # y # zs) = x @ sep @ join sep (y # zs)"

definition marshal_time :: "time \<Rightarrow> string result" where
  "marshal_time t =
     (if year_ok t then Inr ([DQ] @ format_RFC3339Nano t @ [DQ])
      else Inl (NewErr ''Time.MarshalJSON: year outside of range [0,9999]''))"

text \<open>
  \<open>json.Marshal\<close> on a dynamic value. The entries of a map are marshalled in the byte order
  of their keys, and the first error in that order is returned.
\<close>

fun marshal :: "gval \<Rightarrow> string result"
  and marshal_items :: "gval list \<Rightarrow> string result list"
  and marshal_entries :: "(string \<times> gval) list \<Rightarrow> (string \<times> string result) list" where
  "marshal GNil = Inr ''null''"
| "marshal (GBool b) = Inr (if b then ''true'' else ''false'')"
| "marshal (GInt k i) = Inr (show_int i)"
| "marshal (GFloat None) = Inl (NewErr ''json: unsupported value'')"
| "marshal (GFloat (Some lit)) = Inr lit"
| "marshal (GString s) = Inr (quote s)"
| "marshal (GBytes bs) = Inr ([DQ] @ b64_encode bs @ [DQ])"
| "marshal (GTime t) = marshal_time t"
| "marshal (GList vs) =
     result_bind (sequence (marshal_items vs)) (\<lambda>ts. Inr (''['' @ join '','' ts @ '']''))"
| "marshal (GMap kvs) =
     result_bind (traverse (\<lambda>(k, r). result_bind r (\<lambda>t. Inr (quote k @ '':'' @ t)))
                    (sort_key fst (marshal_entries kvs)))
       (\<lambda>ts. Inr (''{'' @ join '','' ts @ ''}''))"
| "marshal_items [] = []"
| "marshal_items (v # vs) = marshal v # marshal_items vs"
| "marshal_entries [] = []"
| "marshal_entries ((k, v) # kvs) = (k, marshal v) # marshal_entries kvs"

lemma marshal_items_map: "marshal_items vs = map marshal vs"
  by (induction vs) auto

lemma marshal_entries_map: "marshal_entries kvs = map (\<lambda>(k, v). (k, marshal v)) kvs"
  by (induction kvs) auto

section \<open>Raw messages\<close>

text \<open>
  The scanner of \<open>encoding/json\<close>: one step function per lexical state, a stack of
  enclosing objects and arrays, and per input byte either an error or a new state with the
  information whether the byte is insignificant space.
\<close>

datatype jstate =
    BeginValue | BeginValueOrEmpty | BeginString | BeginStringOrEmpty
  | EndValue | EndTop
  | InString | InStringEsc | InStringEscU nat
  | Neg | Num0 | Num1 | Dot | Dot0 | ExpE | ExpSign | Exp0
  | Lit string

datatype pstate = ObjectKey | ObjectValue | ArrayValue

type_synonym scanner = "jstate \<times> pstate list"

definition is_space :: "char \<Rightarrow> bool" where
  "is_space c \<longleftrightarrow> code c = 0x20 \<or> code c = 0x09 \<or> code c = 0x0D \<or> code c = 0x0A"

definition max_nesting :: nat where
  "max_nesting = 10000"

definition push_state :: "jstate \<Rightarrow> pstate \<Rightarrow> pstate list \<Rightarrow> (bool \<times> scanner) option" where
  "push_state st p ps = (if length ps < max_nesting then Some (False, (st, p # ps)) else None)"

fun pop_state :: "pstate list \<Rightarrow> bool \<times> scanner" where
  "pop_state ps = (False, (if tl ps = [] then EndTop else EndValue, tl ps))"

fun step_end_top :: "char \<Rightarrow> (bool \<times> scanner) option" where
  "step_end_top c = (if is_space c then Some (True, (EndTop, [])) else None)"

fun step_end_value :: "pstate list \<Rightarrow> char \<Rightarrow> (bool \<times> scanner) option" where
  "step_end_value [] c = step_end_top c"
| "step_end_value (p # ps) c =
     (if is_space c then Some (True, (EndValue, p # ps))
      else case p of
        ObjectKey \<Rightarrow> if c = CHR '':'' then Some (False, (BeginValue, ObjectValue # ps)) else None
      | ObjectValue \<Rightarrow>
          if c = CHR '','' then Some (False, (BeginString, ObjectKey # ps))
          else if c = CHR ''}'' then Some (pop_state (p # ps)) else None
      | ArrayValue \<Rightarrow>
          if c = CHR '','' then Some (False, (BeginValue, ArrayValue # ps))
          else if c = CHR '']'' then Some (pop_state (p # ps)) else None)"

definition step_begin_string :: "pstate list \<Rightarrow> char \<Rightarrow> (bool \<times> scanner) option" where
  "step_begin_string ps c =
     (if is_space c then Some (True, (BeginString, ps))
      else if c = DQ then Some (False, (InString, ps)) else None)"

definition step_begin_value :: "pstate list \<Rightarrow> char \<Rightarrow> (bool \<times> scanner) option" where
  "step_begin_value ps c =
     (if is_space c then Some (True, (BeginValue, ps))
      else if c = CHR ''{'' then push_state BeginStringOrEmpty ObjectKey ps
      else if c = CHR ''['' then push_state BeginValueOrEmpty ArrayValue ps
      else if c = DQ then Some (False, (InString, ps))
      else if c = CHR ''-'' then Some (False, (Neg, ps))
      else if c = CHR ''0'' then Some (False, (Num0, ps))
      else if c = CHR ''t'' then Some (False, (Lit ''rue'', ps))
      else if c = CHR ''f'' then Some (False, (Lit ''alse'', ps))
      else if c = CHR ''n'' then Some (False, (Lit ''ull'', ps))
      else if is_digit c then Some (False, (Num1, ps)) else None)"

definition step_exp :: "pstate list \<Rightarrow> char \<Rightarrow> (bool \<times> scanner) option" where
  "step_exp ps c =
     (if c = CHR ''e'' \<or> c = CHR ''E'' then Some (False, (ExpE, ps)) else step_end_value ps c)"

fun step :: "scanner \<Rightarrow> char \<Rightarrow> (bool \<times> scanner) option" where
  "step (BeginValue, ps) c = step_begin_value ps c"
| "step (BeginValueOrEmpty, ps) c =
     (if is_space c then Some (True, (BeginValueOrEmpty, ps))
      else if c = CHR '']'' then step_end_value ps c else step_begin_value ps c)"
| "step (BeginString, ps) c = step_begin_string ps c"
| "step (BeginStringOrEmpty, ps) c =
     (if is_space c then Some (True, (BeginStringOrEmpty, ps))
      else if c = CHR ''}'' then step_end_value (ObjectValue # tl ps) c
      else step_begin_string ps c)"
| "step (EndValue, ps) c = step_end_value ps c"
| "step (EndTop, ps) c = step_end_top c"
| "step (InString, ps) c =
     (if c = DQ then Some (False, (EndValue, ps))
      else if c = BSL then Some (False, (InStringEsc, ps))
      else if code c < 0x20 then None else Some (False, (InString, ps)))"
| "step (InStringEsc, ps) c =
     (if c \<in> set [CHR ''b'', CHR ''f'', CHR ''n'', CHR ''r'', CHR ''t'', BSL, CHR ''/'', DQ]
      then Some (False, (InString, ps))
      else if c = CHR ''u'' then Some (False, (InStringEscU 3, ps)) else None)"
| "step (InStringEscU n, ps) c =
     (if hex_val c = None then None
      else Some (False, ((case n of 0 \<Rightarrow> InString | Suc k \<Rightarrow> InStringEscU k), ps)))"
| "step (Neg, ps) c =
     (if c = CHR ''0'' then Some (False, (Num0, ps))
      else if is_digit c then Some (False, (Num1, ps)) else None)"
| "step (Num1, ps) c =
     (if is_digit c then Some (False, (Num1, ps))
      else if c = CHR ''.'' then Some (False, (Dot, ps)) else step_exp ps c)"
| "step (Num0, ps) c = (if c = CHR ''.'' then Some (False, (Dot, ps)) else step_exp ps c)"
| "step (Dot, ps) c = (if is_digit c then Some (False, (Dot0, ps)) else None)"
| "step (Dot0, ps) c = (if is_digit c then Some (False, (Dot0, ps)) else step_exp ps c)"
| "step (ExpE, ps) c =
     (if c = CHR ''+'' \<or> c = CHR ''-'' then Some (False, (ExpSign, ps))
      else if is_digit c then Some (False, (Exp0, ps)) else None)"
| "step (ExpSign, ps) c = (if is_digit c then Some (False, (Exp0, ps)) else None)"
| "step (Exp0, ps) c = (if is_digit c then Some (False, (Exp0, ps)) else step_end_value ps c)"
| "step (Lit [], ps) c = None"
| "step (Lit (d # ds), ps) c =
     (if c = d then Some (False, (if ds = [] then EndValue else Lit ds, ps)) else None)"

text \<open>\<open>eof\<close>: the input is complete when the scanner is, or a space would make it, at the end.\<close>

definition at_eof :: "scanner \<Rightarrow> bool" where
  "at_eof s \<longleftrightarrow> fst s = EndTop \<or>
     (case step s (CHR '' '') of Some (_, (st, _)) \<Rightarrow> st = EndTop | None \<Rightarrow> False)"

definition scan_error :: go_error where
  "scan_error = NewErr ''json: error calling MarshalJSON for type json.RawMessage''"

text \<open>
  \<open>appendCompact\<close> with HTML escaping: space is dropped, \<open>< > &\<close> and the two line
  separators are escaped, everything else is copied.
\<close>

function compact_from :: "scanner \<Rightarrow> string \<Rightarrow> string result" where
  "compact_from s cs =
     (case cs of
        [] \<Rightarrow> if at_eof s then Inr [] else Inl scan_error
      | c # rest \<Rightarrow>
          (case step s c of
             None \<Rightarrow> Inl scan_error
           | Some (space, s') \<Rightarrow>
               if space then compact_from s' rest
               else if html_special c then
                 result_bind (compact_from s' rest) (\<lambda>out. Inr (hex_escape c @ out))
               else if line_separator cs \<and> fst s = InString then
                 result_bind (compact_from s (drop 3 cs)) (\<lambda>out. Inr (sep_escape cs @ out))
               else result_bind (compact_from s' rest) (\<lambda>out. Inr (c # out))))"
  by pat_completeness auto
termination
  by (relation "measure (\<lambda>(s, cs). length cs)") auto

declare compact_from.simps [simp del]

definition compact :: "string \<Rightarrow> string result" where
  "compact raw = compact_from (BeginValue, []) raw"

text \<open>A raw message field; a nil message is written \<open>null\<close>.\<close>

definition marshal_raw :: "string \<Rightarrow> string result" where
  "marshal_raw raw = (if raw = [] then Inr ''null'' else compact raw)"

text \<open>\<open>json.MarshalIndent\<close> of a flat structure, with the indentation \<open>"  "\<close>.\<close>

definition indent_fields :: "(string \<times> string) list \<Rightarrow> string" where
  "indent_fields kvs = ''{'' @ [CHR 0x0A]
     @ join ('','' @ [CHR 0x0A]) (map (\<lambda>(k, v). ''  '' @ [DQ] @ k @ [DQ] @ '': '' @ v) kvs)
     @ [CHR 0x0A] @ ''}''"

end
