(* ===== verification/MerkleTree.thy ===== *)
theory MerkleTree
  imports Sha256
begin

text \<open>
  The Merkle tree of \<open>internal/merkle/tree.go\<close>: domain-separated hashing, bottom-up
  construction level by level with promotion of a lone last node, generation of the
  authentication path of a leaf and its verification.

  Shown here: the construction computes the Merkle tree hash of RFC 6962 (\<open>MTH\<close>); every
  generated proof verifies; a proof that verifies, wherever it comes from, proves membership,
  and a root determines the whole sequence of leaves, both unless two different byte strings
  that were actually hashed have the same digest; and the size of levels and proofs.
\<close>

section \<open>Model\<close>

record ProofNode =
  Node_Hash :: bytes
  Node_IsLeft :: bool

record Tree =
  Tree_leaves :: "bytes list"
  Tree_levels :: "bytes list list"
  Tree_root :: bytes

definition HashLeaf :: "bytes \<Rightarrow> bytes" where
  "HashLeaf data = sha256 (0x00 # data)"

definition HashInterior :: "bytes \<Rightarrow> bytes \<Rightarrow> bytes" where
  "HashInterior left right = sha256 (0x01 # left @ right)"

text \<open>The body of the outer loop of \<open>BuildTree\<close>: pairs are hashed, a lone node is promoted.\<close>

fun nextLevel :: "bytes list \<Rightarrow> bytes list" where
  "nextLevel (x # y # rest) = HashInterior x y # nextLevel rest"
| "nextLevel xs = xs"

lemma length_nextLevel [simp]: "length (nextLevel xs) = (length xs + 1) div 2"
  by (induction xs rule: nextLevel.induct) auto

function buildLevels :: "bytes list \<Rightarrow> bytes list list" where
  "buildLevels current =
     (if length current > 1 then current # buildLevels (nextLevel current) else [current])"
  by pat_completeness auto
termination
  by (relation "measure length") auto

declare buildLevels.simps [simp del]

definition BuildTree :: "bytes list \<Rightarrow> Tree result" where
  "BuildTree leafHashes =
     (if length leafHashes = 0 then
        (let emptyRoot = sha256 [] in
         Inr \<lparr>Tree_leaves = [], Tree_levels = [[emptyRoot]], Tree_root = emptyRoot\<rparr>)
      else
        (let levels = buildLevels leafHashes in
         Inr \<lparr>Tree_leaves = leafHashes, Tree_levels = levels, Tree_root = last levels ! 0\<rparr>))"

definition Root :: "Tree \<Rightarrow> bytes" where
  "Root t = Tree_root t"

text \<open>The loop of \<open>GenerateProof\<close> over all levels but the last.\<close>

fun proofLoop :: "nat \<Rightarrow> bytes list list \<Rightarrow> ProofNode list" where
  "proofLoop idx [] = []"
| "proofLoop idx (level # rest) =
     (let siblingIdx = (if idx mod 2 = 0 then idx + 1 else idx - 1);
          isLeft = (idx mod 2 \<noteq> 0)
      in (if siblingIdx < length level
          then [\<lparr>Node_Hash = level ! siblingIdx, Node_IsLeft = isLeft\<rparr>] else [])
         @ proofLoop (idx div 2) rest)"

definition GenerateProof :: "Tree \<Rightarrow> int \<Rightarrow> ProofNode list result" where
  "GenerateProof t leafIndex =
     (if leafIndex < 0 \<or> leafIndex \<ge> int (length (Tree_leaves t)) then Inl ErrIndexOutOfRange
      else Inr (proofLoop (nat leafIndex) (butlast (Tree_levels t))))"

fun verifyLoop :: "bytes \<Rightarrow> ProofNode list \<Rightarrow> bytes" where
  "verifyLoop current [] = current"
| "verifyLoop current (node # rest) =
     verifyLoop (if Node_IsLeft node then HashInterior (Node_Hash node) current
                 else HashInterior current (Node_Hash node)) rest"

definition VerifyProof :: "bytes \<Rightarrow> ProofNode list \<Rightarrow> bytes \<Rightarrow> bool" where
  "VerifyProof leafHash proof expectedRoot =
     (let current = verifyLoop leafHash proof in
      if length current \<noteq> length expectedRoot then False
      else list_all (\<lambda>(x, y). x = y) (zip current expectedRoot))"

section \<open>Basic facts\<close>

lemma length_HashLeaf [simp]: "length (HashLeaf d) = 32"
  by (simp add: HashLeaf_def)

lemma length_HashInterior [simp]: "length (HashInterior l r) = 32"
  by (simp add: HashInterior_def)

lemma VerifyProof_iff: "VerifyProof h proof root \<longleftrightarrow> verifyLoop h proof = root"
proof -
  have "list_all (\<lambda>(x, y). x = y) (zip xs ys) \<longleftrightarrow> xs = ys" if "length xs = length ys"
    for xs ys :: bytes
    using that by (induction xs ys rule: list_induct2) auto
  then show ?thesis by (auto simp: VerifyProof_def Let_def)
qed

lemma verifyLoop_append [simp]: "verifyLoop h (p @ q) = verifyLoop (verifyLoop h p) q"
  by (induction h p rule: verifyLoop.induct) auto

lemma buildLevels_Nil [simp]: "buildLevels [] = [[]]"
  by (simp add: buildLevels.simps [of "[]"])

lemma buildLevels_single [simp]: "buildLevels [x] = [[x]]"
  by (simp add: buildLevels.simps [of "[x]"])

lemma buildLevels_step:
  "length xs > 1 \<Longrightarrow> buildLevels xs = xs # buildLevels (nextLevel xs)"
  by (subst buildLevels.simps) simp

lemma buildLevels_not_Nil [simp]: "buildLevels xs \<noteq> []"
  by (subst buildLevels.simps) simp

text \<open>The root of the levels over a list of node hashes.\<close>

definition levels_root :: "bytes list \<Rightarrow> bytes" where
  "levels_root xs = last (buildLevels xs) ! 0"

lemma levels_root_single [simp]: "levels_root [x] = x"
  by (simp add: levels_root_def)

lemma levels_root_step: "length xs > 1 \<Longrightarrow> levels_root xs = levels_root (nextLevel xs)"
  by (simp add: levels_root_def buildLevels_step)

lemma BuildTree_root:
  "BuildTree xs = Inr t \<Longrightarrow> Root t = (if xs = [] then sha256 [] else levels_root xs)"
  by (auto simp: BuildTree_def Root_def levels_root_def Let_def split: if_splits)

lemma BuildTree_total: "\<exists>t. BuildTree xs = Inr t"
  by (simp add: BuildTree_def Let_def)

lemma BuildTree_Inr_sel:
  "BuildTree xs = Inr t \<Longrightarrow> xs \<noteq> [] \<Longrightarrow>
     Tree_leaves t = xs \<and> Tree_levels t = buildLevels xs \<and> Tree_root t = levels_root xs"
  by (auto simp: BuildTree_def levels_root_def Let_def split: if_splits)

section \<open>Equivalence with RFC 6962\<close>

text \<open>
  The split point of RFC 6962, section 2.1: the largest power of two smaller than \<open>n\<close>.
\<close>

fun split_point :: "nat \<Rightarrow> nat" where
  "split_point n = (if n \<le> 2 then 1 else 2 * split_point ((n + 1) div 2))"

declare split_point.simps [simp del]

lemma split_point_pow2: "\<exists>j. split_point n = 2 ^ j"
proof (induction n rule: split_point.induct)
  case (1 n)
  show ?case
  proof (cases "n \<le> 2")
    case True
    then have "split_point n = 2 ^ 0" by (simp add: split_point.simps [of n])
    then show ?thesis by blast
  next
    case False
    with "1.IH" obtain j where "split_point ((n + 1) div 2) = 2 ^ j" by blast
    with False have "split_point n = 2 ^ Suc j" by (simp add: split_point.simps [of n])
    then show ?thesis by blast
  qed
qed

lemma split_point_bounds: "n \<ge> 2 \<Longrightarrow> split_point n < n \<and> n \<le> 2 * split_point n"
proof (induction n rule: split_point.induct)
  case (1 n)
  show ?case
  proof (cases "n \<le> 2")
    case True
    with "1.prems" have "n = 2" by simp
    then show ?thesis by (simp add: split_point.simps [of 2])
  next
    case False
    then have "split_point ((n + 1) div 2) < (n + 1) div 2 \<and>
        (n + 1) div 2 \<le> 2 * split_point ((n + 1) div 2)"
      using "1.IH" by simp
    with False show ?thesis by (simp only: split_point.simps [of n] if_False) linarith
  qed
qed

lemma split_point_pos: "split_point n > 0"
  using split_point_pow2 [of n] by auto

text \<open>The Merkle tree hash over a list of data entries, as the RFC defines it.\<close>

function MTH :: "bytes list \<Rightarrow> bytes" where
  "MTH D =
     (if D = [] then sha256 []
      else if length D = 1 then sha256 (0x00 # hd D)
      else sha256 (0x01 # MTH (take (split_point (length D)) D)
                        @ MTH (drop (split_point (length D)) D)))"
  by pat_completeness auto
termination
proof (relation "measure length")
  fix D :: "bytes list"
  assume "D \<noteq> []" "length D \<noteq> 1"
  then have "length D \<ge> 2" by (cases D) (auto simp: Suc_le_eq)
  then show "(take (split_point (length D)) D, D) \<in> measure length"
    and "(drop (split_point (length D)) D, D) \<in> measure length"
    using split_point_bounds [of "length D"] split_point_pos [of "length D"] by auto
qed simp

declare MTH.simps [simp del]

text \<open>
  The shape behind the hash: a binary tree with the data entries at its leaves. Its root hash
  is \<open>MTH\<close>, and it is what the soundness arguments below induct over.
\<close>

datatype htree = HLeaf bytes | HNode htree htree

fun hroot :: "htree \<Rightarrow> bytes" where
  "hroot (HLeaf d) = HashLeaf d"
| "hroot (HNode l r) = HashInterior (hroot l) (hroot r)"

fun hleaves :: "htree \<Rightarrow> bytes list" where
  "hleaves (HLeaf d) = [d]"
| "hleaves (HNode l r) = hleaves l @ hleaves r"

text \<open>The byte strings that are hashed when the root of a tree is computed.\<close>

fun hinputs :: "htree \<Rightarrow> bytes list" where
  "hinputs (HLeaf d) = [0x00 # d]"
| "hinputs (HNode l r) = (0x01 # hroot l @ hroot r) # hinputs l @ hinputs r"

function rfc_tree :: "bytes list \<Rightarrow> htree" where
  "rfc_tree D =
     (if length D \<le> 1 then HLeaf (hd D)
      else HNode (rfc_tree (take (split_point (length D)) D))
                 (rfc_tree (drop (split_point (length D)) D)))"
  by pat_completeness auto
termination
proof (relation "measure length")
  fix D :: "bytes list"
  assume "\<not> length D \<le> 1"
  then show "(take (split_point (length D)) D, D) \<in> measure length"
    and "(drop (split_point (length D)) D, D) \<in> measure length"
    using split_point_bounds [of "length D"] split_point_pos [of "length D"] by auto
qed simp

declare rfc_tree.simps [simp del]

lemma length_hroot [simp]: "length (hroot t) = 32"
  by (cases t) auto

lemma rfc_tree_single [simp]: "rfc_tree [d] = HLeaf d"
  by (simp add: rfc_tree.simps [of "[d]"])

lemma rfc_tree_split:
  "length D > 1 \<Longrightarrow> rfc_tree D = HNode (rfc_tree (take (split_point (length D)) D))
                                     (rfc_tree (drop (split_point (length D)) D))"
  by (subst rfc_tree.simps) simp

lemma take_drop_split_not_Nil:
  "length D > 1 \<Longrightarrow> take (split_point (length D)) D \<noteq> [] \<and> drop (split_point (length D)) D \<noteq> []"
  using split_point_bounds [of "length D"] split_point_pos [of "length D"] by auto

lemma list_cases_length:
  obtains "D = []" | d where "D = [d]" | "length D > 1"
  by (cases D; cases "tl D") auto

lemma hleaves_rfc_tree: "D \<noteq> [] \<Longrightarrow> hleaves (rfc_tree D) = D"
proof (induction D rule: rfc_tree.induct)
  case (1 D)
  show ?case
  proof (cases rule: list_cases_length [of D])
    case 3
    then show ?thesis
      using "1.IH" take_drop_split_not_Nil [of D] by (simp add: rfc_tree_split)
  qed (use "1.prems" in auto)
qed

lemma MTH_rfc_tree: "D \<noteq> [] \<Longrightarrow> MTH D = hroot (rfc_tree D)"
proof (induction D rule: rfc_tree.induct)
  case (1 D)
  show ?case
  proof (cases rule: list_cases_length [of D])
    case (2 d)
    then show ?thesis by (simp add: MTH.simps [of "[d]"] HashLeaf_def)
  next
    case 3
    then show ?thesis
      using "1.IH" take_drop_split_not_Nil [of D]
      by (simp add: rfc_tree_split MTH.simps [of D] HashInterior_def)
  qed (use "1.prems" in auto)
qed

text \<open>
  The bottom-up construction on any list of node hashes agrees with the recursive split at
  the same point: one level of pairing commutes with the split, because the split point of
  more than two nodes is even.
\<close>

lemma nextLevel_append:
  "even (length xs) \<Longrightarrow> nextLevel (xs @ ys) = nextLevel xs @ nextLevel ys"
  by (induction xs rule: nextLevel.induct) auto

lemma split_nextLevel:
  assumes "length xs > 1" and "length xs \<noteq> 2"
  shows "length (nextLevel xs) = (length xs + 1) div 2"
    and "take (split_point ((length xs + 1) div 2)) (nextLevel xs) = nextLevel (take (split_point (length xs)) xs)"
    and "drop (split_point ((length xs + 1) div 2)) (nextLevel xs) = nextLevel (drop (split_point (length xs)) xs)"
    and "length (nextLevel xs) > 1"
    and "split_point (length xs) < length xs"
    and "split_point (length xs) > 1"
    and "even (split_point (length xs))"
proof -
  let ?k = "split_point (length xs)" and ?m = "split_point ((length xs + 1) div 2)"
  have k: "?k = 2 * ?m" using assms by (simp add: split_point.simps [of "length xs"])
  show kn: "?k < length xs" using split_point_bounds [of "length xs"] assms by simp
  show "?k > 1" "even ?k" using k split_point_pos [of "(length xs + 1) div 2"] by simp_all
  then have split: "nextLevel xs = nextLevel (take ?k xs) @ nextLevel (drop ?k xs)"
    using nextLevel_append [of "take ?k xs" "drop ?k xs"] kn by simp
  have "length (nextLevel (take ?k xs)) = ?m" using kn k by simp
  then show "take ?m (nextLevel xs) = nextLevel (take ?k xs)"
    and "drop ?m (nextLevel xs) = nextLevel (drop ?k xs)"
    unfolding split by (simp_all del: length_nextLevel)
qed (use assms in auto)

lemma levels_root_split:
  "length xs > 1 \<Longrightarrow>
     levels_root xs = HashInterior (levels_root (take (split_point (length xs)) xs))
                                   (levels_root (drop (split_point (length xs)) xs))"
proof (induction xs rule: buildLevels.induct)
  case (1 xs)
  let ?n = "length xs" and ?k = "split_point (length xs)"
  show ?case
  proof (cases "?n = 2")
    case True
    then obtain a b where "xs = [a, b]" by (auto simp: length_Suc_conv numeral_2_eq_2)
    then show ?thesis by (simp add: levels_root_step split_point.simps)
  next
    case False
    note split = split_nextLevel [OF "1.prems" False]
    have "levels_root xs = levels_root (nextLevel xs)"
      using "1.prems" by (rule levels_root_step)
    also have "\<dots> = HashInterior (levels_root (nextLevel (take ?k xs)))
                                  (levels_root (nextLevel (drop ?k xs)))"
      by (rule "1.IH" [OF "1.prems" split(4), unfolded split(1-3)])
    also have "levels_root (nextLevel (take ?k xs)) = levels_root (take ?k xs)"
      using levels_root_step [of "take ?k xs"] split(5,6) by simp
    also have "levels_root (nextLevel (drop ?k xs)) = levels_root (drop ?k xs)"
    proof (cases rule: list_cases_length [of "drop ?k xs"])
      case 3
      then show ?thesis using levels_root_step by simp
    qed (use split(5) in auto)
    finally show ?thesis .
  qed
qed

lemma levels_root_rfc_tree: "D \<noteq> [] \<Longrightarrow> levels_root (map HashLeaf D) = hroot (rfc_tree D)"
proof (induction D rule: rfc_tree.induct)
  case (1 D)
  show ?case
  proof (cases rule: list_cases_length [of D])
    case 3
    then show ?thesis
      using "1.IH" take_drop_split_not_Nil [of D] levels_root_split [of "map HashLeaf D"]
      by (simp add: rfc_tree_split take_map drop_map)
  qed (use "1.prems" in auto)
qed

section \<open>Generated proofs verify\<close>

text \<open>
  One level up: the node at position \<open>idx\<close>, combined with its sibling when it has one, is
  the node at position \<open>idx div 2\<close> of the next level.
\<close>

lemma nth_nextLevel:
  "idx < length xs \<Longrightarrow> nextLevel xs ! (idx div 2) =
     (if idx mod 2 = 0
      then (if idx + 1 < length xs then HashInterior (xs ! idx) (xs ! (idx + 1)) else xs ! idx)
      else HashInterior (xs ! (idx - 1)) (xs ! idx))"
proof (induction xs arbitrary: idx rule: nextLevel.induct)
  case (1 x y rest)
  consider "idx = 0" | "idx = 1" | j where "idx = Suc (Suc j)"
    by (metis One_nat_def not0_implies_Suc)
  then show ?case
  proof cases
    case 3
    with "1.prems" have "j < length rest" by simp
    from "1.IH" [OF this] 3 show ?thesis by (cases "j = 0") auto
  qed auto
qed auto

lemma verifyLoop_proofLoop:
  "idx < length xs \<Longrightarrow> verifyLoop (xs ! idx) (proofLoop idx (butlast (buildLevels xs))) = levels_root xs"
proof (induction xs arbitrary: idx rule: buildLevels.induct)
  case (1 xs)
  show ?case
  proof (cases rule: list_cases_length [of xs])
    case 3
    then have up: "verifyLoop (nextLevel xs ! (idx div 2))
        (proofLoop (idx div 2) (butlast (buildLevels (nextLevel xs)))) = levels_root (nextLevel xs)"
      using "1.IH" [of "idx div 2"] "1.prems" by simp
    have "butlast (buildLevels xs) = xs # butlast (buildLevels (nextLevel xs))"
      using 3 by (simp add: buildLevels_step)
    moreover have "idx mod 2 \<noteq> 0 \<Longrightarrow> idx - 1 < length xs" using "1.prems" by simp
    ultimately show ?thesis
      using up nth_nextLevel [OF "1.prems"] levels_root_step [OF 3] by (auto simp: Let_def)
  qed (use "1.prems" in auto)
qed

section \<open>What the construction hashes\<close>

fun pairInputs :: "bytes list \<Rightarrow> bytes list" where
  "pairInputs (x # y # rest) = (0x01 # x @ y) # pairInputs rest"
| "pairInputs xs = []"

text \<open>The byte strings that \<open>BuildTree\<close> passes to \<open>SHA-256\<close> for a list of leaf hashes.\<close>

definition buildInputs :: "bytes list \<Rightarrow> bytes list" where
  "buildInputs xs = (if xs = [] then [[]] else concat (map pairInputs (buildLevels xs)))"

lemma pairInputs_append:
  "even (length xs) \<Longrightarrow> pairInputs (xs @ ys) = pairInputs xs @ pairInputs ys"
  by (induction xs rule: pairInputs.induct) auto

lemma buildInputs_single [simp]: "buildInputs [x] = []"
  by (simp add: buildInputs_def)

lemma buildInputs_step:
  "length xs > 1 \<Longrightarrow> buildInputs xs = pairInputs xs @ buildInputs (nextLevel xs)"
  by (cases xs rule: nextLevel.cases) (auto simp: buildInputs_def buildLevels_step)

lemma nextLevel_lone:
  assumes "xs \<noteq> []"
  shows "levels_root (nextLevel xs) = levels_root xs"
    and "set (pairInputs xs) \<union> set (buildInputs (nextLevel xs)) = set (buildInputs xs)"
proof -
  have "levels_root (nextLevel xs) = levels_root xs \<and>
      set (pairInputs xs) \<union> set (buildInputs (nextLevel xs)) = set (buildInputs xs)"
  proof (cases rule: list_cases_length [of xs])
    case 3
    then show ?thesis
      using levels_root_step [of xs] buildInputs_step [of xs] by simp
  qed (use assms in auto)
  then show "levels_root (nextLevel xs) = levels_root xs"
    and "set (pairInputs xs) \<union> set (buildInputs (nextLevel xs)) = set (buildInputs xs)"
    by blast+
qed

lemma buildInputs_split:
  "length xs > 1 \<Longrightarrow>
     set (buildInputs xs) =
       insert (0x01 # levels_root (take (split_point (length xs)) xs)
                    @ levels_root (drop (split_point (length xs)) xs))
         (set (buildInputs (take (split_point (length xs)) xs))
          \<union> set (buildInputs (drop (split_point (length xs)) xs)))"
proof (induction xs rule: buildLevels.induct)
  case (1 xs)
  let ?n = "length xs" and ?k = "split_point (length xs)"
  show ?case
  proof (cases "?n = 2")
    case True
    then obtain a b where "xs = [a, b]" by (auto simp: length_Suc_conv numeral_2_eq_2)
    then show ?thesis by (simp add: buildInputs_step split_point.simps)
  next
    case False
    note split = split_nextLevel [OF "1.prems" False]
    have tail: "levels_root (nextLevel (drop ?k xs)) = levels_root (drop ?k xs)"
      "set (pairInputs (drop ?k xs)) \<union> set (buildInputs (nextLevel (drop ?k xs)))
         = set (buildInputs (drop ?k xs))"
      by (rule nextLevel_lone, use take_drop_split_not_Nil [OF "1.prems"] in blast)+
    have head: "levels_root (nextLevel (take ?k xs)) = levels_root (take ?k xs)"
      "set (pairInputs (take ?k xs)) \<union> set (buildInputs (nextLevel (take ?k xs)))
         = set (buildInputs (take ?k xs))"
      by (rule nextLevel_lone, use take_drop_split_not_Nil [OF "1.prems"] in blast)+
    have "pairInputs xs = pairInputs (take ?k xs) @ pairInputs (drop ?k xs)"
      using pairInputs_append [of "take ?k xs" "drop ?k xs"] split(5,7) by simp
    then have "set (buildInputs xs) = set (pairInputs (take ?k xs)) \<union> set (pairInputs (drop ?k xs))
        \<union> set (buildInputs (nextLevel xs))"
      using buildInputs_step [OF "1.prems"] by auto
    moreover note "1.IH" [OF "1.prems" split(4), unfolded split(1-3)]
    ultimately show ?thesis
      using tail head by auto
  qed
qed

lemma hinputs_rfc_tree:
  "D \<noteq> [] \<Longrightarrow> set (hinputs (rfc_tree D)) = (#) 0x00 ` set D \<union> set (buildInputs (map HashLeaf D))"
proof (induction D rule: rfc_tree.induct)
  case (1 D)
  show ?case
  proof (cases rule: list_cases_length [of D])
    case 3
    let ?k = "split_point (length D)"
    let ?L = "take ?k D" and ?R = "drop ?k D"
    have "set D = set ?L \<union> set ?R"
      by (metis append_take_drop_id set_append)
    then have leaves: "(#) 0x00 ` set D = (#) 0x00 ` set ?L \<union> (#) 0x00 ` set ?R" by blast
    have ne: "?L \<noteq> []" "?R \<noteq> []" using take_drop_split_not_Nil [OF 3] by auto
    have ih: "set (hinputs (rfc_tree ?L)) = (#) 0x00 ` set ?L \<union> set (buildInputs (map HashLeaf ?L))"
      "set (hinputs (rfc_tree ?R)) = (#) 0x00 ` set ?R \<union> set (buildInputs (map HashLeaf ?R))"
      using "1.IH" 3 ne by simp_all
    have "set (buildInputs (map HashLeaf D)) =
        insert (0x01 # hroot (rfc_tree ?L) @ hroot (rfc_tree ?R))
          (set (buildInputs (map HashLeaf ?L)) \<union> set (buildInputs (map HashLeaf ?R)))"
      using buildInputs_split [of "map HashLeaf D"] 3
      by (simp add: take_map drop_map levels_root_rfc_tree [OF ne(1)] levels_root_rfc_tree [OF ne(2)])
    with leaves ih show ?thesis
      unfolding rfc_tree_split [OF 3] by auto
  qed (use "1.prems" in auto)
qed

section \<open>Soundness of verification\<close>

text \<open>The byte strings that are hashed while a proof is checked from a given starting hash.\<close>

fun verify_inputs :: "bytes \<Rightarrow> ProofNode list \<Rightarrow> bytes list" where
  "verify_inputs current [] = []"
| "verify_inputs current (node # rest) =
     (if Node_IsLeft node
      then (0x01 # Node_Hash node @ current) # verify_inputs (HashInterior (Node_Hash node) current) rest
      else (0x01 # current @ Node_Hash node) # verify_inputs (HashInterior current (Node_Hash node)) rest)"

lemma verify_inputs_append [simp]:
  "verify_inputs h (p @ q) = verify_inputs h p @ verify_inputs (verifyLoop h p) q"
  by (induction h p rule: verifyLoop.induct) auto

lemma length_verifyLoop: "length h = 32 \<Longrightarrow> length (verifyLoop h p) = 32"
  by (induction h p rule: verifyLoop.induct) auto

lemma hinputs_hd: "t = HLeaf d \<Longrightarrow> 0x00 # d \<in> set (hinputs t)"
  "t = HNode l r \<Longrightarrow> 0x01 # hroot l @ hroot r \<in> set (hinputs t)"
  by auto

lemma verify_inputs_not_Nil: "[] \<notin> set (verify_inputs h p)"
  by (induction h p rule: verifyLoop.induct) auto

text \<open>The root over no entries is the digest of the empty string, which no proof step hashes.\<close>

lemma verifyLoop_digest:
  "\<exists>x. verifyLoop (HashLeaf d) p = sha256 x \<and> x \<in> set ((0x00 # d) # verify_inputs (HashLeaf d) p)"
proof (cases p rule: rev_cases)
  case (snoc q node)
  then show ?thesis by (cases "Node_IsLeft node") (auto simp: HashInterior_def)
qed (auto simp: HashLeaf_def)

text \<open>
  A proof that leads from a leaf hash to the root of a tree names a leaf of that tree. The
  argument goes from the end of the proof towards its start and descends the tree: without a
  collision among the hashed strings, the last hashing step of the proof is the one at the
  root, so the domain-separation byte tells leaf from interior node and the digest length
  tells where the left child ends.
\<close>

lemma verifyLoop_member:
  assumes "verifyLoop (HashLeaf d) p = hroot t"
    and "inj_on sha256 (insert (0x00 # d) (set (verify_inputs (HashLeaf d) p) \<union> set (hinputs t)))"
  shows "d \<in> set (hleaves t)"
  using assms
proof (induction p arbitrary: t rule: rev_induct)
  case Nil
  then show ?case
    by (cases t) (simp_all add: HashLeaf_def HashInterior_def inj_on_eq_iff [OF Nil(2)])
next
  case (snoc node p)
  let ?h = "verifyLoop (HashLeaf d) p"
  define x where "x = (if Node_IsLeft node then 0x01 # Node_Hash node @ ?h else 0x01 # ?h @ Node_Hash node)"
  have h: "length ?h = 32" by (simp add: length_verifyLoop)
  have root: "sha256 x = hroot t"
    using snoc.prems(1) by (simp add: x_def HashInterior_def split: if_splits)
  have hashed: "x \<in> insert (0x00 # d) (set (verify_inputs (HashLeaf d) (p @ [node])) \<union> set (hinputs t))"
    by (simp add: x_def)
  show ?case
  proof (cases t)
    case (HLeaf e)
    with root have "sha256 x = sha256 (0x00 # e)" by (simp add: HashLeaf_def)
    then have "x = 0x00 # e"
      by (rule inj_onD [OF snoc.prems(2) _ hashed]) (simp add: HLeaf)
    then show ?thesis by (simp add: x_def split: if_splits)
  next
    case (HNode l r)
    with root have "sha256 x = sha256 (0x01 # hroot l @ hroot r)" by (simp add: HashInterior_def)
    then have "x = 0x01 # hroot l @ hroot r"
      by (rule inj_onD [OF snoc.prems(2) _ hashed]) (simp add: HNode)
    with h have "?h = hroot (if Node_IsLeft node then r else l)"
      by (cases "Node_IsLeft node") (simp_all add: x_def append_eq_append_conv)
    moreover have "inj_on sha256 (insert (0x00 # d) (set (verify_inputs (HashLeaf d) p)
        \<union> set (hinputs (if Node_IsLeft node then r else l))))"
      by (rule inj_on_subset [OF snoc.prems(2)]) (use HNode in auto)
    ultimately have "d \<in> set (hleaves (if Node_IsLeft node then r else l))"
      by (rule snoc.IH)
    with HNode show ?thesis by (auto split: if_splits)
  qed
qed

lemma hroot_digest: "\<exists>x \<in> set (hinputs t). x \<noteq> [] \<and> hroot t = sha256 x"
  by (cases t) (auto simp: HashLeaf_def HashInterior_def)

lemma root_of_empty:
  assumes "E \<noteq> []"
    and "inj_on sha256 (insert [] ((#) 0x00 ` set E \<union> set (buildInputs (map HashLeaf E))))"
  shows "levels_root (map HashLeaf E) \<noteq> sha256 []"
proof
  assume "levels_root (map HashLeaf E) = sha256 []"
  then have root: "hroot (rfc_tree E) = sha256 []" using assms(1) by (simp add: levels_root_rfc_tree)
  obtain x where x: "x \<in> set (hinputs (rfc_tree E))" "x \<noteq> []" "hroot (rfc_tree E) = sha256 x"
    using hroot_digest by blast
  have "sha256 x = sha256 []" using x(3) root by simp
  then have "x = []"
    by (rule inj_onD [OF assms(2)]) (use x(1) in \<open>simp_all add: hinputs_rfc_tree [OF assms(1)]\<close>)
  with x(2) show False by simp
qed

text \<open>A root determines the tree, up to a collision among the strings hashed for either.\<close>

lemma hroot_inject:
  assumes "hroot t = hroot u" and "inj_on sha256 (set (hinputs t) \<union> set (hinputs u))"
  shows "t = u"
  using assms
proof (induction t arbitrary: u)
  case (HLeaf d)
  then show ?case
    by (cases u) (simp_all add: HashLeaf_def HashInterior_def inj_on_eq_iff [OF HLeaf.prems(2)])
next
  case (HNode l r)
  show ?case
  proof (cases u)
    case (HLeaf e)
    with HNode.prems(1) show ?thesis
      by (simp add: HashLeaf_def HashInterior_def inj_on_eq_iff [OF HNode.prems(2)])
  next
    case (HNode l' r')
    with HNode.prems(1) have "hroot l @ hroot r = hroot l' @ hroot r'"
      by (simp add: HashInterior_def inj_on_eq_iff [OF HNode.prems(2)])
    then have roots: "hroot l = hroot l'" "hroot r = hroot r'" by simp_all
    have "inj_on sha256 (set (hinputs l) \<union> set (hinputs l'))"
      and "inj_on sha256 (set (hinputs r) \<union> set (hinputs r'))"
      by (rule inj_on_subset [OF HNode.prems(2)], use HNode in auto)+
    with HNode.IH roots HNode show ?thesis by simp
  qed
qed

section \<open>Sizes\<close>

lemma length_buildLevels_step:
  "length xs > 1 \<Longrightarrow> length (buildLevels xs) = Suc (length (buildLevels (nextLevel xs)))"
  by (simp add: buildLevels_step)

lemma buildLevels_height:
  "length xs > 1 \<Longrightarrow> \<exists>h. length (buildLevels xs) = h + 2 \<and> 2 ^ h < length xs"
proof (induction xs rule: buildLevels.induct)
  case (1 xs)
  show ?case
  proof (cases "length xs = 2")
    case True
    then obtain a b where "xs = [a, b]" by (auto simp: length_Suc_conv numeral_2_eq_2)
    then show ?thesis by (simp add: buildLevels_step)
  next
    case False
    with "1.prems" have "length (nextLevel xs) > 1" by auto
    then obtain h where h: "length (buildLevels (nextLevel xs)) = h + 2" "2 ^ h < length (nextLevel xs)"
      using "1.IH" "1.prems" by blast
    then have "2 ^ Suc h < length xs" using "1.prems" by simp
    moreover have "length (buildLevels xs) = Suc h + 2"
      using h(1) length_buildLevels_step [OF "1.prems"] by simp
    ultimately show ?thesis by blast
  qed
qed

lemma length_proofLoop: "length (proofLoop idx ls) \<le> length ls"
proof (induction ls arbitrary: idx)
  case (Cons level rest)
  from Cons.IH [of "idx div 2"] show ?case by (auto simp: Let_def)
qed simp

section \<open>Properties\<close>

text \<open>
  C1: \<open>BuildTree\<close> over the leaf hashes of a list of data entries returns a tree whose root
  is the Merkle tree hash of RFC 6962 over these entries, for every number of entries, the
  empty list included.
\<close>

theorem BuildTree_rfc6962:
  "\<exists>t. BuildTree (map HashLeaf D) = Inr t \<and> Root t = MTH D"
proof -
  obtain t where t: "BuildTree (map HashLeaf D) = Inr t" using BuildTree_total by blast
  have "Root t = MTH D"
    using BuildTree_root [OF t] MTH_rfc_tree [of D] levels_root_rfc_tree [of D]
    by (cases "D = []") (simp_all add: MTH.simps [of "[]"])
  with t show ?thesis by blast
qed

lemma generate_proof_verifies:
  assumes "BuildTree leafHashes = Inr t"
  shows "if 0 \<le> i \<and> i < int (length leafHashes)
         then \<exists>proof. GenerateProof t i = Inr proof \<and> VerifyProof (leafHashes ! nat i) proof (Root t)
         else GenerateProof t i = Inl ErrIndexOutOfRange"
proof (cases "leafHashes = []")
  case True
  with assms show ?thesis by (auto simp: BuildTree_def GenerateProof_def Let_def)
next
  case False
  with assms have t: "Tree_leaves t = leafHashes" "Tree_levels t = buildLevels leafHashes"
    "Root t = levels_root leafHashes"
    using BuildTree_Inr_sel by (auto simp: Root_def)
  show ?thesis
  proof (cases "0 \<le> i \<and> i < int (length leafHashes)")
    case True
    then have "nat i < length leafHashes" by linarith
    from verifyLoop_proofLoop [OF this] True t show ?thesis
      by (simp add: GenerateProof_def VerifyProof_iff)
  next
    case False
    with t show ?thesis by (auto simp: GenerateProof_def)
  qed
qed

text \<open>
  C17: For every index, \<open>GenerateProof\<close> on a built tree returns a proof that
  \<open>VerifyProof\<close> accepts for the leaf at that index and the tree's root, if the index is in
  range, and \<open>ErrIndexOutOfRange\<close> otherwise.
\<close>

theorem GenerateProof_complete:
  assumes "BuildTree leafHashes = Inr t"
  shows "if 0 \<le> i \<and> i < int (length leafHashes)
         then \<exists>proof. GenerateProof t i = Inr proof \<and> VerifyProof (leafHashes ! nat i) proof (Root t)
         else GenerateProof t i = Inl ErrIndexOutOfRange"
  using assms by (rule generate_proof_verifies)

theorem GenerateProof_complete_witness:
  "\<exists>t proof. BuildTree [[1], [2], [3]] = Inr t \<and> GenerateProof t 2 = Inr proof
     \<and> VerifyProof [3] proof (Root t)"
proof -
  obtain t where t: "BuildTree [[1], [2], [3]] = Inr t" using BuildTree_total by blast
  from GenerateProof_complete [OF t, of 2] t show ?thesis by auto
qed

lemma verify_proof_member:
  assumes "BuildTree (map HashLeaf D) = Inr t"
    and "VerifyProof (HashLeaf d) proof (Root t)"
    and "inj_on sha256 (insert (0x00 # d) (set (verify_inputs (HashLeaf d) proof))
           \<union> (#) 0x00 ` set D \<union> set (buildInputs (map HashLeaf D)))"
  shows "d \<in> set D"
proof (cases "D = []")
  case True
  with assms have root: "verifyLoop (HashLeaf d) proof = sha256 []"
    by (simp add: VerifyProof_iff BuildTree_root)
  obtain x where x: "verifyLoop (HashLeaf d) proof = sha256 x"
    "x \<in> set ((0x00 # d) # verify_inputs (HashLeaf d) proof)"
    using verifyLoop_digest by blast
  have "sha256 x = sha256 []" using x(1) root by simp
  then have "x = []"
    by (rule inj_onD [OF assms(3)]) (use x(2) in \<open>simp_all add: True buildInputs_def\<close>)
  with x(2) show ?thesis using verify_inputs_not_Nil by auto
next
  case False
  have "verifyLoop (HashLeaf d) proof = hroot (rfc_tree D)"
    using assms(1,2) False by (simp add: VerifyProof_iff BuildTree_root levels_root_rfc_tree)
  moreover have "inj_on sha256 (insert (0x00 # d)
      (set (verify_inputs (HashLeaf d) proof) \<union> set (hinputs (rfc_tree D))))"
    by (rule inj_on_subset [OF assms(3)]) (auto simp: hinputs_rfc_tree [OF False])
  ultimately have "d \<in> set (hleaves (rfc_tree D))" by (rule verifyLoop_member)
  then show ?thesis by (simp add: hleaves_rfc_tree [OF False])
qed

text \<open>
  C15: A proof for an entry that verifies against the root of a tree, whoever made the proof,
  shows that the entry is one of those the tree was built from, unless two different byte
  strings hashed in building that tree or in checking that proof have the same SHA-256 digest.
\<close>

theorem VerifyProof_sound:
  assumes "BuildTree (map HashLeaf D) = Inr t"
    and "VerifyProof (HashLeaf d) proof (Root t)"
    and "inj_on sha256 (insert (0x00 # d) (set (verify_inputs (HashLeaf d) proof))
           \<union> (#) 0x00 ` set D \<union> set (buildInputs (map HashLeaf D)))"
  shows "d \<in> set D"
  using assms by (rule verify_proof_member)

theorem VerifyProof_sound_witness:
  "\<exists>t. BuildTree (map HashLeaf [[7, 8]]) = Inr t \<and> VerifyProof (HashLeaf [7, 8]) [] (Root t)
     \<and> [7, 8] \<in> set [[7, 8] :: bytes]"
proof -
  obtain t where t: "BuildTree (map HashLeaf [[7, 8]]) = Inr t" using BuildTree_total by blast
  have v: "VerifyProof (HashLeaf [7, 8]) [] (Root t)"
    using BuildTree_root [OF t] by (simp add: VerifyProof_iff)
  from VerifyProof_sound [OF t v] t v show ?thesis by simp
qed

lemma root_determines_entries:
  assumes "BuildTree (map HashLeaf D) = Inr t" and "BuildTree (map HashLeaf E) = Inr u"
    and "Root t = Root u"
    and "inj_on sha256 ((#) 0x00 ` set (D @ E)
           \<union> set (buildInputs (map HashLeaf D)) \<union> set (buildInputs (map HashLeaf E)))"
  shows "D = E"
proof (cases "D = [] \<or> E = []")
  case True
  have inj: "inj_on sha256 (insert [] ((#) 0x00 ` set F \<union> set (buildInputs (map HashLeaf F))))"
    if "F = D \<or> F = E" for F
    by (rule inj_on_subset [OF assms(4)]) (use True that in \<open>auto simp: buildInputs_def\<close>)
  have root: "(if D = [] then sha256 [] else levels_root (map HashLeaf D)) =
      (if E = [] then sha256 [] else levels_root (map HashLeaf E))"
    using assms(3) BuildTree_root [OF assms(1)] BuildTree_root [OF assms(2)] by simp
  then show ?thesis
    using True root_of_empty [OF _ inj, of D] root_of_empty [OF _ inj, of E]
    by (cases "D = []"; cases "E = []") auto
next
  case False
  then have ne: "D \<noteq> []" "E \<noteq> []" by auto
  have "hroot (rfc_tree D) = hroot (rfc_tree E)"
    using assms(1-3) ne by (simp add: BuildTree_root levels_root_rfc_tree)
  moreover have "inj_on sha256 (set (hinputs (rfc_tree D)) \<union> set (hinputs (rfc_tree E)))"
    by (rule inj_on_subset [OF assms(4)]) (auto simp: hinputs_rfc_tree ne)
  ultimately have "rfc_tree D = rfc_tree E" by (rule hroot_inject)
  then show ?thesis using ne by (metis hleaves_rfc_tree)
qed

text \<open>
  C18: Two lists of data entries whose trees have the same root are equal, in content, order
  and number, unless two different byte strings hashed in building the two trees collide.
\<close>

theorem Root_binds_entries:
  assumes "BuildTree (map HashLeaf D) = Inr t" and "BuildTree (map HashLeaf E) = Inr u"
    and "Root t = Root u"
    and "inj_on sha256 ((#) 0x00 ` set (D @ E)
           \<union> set (buildInputs (map HashLeaf D)) \<union> set (buildInputs (map HashLeaf E)))"
  shows "D = E"
  using assms by (rule root_determines_entries)

theorem Root_binds_entries_witness:
  "\<exists>t u. BuildTree (map HashLeaf [[1]]) = Inr t \<and> BuildTree (map HashLeaf [[1]]) = Inr u
     \<and> Root t = Root u \<and> [[1]] = [[1 :: byte]]"
proof -
  obtain t where t: "BuildTree (map HashLeaf [[1]]) = Inr t" using BuildTree_total by blast
  from Root_binds_entries [OF t t refl] t show ?thesis by simp
qed

text \<open>
  An authentication path over \<open>n\<close> leaves is at most the base-two logarithm of
  \<open>n\<close>, rounded up, nodes long.
\<close>

theorem GenerateProof_length:
  assumes "BuildTree leafHashes = Inr t" and "GenerateProof t i = Inr proof"
  shows "2 ^ length proof < 2 * length leafHashes"
proof -
  have i: "0 \<le> i" "i < int (length (Tree_leaves t))" 
    and p: "proof = proofLoop (nat i) (butlast (Tree_levels t))"
    using assms(2) by (auto simp: GenerateProof_def split: if_splits)
  have "leafHashes \<noteq> []" using assms(1) i by (auto simp: BuildTree_def Let_def)
  then have t: "Tree_levels t = buildLevels leafHashes" using BuildTree_Inr_sel assms(1) by blast
  show ?thesis
  proof (cases rule: list_cases_length [of leafHashes])
    case 3
    then obtain h where h: "length (buildLevels leafHashes) = h + 2" "2 ^ h < length leafHashes"
      using buildLevels_height by blast
    have "length proof \<le> h + 1"
      using length_proofLoop [of "nat i" "butlast (buildLevels leafHashes)"] h(1) p t by simp
    then have "2 ^ length proof \<le> (2 :: nat) ^ (h + 1)" by (rule power_increasing) simp
    with h(2) show ?thesis by simp
  qed (use p t \<open>leafHashes \<noteq> []\<close> in auto)
qed

theorem GenerateProof_length_witness:
  "\<exists>t proof. BuildTree [[1], [2], [3], [4], [5]] = Inr t \<and> GenerateProof t 4 = Inr proof
     \<and> 2 ^ length proof < (10 :: nat)"
proof -
  obtain t where t: "BuildTree [[1], [2], [3], [4], [5]] = Inr t" using BuildTree_total by blast
  then obtain path where "GenerateProof t 4 = Inr path"
    using BuildTree_Inr_sel [OF t] by (auto simp: GenerateProof_def)
  with GenerateProof_length [OF t this] t show ?thesis by auto
qed

section \<open>How long the loop runs\<close>

lemma half_ceiling:
  fixes n m :: nat
  assumes "0 < m" shows "((n + 1) div 2 + m - 1) div m = (n + 2 * m - 1) div (2 * m)"
proof -
  have "(n + 1) div 2 + m - 1 = (n + 2 * m - 1) div 2" using assms by presburger
  then show ?thesis by (simp add: div_mult2_eq)
qed

lemma level_length:
  "i < length (buildLevels xs) \<Longrightarrow> length (buildLevels xs ! i) = (length xs + 2 ^ i - 1) div 2 ^ i"
proof (induction xs arbitrary: i rule: buildLevels.induct)
  case (1 xs)
  show ?case
  proof (cases "length xs > 1")
    case True
    note step = buildLevels_step [OF True]
    show ?thesis
    proof (cases i)
      case (Suc j)
      with 1 step True have "length (buildLevels xs ! i) = ((length xs + 1) div 2 + 2 ^ j - 1) div 2 ^ j" by simp
      then show ?thesis using Suc half_ceiling [of "2 ^ j" "length xs"] by simp
    qed (simp add: step)
  next
    case False
    with 1(2) show ?thesis by (cases xs) (auto simp: buildLevels.simps [of xs])
  qed
qed

lemma buildLevels_last: "xs \<noteq> [] \<Longrightarrow> \<exists>root. last (buildLevels xs) = [root]"
proof (induction xs rule: buildLevels.induct)
  case (1 xs)
  show ?case
  proof (cases "length xs > 1")
    case True
    then have "nextLevel xs \<noteq> []" by (cases xs rule: nextLevel.cases) auto
    with 1 True show ?thesis by (simp add: buildLevels_step [OF True])
  next
    case False
    with 1(2) show ?thesis by (cases xs) auto
  qed
qed

text \<open>
  C37: The loop of \<open>BuildTree\<close> ends, after as many rounds as the base-two logarithm of the number of leaves,
  rounded up: every level has half the nodes of the one below, rounded up, and the last level
  is the root alone.
\<close>

theorem BuildTree_terminates:
  assumes "leafHashes \<noteq> []"
  shows "\<exists>t k. BuildTree leafHashes = Inr t \<and> length (Tree_levels t) = k + 1
    \<and> length leafHashes \<le> 2 ^ k \<and> 2 ^ k < 2 * length leafHashes \<and> last (Tree_levels t) = [Root t]
    \<and> (\<forall>i. i \<le> k \<longrightarrow> length (Tree_levels t ! i) = (length leafHashes + 2 ^ i - 1) div 2 ^ i)"
proof -
  obtain t where t: "BuildTree leafHashes = Inr t" using BuildTree_total by blast
  have levels: "Tree_levels t = buildLevels leafHashes" "Root t = last (buildLevels leafHashes) ! 0"
    using t assms by (auto simp: BuildTree_def Root_def Let_def)
  obtain k where k: "length (buildLevels leafHashes) = k + 1" by (cases "buildLevels leafHashes") auto
  obtain root where root: "last (buildLevels leafHashes) = [root]" using buildLevels_last [OF assms] by blast
  have len: "length (buildLevels leafHashes ! i) = (length leafHashes + 2 ^ i - 1) div 2 ^ i" if "i \<le> k" for i
    using level_length [of i leafHashes] that k by simp
  have "buildLevels leafHashes ! k = [root]" using k root by (simp add: last_conv_nth)
  then have one: "(length leafHashes + 2 ^ k - 1) div 2 ^ k = 1" using len [of k] by simp
  have up: "length leafHashes \<le> 2 ^ k"
  proof (rule ccontr)
    assume "\<not> length leafHashes \<le> 2 ^ k"
    then have "2 * 2 ^ k \<le> length leafHashes + 2 ^ k - 1" by simp
    then have "2 \<le> (length leafHashes + 2 ^ k - 1) div 2 ^ k" by (simp add: less_eq_div_iff_mult_less_eq)
    with one show False by simp
  qed
  have "2 ^ k < 2 * length leafHashes"
  proof (cases "length leafHashes > 1")
    case True
    with buildLevels_height [OF True] k show ?thesis by auto
  next
    case False
    with assms k show ?thesis by (cases leafHashes) auto
  qed
  with t levels k root len up show ?thesis by auto
qed

theorem BuildTree_terminates_witness:
  "\<exists>t. BuildTree [[1], [2], [3], [4], [5]] = Inr t \<and> map length (Tree_levels t) = [5, 3, 2, 1]"
proof -
  obtain t k where t: "BuildTree [[1], [2], [3], [4], [5]] = Inr t" "length (Tree_levels t) = k + 1" "5 \<le> (2 :: nat) ^ k" "(2 :: nat) ^ k < 10"
      "\<forall>i. i \<le> k \<longrightarrow> length (Tree_levels t ! i) = (5 + 2 ^ i - 1) div 2 ^ i"
    using BuildTree_terminates [of "[[1], [2], [3], [4], [5]]"] by (auto simp: eval_nat_numeral)
  have "\<not> k \<le> 2" "\<not> 4 \<le> k"
    using t(3,4) power_increasing [of k 2 "2 :: nat"] power_increasing [of 4 k "2 :: nat"] by auto
  then have k: "k = 3" by simp
  have "map length (Tree_levels t) = map (\<lambda>i. length (Tree_levels t ! i)) [0..<4]"
    using t(2) k by (intro nth_equalityI) simp_all
  also have "[0..<4] = [0, 1, 2, 3 :: nat]" by (simp add: upt_rec)
  also have "map (\<lambda>i. length (Tree_levels t ! i)) [0, 1, 2, 3] = [5, 3, 2, 1]"
    using t(5) [rule_format, of 0] t(5) [rule_format, of 1] t(5) [rule_format, of 2] t(5) [rule_format, of 3] k by simp
  finally show ?thesis using t(1) by (intro exI [of _ t] conjI)
qed

end
