(* ===== verification/Canonical.thy ===== *)
theory Canonical
  imports Json MerkleTree "HOL-Library.Multiset"
begin

text \<open>
  The canonical payload of a record (\<open>RecordCanonicalPayload\<close> in
  \<open>internal/merkle/tree.go\<close>), its JSON text and its leaf hash.

  The lemmas show that the text determines the payload: quoting is injective on valid UTF-8,
  a compacted raw message delimits itself, and so two payloads with the same canonical text
  agree in every field, raw messages up to insignificant space and escaping. The leaf hash
  therefore binds every field of a record, up to a collision of SHA-256 on the two texts.
\<close>

section \<open>Model\<close>

record RecordCanonicalPayload =
  P_ID :: string
  P_BatchID :: string
  P_TableName :: string
  P_PrimaryKey :: string
  P_EventType :: string
  P_BeforeImage :: string
  P_AfterImage :: string
  P_ActorUserID :: "string option"
  P_ActorType :: string
  P_TransactionID :: string
  P_SchemaVersion :: string
  P_CommittedAt :: string
  P_MerkleLeafIndex :: int

text \<open>
  A raw message is its text; the empty text stands for a nil message, which \<open>omitempty\<close>
  leaves out and a required field writes as \<open>null\<close>.
\<close>

definition json_key :: "string \<Rightarrow> string" where
  "json_key k = [DQ] @ k @ [DQ] @ '':''"

definition raw_field :: "string \<Rightarrow> string \<Rightarrow> string result" where
  "raw_field k raw =
     (if raw = [] then Inr []
      else result_bind (compact raw) (\<lambda>t. Inr ('','' @ json_key k @ t)))"

definition opt_field :: "string \<Rightarrow> string option \<Rightarrow> string" where
  "opt_field k v = (case v of None \<Rightarrow> [] | Some s \<Rightarrow> '','' @ json_key k @ quote s)"

definition marshal_payload :: "RecordCanonicalPayload \<Rightarrow> string result" where
  "marshal_payload p =
     result_bind (marshal_raw (P_PrimaryKey p)) (\<lambda>pk.
     result_bind (raw_field ''before_image'' (P_BeforeImage p)) (\<lambda>before.
     result_bind (raw_field ''after_image'' (P_AfterImage p)) (\<lambda>after.
       Inr (''{'' @ json_key ''id'' @ quote (P_ID p)
            @ '','' @ json_key ''batch_id'' @ quote (P_BatchID p)
            @ '','' @ json_key ''table_name'' @ quote (P_TableName p)
            @ '','' @ json_key ''primary_key'' @ pk
            @ '','' @ json_key ''event_type'' @ quote (P_EventType p)
            @ before @ after
            @ opt_field ''actor_user_id'' (P_ActorUserID p)
            @ '','' @ json_key ''actor_type'' @ quote (P_ActorType p)
            @ '','' @ json_key ''transaction_id'' @ quote (P_TransactionID p)
            @ '','' @ json_key ''schema_version'' @ quote (P_SchemaVersion p)
            @ '','' @ json_key ''committed_at'' @ quote (P_CommittedAt p)
            @ '','' @ json_key ''merkle_leaf_index'' @ show_int (P_MerkleLeafIndex p) @ ''}''))))"

text \<open>The timestamp is normalised to UTC if it parses and left alone otherwise.\<close>

definition normalize_payload :: "RecordCanonicalPayload \<Rightarrow> RecordCanonicalPayload" where
  "normalize_payload p =
     (case parse_RFC3339Nano (P_CommittedAt p) of
        Some t \<Rightarrow> p\<lparr>P_CommittedAt := format_RFC3339Nano t\<rparr>
      | None \<Rightarrow> p)"

definition canonical_bytes :: "RecordCanonicalPayload \<Rightarrow> bytes result" where
  "canonical_bytes p = result_bind (marshal_payload (normalize_payload p)) (\<lambda>t. Inr (bytes_of t))"

definition ComputeRecordLeafHash :: "RecordCanonicalPayload \<Rightarrow> bytes result" where
  "ComputeRecordLeafHash p =
     result_bind (wrap_err ''failed to marshal canonical payload'' (canonical_bytes p))
       (\<lambda>data. Inr (HashLeaf data))"

text \<open>
  \<open>CanonicalJSON\<close> copies a map in key order before marshalling it and marshals any other
  value as it is.
\<close>

definition CanonicalJSON :: "gval \<Rightarrow> string result" where
  "CanonicalJSON v =
     (case v of
        GMap kvs \<Rightarrow>
          (let keys = sort (map fst kvs);
               ordered = map (\<lambda>k. (k, the (map_of kvs k))) keys
           in marshal (GMap ordered))
      | _ \<Rightarrow> marshal v)"

section \<open>Quoting is injective on valid UTF-8\<close>

function valid_utf8 :: "string \<Rightarrow> bool" where
  "valid_utf8 s =
     (if s = [] then True
      else if utf8_size s = 0 then False else valid_utf8 (drop (utf8_size s) s))"
  by pat_completeness auto
termination
proof (relation "measure length")
  fix s :: string
  assume "s \<noteq> []" "utf8_size s \<noteq> 0"
  then show "(drop (utf8_size s) s, s) \<in> measure length" by (cases s) simp_all
qed simp

declare valid_utf8.simps [simp del]

lemma valid_utf8_Nil [simp]: "valid_utf8 []"
  by (simp add: valid_utf8.simps [of "[]"])

text \<open>One character of a valid string, as its bytes, and the text it is quoted as.\<close>

definition unit_text :: "string \<Rightarrow> string" where
  "unit_text u =
     (if length u = 1 then escape_ascii (hd u)
      else if line_separator u then sep_escape u else u)"

definition is_unit :: "string \<Rightarrow> bool" where
  "is_unit u \<longleftrightarrow> u \<noteq> [] \<and> utf8_size u = length u"

lemma utf8_size_le: "utf8_size s \<le> length s"
  by (cases s rule: utf8_size.cases) auto

lemma utf8_size_append: "utf8_size s \<noteq> 0 \<Longrightarrow> utf8_size (s @ x) = utf8_size s"
  by (cases s rule: utf8_size.cases; cases x rule: utf8_size.cases) (auto split: if_splits)

lemma utf8_size_take: "utf8_size s \<noteq> 0 \<Longrightarrow> utf8_size (take (utf8_size s) s) = utf8_size s"
  by (cases s rule: utf8_size.cases) (auto split: if_splits)

lemma is_unit_take: "utf8_size s \<noteq> 0 \<Longrightarrow> is_unit (take (utf8_size s) s)"
  using utf8_size_take [of s] utf8_size_le [of s] by (auto simp: is_unit_def)

lemma utf8_size_1: "utf8_size (c # s) = 1 \<longleftrightarrow> code c < 0x80"
  by (cases "c # s" rule: utf8_size.cases) auto

lemma seq_sep: "code a = 0xE2 \<Longrightarrow> code b = 0x80 \<Longrightarrow> code c = 0xA8 \<or> code c = 0xA9 \<Longrightarrow>
    \<not> code a < 0x80 \<and> \<not> seq2 a b \<and> seq3 a b c"
  by (auto simp: seq2_def seq3_def is_cont_def)

lemma utf8_size_sep: "line_separator s \<Longrightarrow> utf8_size s = 3"
  using seq_sep by (cases s rule: utf8_size.cases) auto

lemma line_separator_take:
  assumes "utf8_size s \<noteq> 0"
  shows "line_separator (take (utf8_size s) s) \<longleftrightarrow> line_separator s"
proof (cases "line_separator s")
  case True
  from utf8_size_sep [OF True] True show ?thesis by (cases s rule: line_separator.cases) auto
next
  case False
  have "line_separator (u @ x)" if "line_separator u" for u x
    using that by (cases u rule: line_separator.cases) auto
  from this [of "take (utf8_size s) s" "drop (utf8_size s) s"] False show ?thesis by auto
qed

lemma quote_body_unit:
  assumes "utf8_size s \<noteq> 0"
  shows "quote_body s = unit_text (take (utf8_size s) s) @ quote_body (drop (utf8_size s) s)"
proof (cases s)
  case (Cons c cs)
  show ?thesis
  proof (cases "code c < 0x80")
    case True
    then have "utf8_size (c # cs) = 1" using utf8_size_1 by blast
    with True Cons show ?thesis by (simp add: quote_body_Cons unit_text_def)
  next
    case False
    then have one: "utf8_size s \<noteq> 1" using utf8_size_1 Cons by blast
    have len: "length (take (utf8_size s) s) = utf8_size s" using utf8_size_le by simp
    have "sep_escape (take 3 s) = sep_escape s" by (simp add: sep_escape_def)
    then show ?thesis
      using False one len line_separator_take [OF assms] assms utf8_size_sep [of s]
        quote_body_Cons [of c cs]
      unfolding Cons [symmetric] unit_text_def by (cases "line_separator s") simp_all
  qed
qed (use assms in simp)

text \<open>Reading one quoted character back.\<close>

definition unhex :: "char \<Rightarrow> char \<Rightarrow> char" where
  "unhex h l = char_of (16 * the (hex_val h) + the (hex_val l))"

fun next_unit :: "string \<Rightarrow> string \<times> string" where
  "next_unit s =
     (if hd s \<noteq> BSL then (take (utf8_size s) s, drop (utf8_size s) s)
      else if s ! 1 = CHR ''u'' then
        (if s ! 2 = CHR ''0'' then [unhex (s ! 4) (s ! 5)]
         else [char_of (0xE2 :: nat), char_of (0x80 :: nat), char_of (0xA0 + the (hex_val (s ! 5)))],
         drop 6 s)
      else if s ! 1 = CHR ''b'' then ([char_of (0x08 :: nat)], drop 2 s)
      else if s ! 1 = CHR ''f'' then ([char_of (0x0C :: nat)], drop 2 s)
      else if s ! 1 = CHR ''n'' then ([char_of (0x0A :: nat)], drop 2 s)
      else if s ! 1 = CHR ''r'' then ([char_of (0x0D :: nat)], drop 2 s)
      else if s ! 1 = CHR ''t'' then ([char_of (0x09 :: nat)], drop 2 s)
      else ([s ! 1], drop 2 s))"

declare next_unit.simps [simp del]

lemma char_of_code: "code c = n \<Longrightarrow> char_of n = c"
  by auto

lemma next_unit_ascii:
  assumes "code c < 0x80"
  shows "next_unit (escape_ascii c @ x) = ([c], x)"
proof -
  have hex: "unhex (hex_char (code c div 16)) (hex_char (code c mod 16)) = c"
    using assms by (simp add: unhex_def hex_val_char)
  have one: "utf8_size (c # x) = 1" using utf8_size_1 assms by blast
  show ?thesis
    using one
    by (auto simp: escape_ascii_def next_unit.simps hex_escape_def hex char_of_code nth_Cons')
qed

lemma next_unit_text:
  assumes "is_unit u"
  shows "next_unit (unit_text u @ x) = (u, x)"
proof -
  obtain c cs where u: "u = c # cs" using assms by (auto simp: is_unit_def neq_Nil_conv)
  have size: "utf8_size u = length u" using assms by (simp add: is_unit_def)
  show ?thesis
  proof (cases "cs = []")
    case True
    then have "code c < 0x80" using size u utf8_size_1 [of c "[]"] by simp
    with u True next_unit_ascii [of c x] show ?thesis by (simp add: unit_text_def)
  next
    case False
    then have c: "\<not> code c < 0x80" using size u utf8_size_1 [of c cs] by auto
    show ?thesis
    proof (cases "line_separator u")
      case True
      then have "length u = 3" using utf8_size_sep size by simp
      with u True obtain b d where d: "u = [c, b, d]" "code c = 0xE2" "code b = 0x80" "code d = 0xA8 \<or> code d = 0xA9"
        by (auto simp: length_Suc_conv numeral_3_eq_3)
      then have "the (hex_val (hex_char (code d mod 16))) = code d mod 16"
        by (simp add: hex_val_char)
      with d False show ?thesis
        by (auto simp: unit_text_def next_unit.simps sep_escape_def char_of_code nth_Cons')
    next
      case False
      have "hd (u @ x) \<noteq> BSL" using c u by auto
      moreover have "utf8_size (u @ x) = length u" using utf8_size_append [of u x] size u by simp
      ultimately show ?thesis
        using \<open>cs \<noteq> []\<close> False u by (auto simp: unit_text_def next_unit.simps)
    qed
  qed
qed

lemma unit_text_hd:
  assumes "is_unit u"
  shows "\<exists>c t. unit_text u = c # t \<and> c \<noteq> DQ"
proof -
  obtain c cs where u: "u = c # cs" using assms by (auto simp: is_unit_def neq_Nil_conv)
  have size: "utf8_size u = length u" using assms by (simp add: is_unit_def)
  show ?thesis
  proof (cases "cs = []")
    case True
    with u show ?thesis
      by (simp add: unit_text_def) (auto simp: escape_ascii_def hex_escape_def)
  next
    case False
    then have "\<not> code c < 0x80" using size u utf8_size_1 [of c cs] by auto
    then have "c \<noteq> DQ" by auto
    with u False show ?thesis by (auto simp: unit_text_def sep_escape_def)
  qed
qed

lemma quote_body_inject:
  assumes "valid_utf8 s" "valid_utf8 t" "quote_body s @ DQ # x = quote_body t @ DQ # y"
  shows "s = t \<and> x = y"
  using assms
proof (induction s arbitrary: t rule: valid_utf8.induct)
  case (1 s)
  have step: "utf8_size w \<noteq> 0 \<and> valid_utf8 (drop (utf8_size w) w)" if "w \<noteq> []" "valid_utf8 w" for w
    using that valid_utf8.simps [of w] by (simp split: if_splits)
  have hd: "\<exists>c r. quote_body w = c # r \<and> c \<noteq> DQ" if "w \<noteq> []" "valid_utf8 w" for w
    using step [OF that] quote_body_unit [of w] unit_text_hd [OF is_unit_take, of w] by auto
  show ?case
  proof (cases "s = [] \<or> t = []")
    case True
    then show ?thesis using "1.prems" hd [of s] hd [of t] by (cases "s = []"; cases "t = []") auto
  next
    case False
    let ?s = "drop (utf8_size s) s" and ?t = "drop (utf8_size t) t"
    have s: "utf8_size s \<noteq> 0" "valid_utf8 ?s" and t: "utf8_size t \<noteq> 0" "valid_utf8 ?t"
      using False "1.prems" step by blast+
    have "next_unit (quote_body s @ DQ # x) = (take (utf8_size s) s, quote_body ?s @ DQ # x)"
      "next_unit (quote_body t @ DQ # y) = (take (utf8_size t) t, quote_body ?t @ DQ # y)"
      using quote_body_unit s(1) t(1) next_unit_text is_unit_take by simp_all
    with "1.prems"(3) have eq: "take (utf8_size s) s = take (utf8_size t) t"
      "quote_body ?s @ DQ # x = quote_body ?t @ DQ # y" by simp_all
    then have "?s = ?t \<and> x = y" using "1.IH" False s t by blast
    with eq(1) show ?thesis by (metis append_take_drop_id)
  qed
qed

lemma quote_inject:
  "valid_utf8 s \<Longrightarrow> valid_utf8 t \<Longrightarrow> quote s @ x = quote t @ y \<longleftrightarrow> s = t \<and> x = y"
  using quote_body_inject [of s t x y] by (auto simp: quote_def)

section \<open>Compacted messages delimit themselves\<close>

fun run :: "scanner \<Rightarrow> string \<Rightarrow> scanner option" where
  "run s [] = Some s"
| "run s (c # cs) = (case step s c of None \<Rightarrow> None | Some (_, s') \<Rightarrow> run s' cs)"

lemma run_append: "run s (a @ b) = Option.bind (run s a) (\<lambda>s'. run s' b)"
  by (induction s a rule: run.induct) (auto split: option.splits)

text \<open>
  A space may move the scanner from a number to the end of its value. \<open>sim s t\<close> relates the
  scanner on the message, \<open>s\<close>, with the one on the compacted text, \<open>t\<close>.
\<close>

definition value_end :: "jstate \<Rightarrow> bool" where
  "value_end st \<longleftrightarrow> st \<in> {EndValue, EndTop, Num0, Num1, Dot0, Exp0}"

fun wf_scan :: "scanner \<Rightarrow> bool" where
  "wf_scan (EndTop, ps) \<longleftrightarrow> ps = []"
| "wf_scan (Lit ds, ps) \<longleftrightarrow> set ds \<subseteq> set ''truefalsn''"
| "wf_scan (st, ps) \<longleftrightarrow> True"

fun sim :: "scanner \<Rightarrow> scanner \<Rightarrow> bool" where
  "sim (st, ps) (st', ps') \<longleftrightarrow> wf_scan (st, ps) \<and> wf_scan (st', ps') \<and> ps = ps' \<and>
     (st = st' \<or> (st \<in> {EndValue, EndTop} \<and> value_end st'))"

lemma step_end_value_wf: "step_end_value ps c = Some (f, s') \<Longrightarrow> wf_scan s'"
  by (cases ps) (auto split: if_splits pstate.splits)

lemma step_wf: "step s c = Some (f, s') \<Longrightarrow> wf_scan s \<Longrightarrow> wf_scan s'"
proof (cases "(s, c)" rule: step.cases)
qed (auto simp: step_begin_value_def step_begin_string_def push_state_def step_exp_def
    dest: step_end_value_wf split: if_splits nat.splits)

lemma step_end_value_space:
  "step_end_value ps c = Some (True, (st, qs)) \<Longrightarrow> is_space c \<and> qs = ps \<and> st \<in> {EndValue, EndTop}"
  by (cases ps) (auto split: if_splits pstate.splits)

lemma step_space:
  "step (st, ps) c = Some (True, (st', ps')) \<Longrightarrow> wf_scan (st, ps) \<Longrightarrow>
     is_space c \<and> ps' = ps \<and> (st' = st \<or> (st' \<in> {EndValue, EndTop} \<and> value_end st))"
proof (cases "((st, ps), c)" rule: step.cases)
qed (auto simp: step_begin_value_def step_begin_string_def push_state_def step_exp_def value_end_def
    dest: step_end_value_space split: if_splits nat.splits)

lemma sim_step_space:
  assumes "sim s t" "step s c = Some (True, s')"
  shows "sim s' t"
proof -
  obtain st ps st' ps' tt qs where e: "s = (st, ps)" "s' = (st', ps')" "t = (tt, qs)"
    by (cases s; cases s'; cases t)
  with assms step_space [of st ps c st' ps'] step_wf [OF assms(2)] show ?thesis
    by (auto simp: value_end_def)
qed

lemma step_end_value_chars:
  "step_end_value ps c = Some (False, s') \<Longrightarrow> c \<in> {CHR '':'', CHR '','', CHR ''}'', CHR '']''}"
  by (cases ps) (auto split: if_splits pstate.splits)

lemma step_value_end:
  assumes "value_end st" "c \<in> {CHR '':'', CHR '','', CHR ''}'', CHR '']''}" "st \<noteq> EndTop"
  shows "step (st, ps) c = step_end_value ps c"
  using assms by (auto simp: value_end_def step_exp_def is_digit_def)

lemma sim_step:
  assumes "sim s t" "step s c = Some (False, s')"
  shows "step t c = Some (False, s')"
proof -
  obtain st ps tt where e: "s = (st, ps)" "t = (tt, ps)"
    using assms(1) by (cases s; cases t) auto
  show ?thesis
  proof (cases "st = tt")
    case False
    then have st: "st \<in> {EndValue, EndTop}" "value_end tt" using assms(1) e by auto
    have "st = EndValue" using st(1) assms(2) e by (auto split: if_splits)
    with assms(2) e have step: "step_end_value ps c = Some (False, s')" by simp
    then have "ps \<noteq> []" by (auto split: if_splits)
    then have "tt \<noteq> EndTop" using assms(1) e by auto
    with step_value_end [OF st(2) step_end_value_chars [OF step]] step e show ?thesis by simp
  qed (use assms e in simp)
qed

lemma sim_eof:
  assumes "sim s t" "at_eof s"
  shows "at_eof t"
proof -
  obtain st ps tt where e: "s = (st, ps)" "t = (tt, ps)"
    using assms(1) by (cases s; cases t) auto
  show ?thesis
  proof (cases "st = tt")
    case False
    then have st: "st \<in> {EndValue, EndTop}" "value_end tt" using assms(1) e by auto
    then have "ps = []"
      using assms e by (cases ps) (auto simp: at_eof_def is_space_def split: if_splits)
    with st(2) e show ?thesis
      by (auto simp: value_end_def at_eof_def step_exp_def is_digit_def is_space_def)
  qed (use assms e in simp)
qed

lemma step_special:
  assumes "step (st, ps) c = Some (f, s')" "html_special c \<or> code c = 0xE2" "wf_scan (st, ps)"
  shows "st = InString \<and> s' = (InString, ps)"
proof -
  have nonspace: "\<not> is_space c" "\<not> is_digit c" "c \<noteq> DQ" "c \<noteq> BSL" "hex_val c = None"
    and chars: "c \<notin> set '':,}]{[-0tfneE.+bfnrtu/ruealsl''"
    using assms(2) by (auto simp: html_special_def is_space_def is_digit_def hex_val_def Let_def)
  have ends: "step_end_value ps c = None" for ps
    using nonspace chars by (cases ps) (auto split: pstate.splits)
  show ?thesis
    using assms(1,3) nonspace chars
    by (cases "((st, ps), c)" rule: step.cases)
      (auto simp: ends step_begin_value_def step_begin_string_def step_exp_def split: if_splits)
qed

lemma run_hex_escape: "run (InString, ps) (hex_escape c @ out) = run (InString, ps) out"
proof -
  have "code c div 16 < 16"
    using nat_of_char_less_256 [of c] by (intro less_mult_imp_div_less) simp
  then show ?thesis
    using hex_val_char [of "code c div 16"] hex_val_char [of "code c mod 16"]
    by (simp add: hex_escape_def hex_val_def [of "CHR ''0''"] numeral_3_eq_3)
qed

lemma run_sep_escape: "run (InString, ps) (sep_escape cs @ out) = run (InString, ps) out"
  using hex_val_char [of "code (cs ! 2) mod 16"]
  by (simp add: sep_escape_def hex_val_def [of "CHR ''0''"] hex_val_def [of "CHR ''2''"] numeral_3_eq_3)

lemma compact_from_Nil: "compact_from s [] = (if at_eof s then Inr [] else Inl scan_error)"
  by (simp add: compact_from.simps [of s "[]"])

lemma compact_from_Cons:
  "compact_from s (c # rest) =
     (case step s c of
        None \<Rightarrow> Inl scan_error
      | Some (space, s') \<Rightarrow>
          if space then compact_from s' rest
          else if html_special c then
            result_bind (compact_from s' rest) (\<lambda>out. Inr (hex_escape c @ out))
          else if line_separator (c # rest) \<and> fst s = InString then
            result_bind (compact_from s (drop 3 (c # rest))) (\<lambda>out. Inr (sep_escape (c # rest) @ out))
          else result_bind (compact_from s' rest) (\<lambda>out. Inr (c # out)))"
  by (simp add: compact_from.simps [of s "c # rest"])

lemmas compact_eval = compact_from_Nil compact_from_Cons step_begin_value_def step_begin_string_def
  step_exp_def push_state_def max_nesting_def is_space_def is_digit_def html_special_def at_eof_def

lemma compact_from_ConsE:
  assumes "compact_from s (c # rest) = Inr out"
  obtains (space) s' where "step s c = Some (True, s')" "compact_from s' rest = Inr out"
  | (html) s' out' where "step s c = Some (False, s')" "html_special c"
      "compact_from s' rest = Inr out'" "out = hex_escape c @ out'"
  | (sep) out' where "line_separator (c # rest)" "fst s = InString"
      "compact_from s (drop 3 (c # rest)) = Inr out'" "out = sep_escape (c # rest) @ out'"
  | (copy) s' out' where "step s c = Some (False, s')" "compact_from s' rest = Inr out'" "out = c # out'"
  using assms compact_from.simps [of s "c # rest"]
  by (auto split: option.splits if_splits prod.splits)

lemma sim_InString: "sim (InString, ps) t \<Longrightarrow> t = (InString, ps)"
  by (cases t) auto

lemma sim_wf: "sim s t \<Longrightarrow> wf_scan s"
  by (cases s; cases t) auto

lemma sim_refl: "wf_scan s \<Longrightarrow> sim s s"
  by (cases s) auto

lemma compact_run:
  "compact_from s cs = Inr out \<Longrightarrow> sim s t \<Longrightarrow> \<exists>t'. run t out = Some t' \<and> at_eof t'"
proof (induction "length cs" arbitrary: cs s t out rule: less_induct)
  case less
  show ?case
  proof (cases cs)
    case Nil
    with less.prems have "at_eof s" "out = []" by (auto simp: compact_from_Nil split: if_splits)
    with less.prems(2) sim_eof show ?thesis by auto
  next
    case (Cons c rest)
    from less.prems(1) [unfolded Cons] show ?thesis
    proof (cases rule: compact_from_ConsE)
      case (space s')
      with less.hyps [of rest s' out t] sim_step_space [OF less.prems(2)] Cons show ?thesis by simp
    next
      case (html s' out')
      obtain st ps where s: "s = (st, ps)" by (cases s)
      with step_special [of st ps c False s'] html sim_wf [OF less.prems(2)]
      have e: "s = (InString, ps)" "s' = (InString, ps)" by auto
      then have t: "t = (InString, ps)" using less.prems(2) sim_InString by blast
      from less.hyps [of rest s' out' t] html(3) Cons e t show ?thesis
        by (simp add: html(4) run_hex_escape)
    next
      case (sep out')
      then obtain ps where s: "s = (InString, ps)" by (cases s) auto
      then have t: "t = (InString, ps)" using less.prems(2) sim_InString by blast
      from less.hyps [of "drop 3 (c # rest)" s out' t] sep(3) Cons s t show ?thesis
        by (simp add: sep(4) run_sep_escape)
    next
      case (copy s' out')
      have "step t c = Some (False, s')" using sim_step less.prems(2) copy(1) by blast
      moreover have "sim s' s'" using step_wf [OF copy(1)] sim_wf [OF less.prems(2)] sim_refl by blast
      ultimately show ?thesis using less.hyps [of rest s' out' s'] copy(2,3) Cons by simp
    qed
  qed
qed

lemma end_top_comma:
  "step_end_value ps (CHR '' '') = Some (a, EndTop, b) \<Longrightarrow> step_end_value ps (CHR '','') = None"
  by (cases ps) (auto simp: is_space_def split: if_splits pstate.splits)

lemma at_eof_comma: "wf_scan s \<Longrightarrow> at_eof s \<Longrightarrow> step s (CHR '','') = None"
  by (cases "(s, CHR '','')" rule: step.cases)
    (auto simp: at_eof_def is_space_def is_digit_def step_exp_def step_begin_value_def
      step_begin_string_def push_state_def dest: end_top_comma
      split: if_splits option.splits nat.splits pstate.splits)

lemma run_wf: "run s cs = Some s' \<Longrightarrow> wf_scan s \<Longrightarrow> wf_scan s'"
  by (induction s cs rule: run.induct) (auto split: option.splits dest: step_wf)

definition self_delimiting :: "string \<Rightarrow> bool" where
  "self_delimiting a \<longleftrightarrow> (\<exists>s. run (BeginValue, []) a = Some s \<and> at_eof s)"

lemma self_delimiting_compact: "compact raw = Inr a \<Longrightarrow> self_delimiting a"
  unfolding compact_def self_delimiting_def by (rule compact_run) (auto intro: sim_refl)

lemma self_delimiting_null: "self_delimiting ''null''"
  by (simp add: self_delimiting_def step_begin_value_def is_space_def at_eof_def)

lemma self_delimiting_marshal_raw: "marshal_raw raw = Inr a \<Longrightarrow> self_delimiting a"
  by (auto simp: marshal_raw_def self_delimiting_null self_delimiting_compact split: if_splits)

lemma self_delimiting_prefix:
  assumes "self_delimiting a" "self_delimiting b" "a @ '','' @ x = b @ '','' @ y" "length a \<le> length b"
  shows "a = b"
proof (rule ccontr)
  assume "a \<noteq> b"
  from assms(3,4) obtain us where us: "b = a @ us" "'','' @ x = us @ '','' @ y"
    by (auto simp: append_eq_append_conv2 append_eq_Cons_conv Cons_eq_append_conv)
  with \<open>a \<noteq> b\<close> obtain vs where "b = a @ CHR '','' # vs" by (cases us) auto
  moreover obtain s where s: "run (BeginValue, []) a = Some s" "at_eof s"
    using assms(1) by (auto simp: self_delimiting_def)
  moreover have "step s (CHR '','') = None"
    using at_eof_comma run_wf [OF s(1)] s(2) by simp
  ultimately show False using assms(2) by (auto simp: self_delimiting_def run_append)
qed

lemma self_delimiting_inject:
  assumes "self_delimiting a" "self_delimiting b"
  shows "a @ CHR '','' # x = b @ CHR '','' # y \<longleftrightarrow> a = b \<and> x = y"
  using self_delimiting_prefix [of a b x y] self_delimiting_prefix [of b a y x] assms
  by (metis append_Cons append_Nil list.inject nat_le_linear same_append_eq)

section \<open>The canonical text determines the payload\<close>

lemma valid_utf8_Cons [simp]: "code c < 0x80 \<Longrightarrow> valid_utf8 (c # s) \<longleftrightarrow> valid_utf8 s"
  using utf8_size_1 [of c s] by (simp add: valid_utf8.simps [of "c # s"])

lemma valid_utf8_ascii: "(\<And>c. c \<in> set s \<Longrightarrow> code c < 0x80) \<Longrightarrow> valid_utf8 s"
  by (induction s) simp_all

lemma is_digit_ascii: "is_digit c \<Longrightarrow> code c < 0x80"
  by (simp add: is_digit_def)

lemma date_text_ascii: "c \<in> set (date_text t) \<Longrightarrow> code c < 0x80"
  by (auto simp: date_text_def pad_int_def Let_def dest!: pad_digits is_digit_ascii
      split: prod.splits if_splits)

lemma frac_text_ascii: "c \<in> set (frac_text n) \<Longrightarrow> code c < 0x80"
  by (auto simp: frac_text_def dest!: set_dropWhileD pad_digits is_digit_ascii split: if_splits)

lemma valid_utf8_format [simp]: "valid_utf8 (format_RFC3339Nano t)"
  by (rule valid_utf8_ascii)
    (auto simp: format_RFC3339Nano_def dest: date_text_ascii frac_text_ascii)

definition payload_utf8 :: "RecordCanonicalPayload \<Rightarrow> bool" where
  "payload_utf8 p \<longleftrightarrow>
     list_all valid_utf8 [P_ID p, P_BatchID p, P_TableName p, P_EventType p, P_ActorType p,
       P_TransactionID p, P_SchemaVersion p, P_CommittedAt p]
     \<and> (case P_ActorUserID p of None \<Rightarrow> True | Some u \<Rightarrow> valid_utf8 u)"

lemma payload_utf8_normalize: "payload_utf8 p \<Longrightarrow> payload_utf8 (normalize_payload p)"
  by (auto simp: payload_utf8_def normalize_payload_def split: option.splits)

text \<open>
  Payloads that agree in every field, where raw messages are compared by their compacted
  text, an optional one is present in both or in neither, and a nil primary key is \<open>null\<close>.
\<close>

definition same_raw :: "string \<Rightarrow> string \<Rightarrow> bool" where
  "same_raw r r' \<longleftrightarrow> (r = [] \<longleftrightarrow> r' = []) \<and> compact r = compact r'"

definition same_payload :: "RecordCanonicalPayload \<Rightarrow> RecordCanonicalPayload \<Rightarrow> bool" where
  "same_payload p q \<longleftrightarrow>
     P_ID p = P_ID q \<and> P_BatchID p = P_BatchID q \<and> P_TableName p = P_TableName q
     \<and> marshal_raw (P_PrimaryKey p) = marshal_raw (P_PrimaryKey q)
     \<and> P_EventType p = P_EventType q
     \<and> same_raw (P_BeforeImage p) (P_BeforeImage q) \<and> same_raw (P_AfterImage p) (P_AfterImage q)
     \<and> P_ActorUserID p = P_ActorUserID q \<and> P_ActorType p = P_ActorType q
     \<and> P_TransactionID p = P_TransactionID q \<and> P_SchemaVersion p = P_SchemaVersion q
     \<and> P_CommittedAt p = P_CommittedAt q \<and> P_MerkleLeafIndex p = P_MerkleLeafIndex q"

text \<open>What follows an optional field: another field, with a different key.\<close>

definition other_field :: "string \<Rightarrow> string \<Rightarrow> bool" where
  "other_field k x \<longleftrightarrow> (\<exists>z. x = '','' @ z) \<and> (\<forall>z. x \<noteq> '','' @ json_key k @ z)"

lemma raw_field_inject:
  assumes "raw_field k r = Inr a" "raw_field k r' = Inr b" "a @ x = b @ y"
    "other_field k x" "other_field k y"
  shows "same_raw r r' \<and> x = y"
proof (cases "r = [] \<or> r' = []")
  case True
  with assms show ?thesis
    by (auto simp: raw_field_def other_field_def same_raw_def split: if_splits)
next
  case False
  with assms obtain t t' where t: "compact r = Inr t" "compact r' = Inr t'" "t @ x = t' @ y"
    by (auto simp: raw_field_def)
  moreover obtain u v where "x = CHR '','' # u" "y = CHR '','' # v"
    using assms(4,5) by (auto simp: other_field_def)
  ultimately have "t = t' \<and> x = y"
    using self_delimiting_inject [of t t' u v] self_delimiting_compact by auto
  with False t show ?thesis by (simp add: same_raw_def)
qed

lemma opt_field_inject:
  assumes "opt_field k v @ x = opt_field k v' @ y" "other_field k x" "other_field k y"
    "\<And>u. v = Some u \<Longrightarrow> valid_utf8 u" "\<And>u. v' = Some u \<Longrightarrow> valid_utf8 u"
  shows "v = v' \<and> x = y"
proof (cases v; cases v')
  fix u u' assume v: "v = Some u" "v' = Some u'"
  with assms(1) have "quote u @ x = quote u' @ y" by (simp add: opt_field_def)
  with quote_inject [of u u' x y] assms(4,5) v show ?thesis by simp
qed (use assms in \<open>auto simp: opt_field_def other_field_def\<close>)

text \<open>The end of the text, from the actor type on.\<close>

definition payload_tail :: "RecordCanonicalPayload \<Rightarrow> string" where
  "payload_tail p = '','' @ json_key ''actor_type'' @ quote (P_ActorType p)
     @ '','' @ json_key ''transaction_id'' @ quote (P_TransactionID p)
     @ '','' @ json_key ''schema_version'' @ quote (P_SchemaVersion p)
     @ '','' @ json_key ''committed_at'' @ quote (P_CommittedAt p)
     @ '','' @ json_key ''merkle_leaf_index'' @ show_int (P_MerkleLeafIndex p) @ ''}''"

lemma other_field_tail:
  "other_field ''actor_user_id'' (payload_tail p)"
  "other_field ''after_image'' (opt_field ''actor_user_id'' v @ payload_tail p)"
  "raw_field ''after_image'' r = Inr a \<Longrightarrow>
     other_field ''before_image'' (a @ opt_field ''actor_user_id'' v @ payload_tail p)"
  by (auto simp: other_field_def payload_tail_def opt_field_def raw_field_def json_key_def
      split: option.splits if_splits)

lemma payload_tail_inject:
  assumes "payload_tail p = payload_tail q" "payload_utf8 p" "payload_utf8 q"
  shows "P_ActorType p = P_ActorType q \<and> P_TransactionID p = P_TransactionID q
    \<and> P_SchemaVersion p = P_SchemaVersion q \<and> P_CommittedAt p = P_CommittedAt q
    \<and> P_MerkleLeafIndex p = P_MerkleLeafIndex q"
  using assms by (simp add: payload_tail_def payload_utf8_def quote_inject)

definition payload_text :: "RecordCanonicalPayload \<Rightarrow> string \<Rightarrow> string \<Rightarrow> string \<Rightarrow> string" where
  "payload_text p pk before after = ''{'' @ json_key ''id'' @ quote (P_ID p)
     @ '','' @ json_key ''batch_id'' @ quote (P_BatchID p)
     @ '','' @ json_key ''table_name'' @ quote (P_TableName p)
     @ '','' @ json_key ''primary_key'' @ pk
     @ '','' @ json_key ''event_type'' @ quote (P_EventType p)
     @ before @ after @ opt_field ''actor_user_id'' (P_ActorUserID p) @ payload_tail p"

lemma marshal_payloadE:
  assumes "marshal_payload p = Inr t"
  obtains pk before after where "marshal_raw (P_PrimaryKey p) = Inr pk"
    "raw_field ''before_image'' (P_BeforeImage p) = Inr before"
    "raw_field ''after_image'' (P_AfterImage p) = Inr after" "t = payload_text p pk before after"
  using assms unfolding marshal_payload_def payload_text_def payload_tail_def
  by (simp only: result_bind_Inr sum.inject) blast

lemma marshal_payload_inject:
  assumes "marshal_payload p = Inr t" "marshal_payload q = Inr t" "payload_utf8 p" "payload_utf8 q"
  shows "same_payload p q"
proof -
  obtain pk before after where p: "marshal_raw (P_PrimaryKey p) = Inr pk"
      "raw_field ''before_image'' (P_BeforeImage p) = Inr before"
      "raw_field ''after_image'' (P_AfterImage p) = Inr after" "t = payload_text p pk before after"
    using assms(1) by (rule marshal_payloadE)
  obtain pk' before' after' where q: "marshal_raw (P_PrimaryKey q) = Inr pk'"
      "raw_field ''before_image'' (P_BeforeImage q) = Inr before'"
      "raw_field ''after_image'' (P_AfterImage q) = Inr after'" "t = payload_text q pk' before' after'"
    using assms(2) by (rule marshal_payloadE)
  let ?et = "\<lambda>p x. '','' @ json_key ''event_type'' @ quote (P_EventType p) @ x"
  let ?a = "\<lambda>p. opt_field ''actor_user_id'' (P_ActorUserID p) @ payload_tail p"
  have head: "P_ID p = P_ID q \<and> P_BatchID p = P_BatchID q \<and> P_TableName p = P_TableName q
      \<and> pk @ ?et p (before @ after @ ?a p) = pk' @ ?et q (before' @ after' @ ?a q)"
    using p(4) q(4) assms(3,4) by (simp add: payload_text_def payload_utf8_def quote_inject)
  then have "pk = pk' \<and> ?et p (before @ after @ ?a p) = ?et q (before' @ after' @ ?a q)"
    using self_delimiting_inject [OF self_delimiting_marshal_raw self_delimiting_marshal_raw, OF p(1) q(1)]
    by simp
  then have key: "pk = pk'" "P_EventType p = P_EventType q"
      "before @ after @ ?a p = before' @ after' @ ?a q"
    using assms(3,4) by (auto simp: payload_utf8_def quote_inject)
  have b: "same_raw (P_BeforeImage p) (P_BeforeImage q)" "after @ ?a p = after' @ ?a q"
    using raw_field_inject [OF p(2) q(2) key(3)] other_field_tail(3) p(3) q(3) by blast+
  have a: "same_raw (P_AfterImage p) (P_AfterImage q)" "?a p = ?a q"
    using raw_field_inject [OF p(3) q(3) b(2)] other_field_tail(2) by blast+
  have "P_ActorUserID p = P_ActorUserID q \<and> payload_tail p = payload_tail q"
    using assms(3,4) by (intro opt_field_inject [OF a(2)] other_field_tail(1)) (auto simp: payload_utf8_def)
  moreover have "marshal_raw (P_PrimaryKey p) = marshal_raw (P_PrimaryKey q)"
    using p(1) q(1) key(1) by simp
  ultimately show ?thesis
    unfolding same_payload_def using head key(2) b(1) a(1) payload_tail_inject assms(3,4) by blast
qed

lemma leaf_hash_binds:
  assumes "ComputeRecordLeafHash p = Inr h" "ComputeRecordLeafHash q = Inr h"
    "payload_utf8 p" "payload_utf8 q"
  shows "same_payload (normalize_payload p) (normalize_payload q)
    \<or> (\<exists>a b. canonical_bytes p = Inr a \<and> canonical_bytes q = Inr b \<and> a \<noteq> b
          \<and> sha256 (0 # a) = sha256 (0 # b))"
proof -
  obtain a b where h: "marshal_payload (normalize_payload p) = Inr a"
      "marshal_payload (normalize_payload q) = Inr b" "HashLeaf (bytes_of a) = HashLeaf (bytes_of b)"
    using assms(1,2) by (auto simp: ComputeRecordLeafHash_def canonical_bytes_def)
  show ?thesis
  proof (cases "a = b")
    case True
    with marshal_payload_inject h payload_utf8_normalize assms(3,4) show ?thesis by blast
  next
    case False
    with h show ?thesis by (auto simp: canonical_bytes_def HashLeaf_def)
  qed
qed

text \<open>
  C16: The leaf hash binds the record: two payloads of valid UTF-8 with the same leaf hash agree
  in every field of the normalised payload (raw JSON up to insignificant space and escaping),
  or their two canonical texts, each prefixed with the leaf tag, are a collision of SHA-256.
\<close>

theorem ComputeRecordLeafHash_binds:
  assumes "ComputeRecordLeafHash p = Inr h" "ComputeRecordLeafHash q = Inr h"
    "payload_utf8 p" "payload_utf8 q"
  shows "same_payload (normalize_payload p) (normalize_payload q)
    \<or> (\<exists>a b. canonical_bytes p = Inr a \<and> canonical_bytes q = Inr b \<and> a \<noteq> b
          \<and> sha256 (0 # a) = sha256 (0 # b))"
  using assms by (rule leaf_hash_binds)

text \<open>A payload, and the same payload with a space inside its primary key.\<close>

definition sample_key :: string where
  "sample_key = ''{'' @ json_key ''id'' @ ''7}''"

definition spaced_key :: string where
  "spaced_key = ''{'' @ json_key ''id'' @ '' 7 }''"

definition sample_payload :: RecordCanonicalPayload where
  "sample_payload = \<lparr>P_ID = ''r1'', P_BatchID = ''b1'', P_TableName = ''accounts'',
     P_PrimaryKey = sample_key, P_EventType = ''DELETE'',
     P_BeforeImage = sample_key, P_AfterImage = [],
     P_ActorUserID = Some ''alice'', P_ActorType = ''USER'', P_TransactionID = ''tx1'',
     P_SchemaVersion = ''v1'', P_CommittedAt = format_RFC3339Nano 0, P_MerkleLeafIndex = 0\<rparr>"

definition spaced_payload :: RecordCanonicalPayload where
  "spaced_payload = sample_payload\<lparr>P_PrimaryKey := spaced_key\<rparr>"

lemma sample_raw:
  "compact sample_key = Inr sample_key" "sample_key \<noteq> []"
  "compact spaced_key = Inr sample_key" "spaced_key \<noteq> []"
  by (simp_all add: sample_key_def spaced_key_def compact_def json_key_def compact_eval)

lemma normalize_format: "year_ok t \<Longrightarrow> P_CommittedAt p = format_RFC3339Nano t \<Longrightarrow> normalize_payload p = p"
  by (simp add: normalize_payload_def parse_format_RFC3339Nano)

lemma sample_canonical:
  "\<not> isl (canonical_bytes sample_payload)" "canonical_bytes sample_payload = canonical_bytes spaced_payload"
proof -
  have year: "year_ok 0" by (simp add: year_ok_def civil_from_days_def era_split_def Let_def)
  have n: "normalize_payload sample_payload = sample_payload" "normalize_payload spaced_payload = spaced_payload"
    by (rule normalize_format [OF year], simp add: sample_payload_def spaced_payload_def)+
  show "\<not> isl (canonical_bytes sample_payload)" "canonical_bytes sample_payload = canonical_bytes spaced_payload"
    unfolding canonical_bytes_def n
    by (simp_all add: marshal_payload_def marshal_raw_def raw_field_def sample_raw
        spaced_payload_def sample_payload_def)
qed

lemma sample_utf8: "payload_utf8 sample_payload" "payload_utf8 spaced_payload"
  by (simp_all add: payload_utf8_def sample_payload_def spaced_payload_def)

theorem ComputeRecordLeafHash_binds_witness:
  "\<exists>h. ComputeRecordLeafHash sample_payload = Inr h \<and> ComputeRecordLeafHash spaced_payload = Inr h
     \<and> (same_payload (normalize_payload sample_payload) (normalize_payload spaced_payload)
        \<or> (\<exists>a b. canonical_bytes sample_payload = Inr a \<and> canonical_bytes spaced_payload = Inr b
              \<and> a \<noteq> b \<and> sha256 (0 # a) = sha256 (0 # b)))"
proof -
  obtain a where "canonical_bytes sample_payload = Inr a"
    using sample_canonical(1) by (cases "canonical_bytes sample_payload") auto
  then have h: "ComputeRecordLeafHash sample_payload = Inr (HashLeaf a)"
    "ComputeRecordLeafHash spaced_payload = Inr (HashLeaf a)"
    using sample_canonical(2) by (simp_all add: ComputeRecordLeafHash_def)
  from ComputeRecordLeafHash_binds [OF h sample_utf8] h show ?thesis by blast
qed

section \<open>Maps are marshalled in key order\<close>

lemma marshal_map_perm:
  assumes "mset kvs = mset kvs'" "distinct (map fst kvs)"
  shows "marshal (GMap kvs) = marshal (GMap kvs')"
proof -
  let ?m = "\<lambda>(k, v). (k, marshal v)"
  have "inj_on fst (set (map ?m kvs))"
    using assms(2) by (auto simp: distinct_map inj_on_def) (metis fst_conv snd_conv)
  moreover have "mset (map ?m kvs) = mset (map ?m kvs')"
    using assms(1) by simp
  ultimately have "sort_key fst (map ?m kvs) = sort_key fst (map ?m kvs')"
    by (intro sort_key_inj_key_eq) simp_all
  then show ?thesis by (simp add: marshal_entries_map)
qed

text \<open>
  \<open>CanonicalJSON\<close> of a map does not depend on the order in which Go ranges over it: for
  any two visiting orders of the same entries the text is the same, and it is the text of
  \<open>json.Marshal\<close>, which already writes keys in byte order.
\<close>

theorem CanonicalJSON_order_independent:
  assumes "mset kvs = mset kvs'" "distinct (map fst kvs)"
  shows "CanonicalJSON (GMap kvs) = CanonicalJSON (GMap kvs') \<and> CanonicalJSON (GMap kvs) = marshal (GMap kvs)"
proof -
  have *: "CanonicalJSON (GMap xs) = marshal (GMap xs)" if "distinct (map fst xs)" for xs
  proof -
    have keep: "map (\<lambda>k. (k, the (map_of xs k))) (map fst xs) = xs"
      using that by (auto intro!: map_idI simp: comp_def)
    have "mset (map (\<lambda>k. (k, the (map_of xs k))) (sort (map fst xs))) = mset xs"
      unfolding mset_map mset_sort using arg_cong [OF keep, of mset]
      by (simp add: multiset.map_comp)
    then show ?thesis
      unfolding CanonicalJSON_def gval.case Let_def using that by (intro marshal_map_perm) (simp_all add: comp_def)
  qed
  moreover have "distinct (map fst kvs')"
    using assms by (metis mset_eq_imp_distinct_iff mset_map)
  ultimately show ?thesis using assms marshal_map_perm by metis
qed

theorem CanonicalJSON_order_independent_witness:
  "CanonicalJSON (GMap [(''b'', GInt KInt 1), (''a'', GNil)])
     = CanonicalJSON (GMap [(''a'', GNil), (''b'', GInt KInt 1)])
   \<and> CanonicalJSON (GMap [(''b'', GInt KInt 1), (''a'', GNil)])
     = marshal (GMap [(''b'', GInt KInt 1), (''a'', GNil)])"
  by (rule CanonicalJSON_order_independent) simp_all

end
