(* ===== verification/Decode.thy ===== *)
theory Decode
  imports Canonical
begin

text \<open>
  The decoder of \<open>encoding/json\<close> as the program uses it: \<open>Unmarshal\<close> first checks the whole
  text with the scanner and then reads it into the target.

  \<open>parse_val\<close> reads a text the scanner has accepted into a \<open>jval\<close>; its
  recursion is bounded by fuel, and the lemmas show that the fuel it gets is enough. The functions
  below it read a \<open>jval\<close> into the Go types the program decodes to.
\<close>

section \<open>Strings\<close>

definition utf8_encode :: "nat \<Rightarrow> string" where
  "utf8_encode c = map char_of
     (if c < 0x80 then [c]
      else if c < 0x800 then [0xC0 + c div 0x40, 0x80 + c mod 0x40]
      else if c < 0x10000 then [0xE0 + c div 0x1000, 0x80 + c div 0x40 mod 0x40, 0x80 + c mod 0x40]
      else [0xF0 + c div 0x40000, 0x80 + c div 0x1000 mod 0x40, 0x80 + c div 0x40 mod 0x40, 0x80 + c mod 0x40])"

definition replacement :: nat where
  "replacement = 0xFFFD"

text \<open>\<open>getu4\<close>: the code unit of an escape \<open>\uXXXX\<close> at the head of the text.\<close>

fun getu4 :: "string \<Rightarrow> nat option" where
  "getu4 (b # u # h3 # h2 # h1 # h0 # _) =
     (if b \<noteq> BSL \<or> u \<noteq> CHR ''u'' then None
      else case (hex_val h3, hex_val h2, hex_val h1, hex_val h0) of
        (Some a, Some b, Some c, Some d) \<Rightarrow> Some (4096 * a + 256 * b + 16 * c + d)
      | _ \<Rightarrow> None)"
| "getu4 _ = None"

definition is_surrogate :: "nat \<Rightarrow> bool" where
  "is_surrogate r \<longleftrightarrow> 0xD800 \<le> r \<and> r < 0xE000"

definition decode_pair :: "nat \<Rightarrow> nat option \<Rightarrow> nat option" where
  "decode_pair r r' = (case r' of None \<Rightarrow> None
     | Some q \<Rightarrow> if 0xD800 \<le> r \<and> r < 0xDC00 \<and> 0xDC00 \<le> q \<and> q < 0xE000
                 then Some ((r - 0xD800) * 0x400 + (q - 0xDC00) + 0x10000) else None)"

text \<open>One character of a quoted text: what it stands for and how many bytes it takes.\<close>

fun unquote_step :: "string \<Rightarrow> (string \<times> nat) option" where
  "unquote_step [] = None"
| "unquote_step (c # cs) =
     (if c = BSL then
        (case cs of
           [] \<Rightarrow> None
         | e # _ \<Rightarrow>
             if e = DQ \<or> e = BSL \<or> e = CHR ''/'' then Some ([e], 2)
             else if e = CHR ''b'' then Some ([char_of (0x08 :: nat)], 2)
             else if e = CHR ''f'' then Some ([char_of (0x0C :: nat)], 2)
             else if e = CHR ''n'' then Some ([char_of (0x0A :: nat)], 2)
             else if e = CHR ''r'' then Some ([char_of (0x0D :: nat)], 2)
             else if e = CHR ''t'' then Some ([char_of (0x09 :: nat)], 2)
             else (case getu4 (c # cs) of
                     None \<Rightarrow> None
                   | Some r \<Rightarrow>
                       if is_surrogate r then
                         (case decode_pair r (getu4 (drop 6 (c # cs))) of
                            Some d \<Rightarrow> Some (utf8_encode d, 12)
                          | None \<Rightarrow> Some (utf8_encode replacement, 6))
                       else Some (utf8_encode r, 6)))
      else if code c < 0x80 then Some ([c], 1)
      else if utf8_size (c # cs) = 0 then Some (utf8_encode replacement, 1)
      else Some (take (utf8_size (c # cs)) (c # cs), utf8_size (c # cs)))"

lemma unquote_step_pos: "unquote_step s = Some (u, n) \<Longrightarrow> 0 < n \<and> s \<noteq> []"
  by (cases s) (auto split: if_splits list.splits option.splits)

text \<open>The body of a string up to its closing quote, with what follows the quote.\<close>

function parse_str :: "string \<Rightarrow> (string \<times> string) option" where
  "parse_str s =
     (if s = [] then None
      else if hd s = DQ then Some ([], tl s)
      else case unquote_step s of
        None \<Rightarrow> None
      | Some (u, n) \<Rightarrow> (case parse_str (drop n s) of None \<Rightarrow> None | Some (t, rest) \<Rightarrow> Some (u @ t, rest)))"
  by pat_completeness auto
termination
  by (relation "measure length") (auto dest!: unquote_step_pos intro: diff_less)

declare parse_str.simps [simp del]

section \<open>Values\<close>

datatype jval =
    JNull
  | JBool bool
  | JNum string
  | JStr string
  | JArr "jval list"
  | JObj "(string \<times> jval) list"

definition skip_ws :: "string \<Rightarrow> string" where
  "skip_ws = dropWhile is_space"

definition num_char :: "char \<Rightarrow> bool" where
  "num_char c \<longleftrightarrow> is_digit c \<or> c \<in> set ''+-.eE''"

fun parse_val :: "nat \<Rightarrow> string \<Rightarrow> (jval \<times> string) option"
  and parse_elems :: "nat \<Rightarrow> string \<Rightarrow> (jval list \<times> string) option"
  and parse_members :: "nat \<Rightarrow> string \<Rightarrow> ((string \<times> jval) list \<times> string) option" where
  "parse_val 0 s = None"
| "parse_val (Suc n) s =
     (case skip_ws s of
        [] \<Rightarrow> None
      | c # cs \<Rightarrow>
          if c = CHR ''{'' then
            (if take 1 (skip_ws cs) = ''}'' then Some (JObj [], tl (skip_ws cs))
             else map_option (\<lambda>(kvs, r). (JObj kvs, r)) (parse_members n cs))
          else if c = CHR ''['' then
            (if take 1 (skip_ws cs) = '']'' then Some (JArr [], tl (skip_ws cs))
             else map_option (\<lambda>(vs, r). (JArr vs, r)) (parse_elems n cs))
          else if c = DQ then map_option (\<lambda>(t, r). (JStr t, r)) (parse_str cs)
          else if c = CHR ''t'' then Some (JBool True, drop 3 cs)
          else if c = CHR ''f'' then Some (JBool False, drop 4 cs)
          else if c = CHR ''n'' then Some (JNull, drop 3 cs)
          else Some (JNum (takeWhile num_char (c # cs)), dropWhile num_char (c # cs)))"
| "parse_elems 0 s = None"
| "parse_elems (Suc n) s =
     Option.bind (parse_val n s) (\<lambda>(v, r).
       if take 1 (skip_ws r) = '','' then
         map_option (\<lambda>(vs, r'). (v # vs, r')) (parse_elems n (tl (skip_ws r)))
       else Some ([v], tl (skip_ws r)))"
| "parse_members 0 s = None"
| "parse_members (Suc n) s =
     Option.bind (parse_str (tl (skip_ws s))) (\<lambda>(k, r).
     Option.bind (parse_val n (tl (skip_ws r))) (\<lambda>(v, r).
       if take 1 (skip_ws r) = '','' then
         map_option (\<lambda>(kvs, r'). ((k, v) # kvs, r')) (parse_members n (tl (skip_ws r)))
       else Some ([(k, v)], tl (skip_ws r))))"

text \<open>The scanner first, then the parser with fuel for two calls per character.\<close>

definition json_parse :: "string \<Rightarrow> jval option" where
  "json_parse s =
     (if isl (compact s) then None else map_option fst (parse_val (2 * length s + 2) s))"

definition syntax_error :: go_error where
  "syntax_error = NewErr ''invalid character in JSON text''"

section \<open>Targets\<close>

definition the_default :: "'a \<Rightarrow> 'a option \<Rightarrow> 'a" where
  "the_default d v = (case v of None \<Rightarrow> d | Some x \<Rightarrow> x)"

text \<open>
  A \<open>[]string\<close> target. A syntax error and a value that is no array leave the slice nil; an
  element that is no string becomes the empty string. The callers ignore the error.
\<close>

fun jval_string :: "jval \<Rightarrow> string" where
  "jval_string (JStr s) = s"
| "jval_string _ = []"

definition unmarshal_strings :: "string \<Rightarrow> string list" where
  "unmarshal_strings s = (case json_parse s of Some (JArr vs) \<Rightarrow> map jval_string vs | _ \<Rightarrow> [])"

text \<open>
  \<open>foldName\<close> on the names at hand: ASCII letters without regard to case, and the two other
  characters Unicode folds to an ASCII letter, U+212A and U+017F.
\<close>

definition fold_ascii :: "char \<Rightarrow> char" where
  "fold_ascii c = (if 65 \<le> code c \<and> code c \<le> 90 then char_of (code c + 32) else c)"

fun fold_name :: "string \<Rightarrow> string" where
  "fold_name (a # b # c # cs) =
     (if code a = 0xE2 \<and> code b = 0x84 \<and> code c = 0xAA then CHR ''k'' # fold_name cs
      else if code a = 0xC5 \<and> code b = 0xBF then CHR ''s'' # fold_name (c # cs)
      else fold_ascii a # fold_name (b # c # cs))"
| "fold_name [a, b] =
     (if code a = 0xC5 \<and> code b = 0xBF then ''s'' else [fold_ascii a, fold_ascii b])"
| "fold_name [a] = [fold_ascii a]"
| "fold_name [] = []"

text \<open>The field a key selects: the one of that name, or the first that matches up to case.\<close>

definition field_of :: "string list \<Rightarrow> string \<Rightarrow> string option" where
  "field_of names k =
     (if k \<in> set names then Some k else find (\<lambda>f. fold_name f = fold_name k) names)"

text \<open>
  An object target with string fields (\<open>strs\<close>) and fields that are maps from strings to strings
  (\<open>maps\<close>). Keys are taken in order, so the last of several wins; null leaves a field alone;
  a value of another type is an error, reported after the rest was read.
\<close>

record fields =
  F_strs :: "(string, string) gomap"
  F_maps :: "(string, (string, string) gomap) gomap"
  F_bad :: bool

fun string_entries :: "(string \<times> jval) list \<Rightarrow> (string, string) gomap \<times> bool \<Rightarrow> (string, string) gomap \<times> bool" where
  "string_entries [] acc = acc"
| "string_entries ((k, JStr s) # kvs) (m, bad) = string_entries kvs (AList.update k s m, bad)"
| "string_entries ((k, JNull) # kvs) (m, bad) = string_entries kvs (AList.update k [] m, bad)"
| "string_entries ((k, v) # kvs) (m, bad) = string_entries kvs (AList.update k [] m, True)"

definition store_field :: "string list \<Rightarrow> string list \<Rightarrow> string \<times> jval \<Rightarrow> fields \<Rightarrow> fields" where
  "store_field strs maps kv f =
     (case field_of (strs @ maps) (fst kv) of
        None \<Rightarrow> f
      | Some n \<Rightarrow>
          (case snd kv of
             JNull \<Rightarrow> (if n \<in> set strs then f else f\<lparr>F_maps := AList.update n [] (F_maps f)\<rparr>)
           | JStr s \<Rightarrow>
               (if n \<in> set strs then f\<lparr>F_strs := AList.update n s (F_strs f)\<rparr> else f\<lparr>F_bad := True\<rparr>)
           | JObj kvs \<Rightarrow>
               (if n \<in> set strs then f\<lparr>F_bad := True\<rparr>
                else (case string_entries kvs (the_default [] (map_of (F_maps f) n), False) of
                        (m, bad) \<Rightarrow> f\<lparr>F_maps := AList.update n m (F_maps f), F_bad := F_bad f \<or> bad\<rparr>))
           | _ \<Rightarrow> f\<lparr>F_bad := True\<rparr>))"

definition unmarshal_fields :: "string list \<Rightarrow> string list \<Rightarrow> string \<Rightarrow> fields result" where
  "unmarshal_fields strs maps s =
     (let none = \<lparr>F_strs = [], F_maps = [], F_bad = False\<rparr> in
      case json_parse s of
        None \<Rightarrow> Inl syntax_error
      | Some JNull \<Rightarrow> Inr none
      | Some (JObj kvs) \<Rightarrow>
          (let f = fold (store_field strs maps) kvs none
           in if F_bad f then Inl (NewErr ''json: cannot unmarshal value into Go struct field'') else Inr f)
      | Some _ \<Rightarrow> Inl (NewErr ''json: cannot unmarshal value into Go value''))"

definition str_field :: "fields \<Rightarrow> string \<Rightarrow> string" where
  "str_field f k = the_default [] (map_of (F_strs f) k)"

definition map_field :: "fields \<Rightarrow> string \<Rightarrow> (string, string) gomap" where
  "map_field f k = the_default [] (map_of (F_maps f) k)"

section \<open>The fuel is enough\<close>

lemma skip_ws_le: "length (skip_ws s) \<le> length s"
  unfolding skip_ws_def by (rule length_dropWhile_le)

lemma parse_str_rest: "parse_str s = Some (t, r) \<Longrightarrow> length r < length s"
proof (induction s arbitrary: t rule: parse_str.induct)
  case (1 s)
  show ?case
  proof (cases "s = [] \<or> hd s = DQ")
    case True
    with 1(2) show ?thesis unfolding parse_str.simps [of s] by (cases s) auto
  next
    case False
    with 1(2) obtain u n t' where u: "unquote_step s = Some (u, n)" "parse_str (drop n s) = Some (t', r)"
      by (auto simp: parse_str.simps [of s] split: option.splits)
    have "length r < length (drop n s)" using 1(1) [OF _ _ u(1)] False u(2) by auto
    then show ?thesis by simp
  qed
qed

lemma tl_skip_less: "take 1 (skip_ws r) = [c] \<Longrightarrow> length (tl (skip_ws r)) < length r"
  by (cases "skip_ws r") (use skip_ws_le [of r] in auto)

lemma parse_rest:
  "parse_val n s = Some (v, r) \<Longrightarrow> length r \<le> length s"
  "parse_elems n s = Some (vs, r) \<Longrightarrow> length r \<le> length s"
  "parse_members n s = Some (kvs, r) \<Longrightarrow> length r \<le> length s"
proof (induction n arbitrary: s v vs kvs r)
  case (Suc n)
  { case 1
    obtain c cs where s: "skip_ws s = c # cs" using 1 by (cases "skip_ws s") auto
    then have l: "length cs < length s" using skip_ws_le [of s] by simp
    have t: "length (tl (skip_ws cs)) \<le> length s" using l skip_ws_le [of cs] by simp
    have d: "length (dropWhile num_char (c # cs)) \<le> length s" using length_dropWhile_le [of num_char "c # cs"] l by simp
    show ?case using 1 s l t d Suc.IH(2,3) [of cs] parse_str_rest [of cs]
      by (auto split: if_splits simp del: dropWhile.simps takeWhile.simps)
  next
    case 2
    then obtain v1 r1 where v: "parse_val n s = Some (v1, r1)" by (auto simp: bind_eq_Some_conv)
    have l: "length (tl (skip_ws r1)) \<le> length s" using Suc.IH(1) [OF v] skip_ws_le [of r1] by simp
    show ?case using 2 v l Suc.IH(2) [of "tl (skip_ws r1)"] by (auto split: if_splits)
  next
    case 3
    then obtain k r0 v1 r1 where v: "parse_str (tl (skip_ws s)) = Some (k, r0)" "parse_val n (tl (skip_ws r0)) = Some (v1, r1)"
      by (auto simp: bind_eq_Some_conv)
    have "length r1 \<le> length s"
      using Suc.IH(1) [OF v(2)] parse_str_rest [OF v(1)] skip_ws_le [of r0] skip_ws_le [of s] by simp
    then have l: "length (tl (skip_ws r1)) \<le> length s" using skip_ws_le [of r1] by simp
    show ?case using 3 v l Suc.IH(3) [of "tl (skip_ws r1)"] by (auto split: if_splits)
  }
qed simp_all

text \<open>
  Two units of fuel for every character and one or two more: from there on, more fuel gives the same
  result, so that no text is refused for want of it.
\<close>

lemma parse_fuel:
  "2 * length s + 1 \<le> n \<Longrightarrow> 2 * length s + 1 \<le> m \<Longrightarrow> parse_val n s = parse_val m s"
  "2 * length s + 2 \<le> n \<Longrightarrow> 2 * length s + 2 \<le> m \<Longrightarrow> parse_elems n s = parse_elems m s"
  "2 * length s + 2 \<le> n \<Longrightarrow> 2 * length s + 2 \<le> m \<Longrightarrow> parse_members n s = parse_members m s"
proof (induction n arbitrary: s m)
  case (Suc n)
  { case 1
    then obtain m' where m: "m = Suc m'" by (cases m) auto
    show ?case
    proof (cases "skip_ws s")
      case (Cons c cs)
      then have "length cs < length s" using skip_ws_le [of s] by simp
      then have "parse_elems n cs = parse_elems m' cs" "parse_members n cs = parse_members m' cs"
        using Suc.IH(2,3) [of cs m'] 1 m by auto
      with Cons m show ?thesis by simp
    qed (simp add: m)
  next
    case 2
    then obtain m' where m: "m = Suc m'" by (cases m) auto
    have v: "parse_val n s = parse_val m' s" using Suc.IH(1) [of s m'] 2 m by simp
    have "parse_elems n (tl (skip_ws r)) = parse_elems m' (tl (skip_ws r))"
      if "parse_val m' s = Some (w, r)" "take 1 (skip_ws r) = '',''" for w r
      using tl_skip_less [OF that(2)] parse_rest(1) [OF that(1)] Suc.IH(2) [of "tl (skip_ws r)" m'] 2 m by simp
    then show ?case unfolding m parse_elems.simps v by (auto intro!: Option.bind_cong)
  next
    case 3
    then obtain m' where m: "m = Suc m'" by (cases m) auto
    have "parse_val n (tl (skip_ws r)) = parse_val m' (tl (skip_ws r))
        \<and> (parse_val m' (tl (skip_ws r)) = Some (w, r') \<longrightarrow> take 1 (skip_ws r') = '','' \<longrightarrow>
             parse_members n (tl (skip_ws r')) = parse_members m' (tl (skip_ws r')))"
      if "parse_str (tl (skip_ws s)) = Some (k, r)" for k r w r'
    proof -
      have l: "length (tl (skip_ws r)) \<le> length s"
        using parse_str_rest [OF that] skip_ws_le [of s] skip_ws_le [of r] by simp
      then have "parse_members n (tl (skip_ws r')) = parse_members m' (tl (skip_ws r'))"
        if "parse_val m' (tl (skip_ws r)) = Some (w, r')" "take 1 (skip_ws r') = '',''"
        using tl_skip_less [OF that(2)] parse_rest(1) [OF that(1)] Suc.IH(3) [of "tl (skip_ws r')" m'] 3 m by simp
      then show ?thesis using Suc.IH(1) [of "tl (skip_ws r)" m'] l 3 m by simp
    qed
    then show ?case unfolding m parse_members.simps by (auto intro!: Option.bind_cong)
  }
qed simp_all

lemma json_parse_fuel:
  assumes "2 * length s + 1 \<le> n"
  shows "json_parse s = (if isl (compact s) then None else map_option fst (parse_val n s))"
  using parse_fuel(1) [of s "2 * length s + 2" n] assms by (simp add: json_parse_def)

end
