(* ===== verification/JsonValid.thy ===== *)
theory JsonValid
  imports Canonical
begin

text \<open>
  What \<open>Marshal\<close> writes, the scanner accepts: the text of a value whose floating-point literals
  are numbers and whose nesting stays below the scanner's limit is a valid JSON text, so it can
  be used as a raw message, compacted and decoded again.
\<close>

section \<open>Strings and numbers\<close>

lemma run_plain_string:
  "(\<And>c. c \<in> set u \<Longrightarrow> 0x20 \<le> code c \<and> c \<noteq> DQ \<and> c \<noteq> BSL) \<Longrightarrow>
     run (InString, ps) (u @ x) = run (InString, ps) x"
proof (induction u)
  case (Cons c u)
  then have "\<not> code c < 0x20" "c \<noteq> DQ" "c \<noteq> BSL" by fastforce+
  moreover have "run (InString, ps) (u @ x) = run (InString, ps) x" using Cons by simp
  ultimately show ?case by simp
qed simp

lemma run_escape_ascii:
  assumes "code c < 0x80"
  shows "run (InString, ps) (escape_ascii c @ x) = run (InString, ps) x"
  using run_hex_escape [of ps c x] by (simp add: escape_ascii_def)

lemma utf8_unit_high:
  assumes "\<not> code c < 0x80" "d \<in> set (take (utf8_size (c # cs)) (c # cs))"
  shows "0x80 \<le> code d"
  using assms
  by (cases "c # cs" rule: utf8_size.cases)
    (auto simp: seq2_def seq3_def seq4_def is_cont_def split: if_splits)

lemma run_quote_body: "run (InString, ps) (quote_body s @ x) = run (InString, ps) x"
proof (induction s arbitrary: x rule: quote_body.induct)
  case (1 s)
  show ?case
  proof (cases s)
    case (Cons c cs)
    have repl: "run (InString, ps) ((BSL # ''ufffd'') @ y) = run (InString, ps) y" for y
      by (simp add: hex_val_def numeral_3_eq_3)
    have high: "run (InString, ps) (take n (c # cs) @ y) = run (InString, ps) y"
      if "n = utf8_size (c # cs)" "\<not> code c < 0x80" for n y
      using utf8_unit_high [OF that(2), of _ cs] that by (intro run_plain_string) fastforce
    show ?thesis
      using 1 [of c cs] Cons
      by (auto simp: quote_body_Cons run_escape_ascii run_sep_escape repl [simplified] high)
  qed simp
qed

definition num_start :: "char \<Rightarrow> jstate option" where
  "num_start c = (if c = CHR ''-'' then Some Neg else if c = CHR ''0'' then Some Num0
     else if is_digit c then Some Num1 else None)"

fun num_step :: "jstate \<Rightarrow> char \<Rightarrow> jstate option" where
  "num_step Neg c = (if c = CHR ''0'' then Some Num0 else if is_digit c then Some Num1 else None)"
| "num_step Num1 c = (if is_digit c then Some Num1 else if c = CHR ''.'' then Some Dot
     else if c = CHR ''e'' \<or> c = CHR ''E'' then Some ExpE else None)"
| "num_step Num0 c = (if c = CHR ''.'' then Some Dot else if c = CHR ''e'' \<or> c = CHR ''E'' then Some ExpE else None)"
| "num_step Dot c = (if is_digit c then Some Dot0 else None)"
| "num_step Dot0 c = (if is_digit c then Some Dot0 else if c = CHR ''e'' \<or> c = CHR ''E'' then Some ExpE else None)"
| "num_step ExpE c = (if c = CHR ''+'' \<or> c = CHR ''-'' then Some ExpSign else if is_digit c then Some Exp0 else None)"
| "num_step ExpSign c = (if is_digit c then Some Exp0 else None)"
| "num_step Exp0 c = (if is_digit c then Some Exp0 else None)"
| "num_step _ c = None"

fun num_run :: "jstate \<Rightarrow> string \<Rightarrow> jstate option" where
  "num_run st [] = Some st"
| "num_run st (c # cs) = Option.bind (num_step st c) (\<lambda>st'. num_run st' cs)"

text \<open>A JSON number.\<close>

fun num_literal :: "string \<Rightarrow> bool" where
  "num_literal [] = False"
| "num_literal (c # cs) =
     (case Option.bind (num_start c) (\<lambda>st. num_run st cs) of
        Some st \<Rightarrow> st \<in> {Num0, Num1, Dot0, Exp0} | None \<Rightarrow> False)"

lemma num_step_step: "num_step st c = Some st' \<Longrightarrow> step (st, ps) c = Some (False, (st', ps))"
  by (cases "(st, c)" rule: num_step.cases) (auto simp: step_exp_def is_digit_def split: if_splits)

lemma num_run_run: "num_run st cs = Some st' \<Longrightarrow> run (st, ps) cs = Some (st', ps)"
  by (induction st cs rule: num_run.induct) (auto simp: num_step_step bind_eq_Some_conv)

section \<open>Accepted texts\<close>

text \<open>A text the scanner reads as one value inside the enclosing \<open>ps\<close>.\<close>

definition accepted :: "pstate list \<Rightarrow> string \<Rightarrow> bool" where
  "accepted ps t \<longleftrightarrow> t \<noteq> [] \<and> \<not> is_space (hd t) \<and>
     (\<exists>st. run (BeginValue, ps) t = Some (st, ps) \<and> value_end st \<and> (st = EndTop \<longrightarrow> ps = []))"

lemma acceptedI:
  "run (BeginValue, ps) (c # cs) = Some (st, ps) \<Longrightarrow> value_end st \<Longrightarrow> (st = EndTop \<Longrightarrow> ps = []) \<Longrightarrow>
     \<not> is_space c \<Longrightarrow> accepted ps (c # cs)"
  by (auto simp: accepted_def)

lemma digit_char: "is_digit c \<Longrightarrow> c \<notin> set ''{[-tfn'' \<and> c \<noteq> DQ \<and> \<not> is_space c"
  by (auto simp: is_digit_def is_space_def)

lemma num_start_step:
  assumes "num_start c = Some st"
  shows "step_begin_value ps c = Some (False, (st, ps)) \<and> \<not> is_space c"
proof -
  consider "c = CHR ''-''" "st = Neg" | "c = CHR ''0''" "st = Num0" | "is_digit c" "c \<noteq> CHR ''0''" "st = Num1"
    using assms by (auto simp: num_start_def split: if_splits)
  then show ?thesis
  proof cases
    case 3
    with digit_char [of c] show ?thesis by (simp add: step_begin_value_def)
  qed (simp_all add: step_begin_value_def is_space_def)
qed

lemma accepted_number:
  assumes "num_literal lit"
  shows "accepted ps lit"
proof (cases lit)
  case (Cons c cs)
  then obtain st st' where st: "num_start c = Some st" "num_run st cs = Some st'" "st' \<in> {Num0, Num1, Dot0, Exp0}"
    using assms by (auto split: option.splits simp: bind_eq_Some_conv)
  have "step (BeginValue, ps) c = Some (False, (st, ps))" "\<not> is_space c"
    using num_start_step [OF st(1)] by simp_all
  with num_run_run [OF st(2), of ps] st(3) show ?thesis
    unfolding Cons by (intro acceptedI [where st = st']) (auto simp: value_end_def)
qed (use assms in simp)

lemma accepted_string:
  assumes "\<And>x. run (InString, ps) (body @ x) = run (InString, ps) x"
  shows "accepted ps ([DQ] @ body @ [DQ])"
proof -
  have "run (InString, ps) (body @ [DQ]) = Some (EndValue, ps)" unfolding assms by simp
  then show ?thesis unfolding append_Cons append_Nil
    by (intro acceptedI [where st = EndValue]) (simp_all add: step_begin_value_def is_space_def value_end_def)
qed

lemma accepted_quote: "accepted ps (quote s)"
  unfolding quote_def by (rule accepted_string) (rule run_quote_body)

lemma accepted_word: "accepted ps ''null''" "accepted ps ''true''" "accepted ps ''false''"
  by (rule acceptedI [where st = EndValue]; simp add: step_begin_value_def is_space_def value_end_def)+

lemma show_nat_literal:
  "\<exists>c cs. show_nat n = c # cs \<and> is_digit c \<and> (c = CHR ''0'' \<longrightarrow> cs = []) \<and> list_all is_digit cs"
proof (induction n rule: show_nat.induct)
  case (1 n)
  show ?case
  proof (cases "n < 10")
    case True
    then show ?thesis by (simp add: show_nat.simps [of n] dec_char_digit)
  next
    case False
    with 1 obtain c cs where ih: "show_nat (n div 10) = c # cs" "is_digit c" "c = CHR ''0'' \<longrightarrow> cs = []"
      "list_all is_digit cs" by auto
    have "c \<noteq> CHR ''0''"
    proof
      assume "c = CHR ''0''"
      with ih have "show_nat (n div 10) = ''0''" by simp
      then have "n div 10 = nat_of_digits ''0''" by (metis nat_of_digits_show)
      then show False using False by (simp add: nat_of_digits_def dec_val_def)
    qed
    with ih False show ?thesis by (simp add: show_nat.simps [of n] dec_char_digit)
  qed
qed

lemma num_run_digits: "list_all is_digit cs \<Longrightarrow> num_run Num1 cs = Some Num1"
  by (induction cs) auto

lemma num_run_nat:
  assumes "num_step st = num_step Neg"
  shows "\<exists>st'\<in>{Num0, Num1}. num_run st (show_nat n) = Some st'"
proof -
  obtain c cs where "show_nat n = c # cs" "is_digit c" "c = CHR ''0'' \<longrightarrow> cs = []" "list_all is_digit cs"
    using show_nat_literal by blast
  with assms num_run_digits show ?thesis by (cases "c = CHR ''0''") auto
qed

lemma num_literal_nat: "num_literal (show_nat n)"
proof -
  obtain c cs where "show_nat n = c # cs" "is_digit c" "c = CHR ''0'' \<longrightarrow> cs = []" "list_all is_digit cs"
    using show_nat_literal by blast
  with num_run_digits show ?thesis by (auto simp: num_start_def is_digit_def)
qed

lemma num_literal_int: "num_literal (show_int i)"
proof (cases "i < 0")
  case True
  obtain st where "st \<in> {Num0, Num1}" "num_run Neg (show_nat (nat (- i))) = Some st"
    using num_run_nat [of Neg] by blast
  with True show ?thesis by (auto simp: show_int_def num_start_def)
qed (simp add: show_int_def num_literal_nat)

section \<open>Arrays and objects\<close>

lemma value_end_step:
  assumes "value_end st" "st = EndTop \<longrightarrow> ps = []" "c \<in> {CHR '','', CHR ''}'', CHR '']''}" "ps \<noteq> []"
  shows "step (st, ps) c = step_end_value ps c"
  using assms step_value_end [of st c ps] by auto

definition popped :: "pstate list \<Rightarrow> scanner" where
  "popped ps = (if ps = [] then EndTop else EndValue, ps)"

lemma run_elems:
  assumes "ts \<noteq> []" "\<And>t. t \<in> set ts \<Longrightarrow> accepted (ArrayValue # ps) t"
  shows "run (BeginValue, ArrayValue # ps) (join '','' ts @ '']'' @ x) = run (popped ps) x"
  using assms
proof (induction "'',''" ts rule: join.induct)
  case (2 t)
  then obtain st where "run (BeginValue, ArrayValue # ps) t = Some (st, ArrayValue # ps)" "value_end st" "st \<noteq> EndTop"
    by (auto simp: accepted_def)
  then show ?case by (simp add: run_append value_end_step is_space_def popped_def)
next
  case (3 t u us)
  then obtain st where "run (BeginValue, ArrayValue # ps) t = Some (st, ArrayValue # ps)" "value_end st" "st \<noteq> EndTop"
    by (auto simp: accepted_def)
  with 3 show ?case by (simp add: run_append value_end_step is_space_def)
qed simp

lemma accepted_array:
  assumes "\<And>t. t \<in> set ts \<Longrightarrow> accepted (ArrayValue # ps) t" "length ps < max_nesting"
  shows "accepted ps (''['' @ join '','' ts @ '']'')"
proof -
  have "run (BeginValueOrEmpty, ArrayValue # ps) (join '','' ts @ '']'') = Some (popped ps)"
  proof (cases ts)
    case (Cons t us)
    then have t: "t \<noteq> []" "\<not> is_space (hd t)" "hd t \<noteq> CHR '']''"
      using assms(1) [of t] by (auto simp: accepted_def step_begin_value_def is_digit_def is_space_def neq_Nil_conv)
    obtain c cs where j: "join '','' ts @ '']'' = c # cs" "\<not> is_space c" "c \<noteq> CHR '']''"
      using t Cons by (cases us; cases t) auto
    from run_elems [of ts ps "[]"] assms(1) Cons show ?thesis unfolding j(1) [simplified] append_Nil2
      using j by simp
  qed (simp add: is_space_def popped_def)
  then show ?thesis
    using assms(2)
    by (auto intro!: acceptedI [where st = "fst (popped ps)"]
        simp: step_begin_value_def push_state_def is_space_def popped_def value_end_def split: if_splits)
qed

definition entry_text :: "string \<times> string \<Rightarrow> string" where
  "entry_text e = quote (fst e) @ '':'' @ snd e"

lemma run_key: "run (BeginString, ObjectKey # ps) (quote k @ '':'' @ x) = run (BeginValue, ObjectValue # ps) x"
  using run_quote_body [of "ObjectKey # ps" k "DQ # CHR '':'' # x"]
  by (simp add: quote_def step_begin_string_def is_space_def)

lemma run_entries:
  assumes "es \<noteq> []" "\<And>e. e \<in> set es \<Longrightarrow> accepted (ObjectValue # ps) (snd e)"
  shows "run (BeginString, ObjectKey # ps) (join '','' (map entry_text es) @ ''}'' @ x) = run (popped ps) x"
  using assms
proof (induction es rule: induct_list012)
  case (2 e)
  have "accepted (ObjectValue # ps) (snd e)" using "2.prems"(2) by simp
  then obtain st where "run (BeginValue, ObjectValue # ps) (snd e) = Some (st, ObjectValue # ps)" "value_end st" "st \<noteq> EndTop"
    by (auto simp: accepted_def)
  then show ?case
    using run_key [of ps "fst e" "snd e @ ''}'' @ x"]
    by (simp add: entry_text_def run_append value_end_step is_space_def popped_def)
next
  case (3 e f es)
  have "accepted (ObjectValue # ps) (snd e)" using "3.prems"(2) by simp
  then obtain st where "run (BeginValue, ObjectValue # ps) (snd e) = Some (st, ObjectValue # ps)" "value_end st" "st \<noteq> EndTop"
    by (auto simp: accepted_def)
  with 3 show ?case
    using run_key [of ps "fst e" "snd e @ '','' @ join '','' (map entry_text (f # es)) @ ''}'' @ x"]
    by (simp add: entry_text_def [of e] run_append value_end_step is_space_def)
qed simp

lemma accepted_object:
  assumes "\<And>e. e \<in> set es \<Longrightarrow> accepted (ObjectValue # ps) (snd e)" "length ps < max_nesting"
  shows "accepted ps (''{'' @ join '','' (map entry_text es) @ ''}'')"
proof -
  have "run (BeginStringOrEmpty, ObjectKey # ps) (join '','' (map entry_text es) @ ''}'') = Some (popped ps)"
  proof (cases es)
    case (Cons e fs)
    obtain cs where j: "join '','' (map entry_text es) @ ''}'' = DQ # cs"
      using Cons by (cases fs) (auto simp: entry_text_def quote_def)
    from run_entries [of es ps "[]"] assms(1) Cons show ?thesis unfolding append_Nil2 j
      by (simp add: is_space_def)
  qed (simp add: is_space_def popped_def)
  then show ?thesis
    using assms(2)
    by (auto intro!: acceptedI [where st = "fst (popped ps)"]
        simp: step_begin_value_def push_state_def is_space_def popped_def value_end_def split: if_splits)
qed

section \<open>Marshalled values\<close>

text \<open>Values whose floating-point literals are numbers, and how deep a value nests.\<close>

fun floats_ok :: "gval \<Rightarrow> bool" where
  "floats_ok (GFloat (Some lit)) = num_literal lit"
| "floats_ok (GList vs) = list_all floats_ok vs"
| "floats_ok (GMap kvs) = list_all (\<lambda>(k, v). floats_ok v) kvs"
| "floats_ok _ = True"

fun nesting :: "gval \<Rightarrow> nat" where
  "nesting (GList vs) = Suc (fold (\<lambda>v. max (nesting v)) vs 0)"
| "nesting (GMap kvs) = Suc (fold (\<lambda>(k, v). max (nesting v)) kvs 0)"
| "nesting _ = 0"

lemma fold_max_ge:
  fixes f :: "'a \<Rightarrow> nat"
  shows "x \<in> set xs \<or> a = n \<Longrightarrow> (if x \<in> set xs then f x else n) \<le> fold (\<lambda>v. max (f v)) xs n"
proof (induction xs arbitrary: n)
  case (Cons y ys)
  have mono: "m \<le> fold (\<lambda>v. max (f v)) zs m" for zs and m :: nat
    by (induction zs arbitrary: m) (auto intro: order_trans [OF max.cobounded2])
  from Cons.IH [of "max (f y) n"] mono [of "max (f y) n" ys] show ?case
    by (cases "x \<in> set ys") (auto split: if_splits)
qed (auto split: if_splits)

lemma nesting_list: "v \<in> set vs \<Longrightarrow> nesting v < nesting (GList vs)"
  using fold_max_ge [of v vs 0 0 nesting] by simp

lemma nesting_map: "(k, v) \<in> set kvs \<Longrightarrow> nesting v < nesting (GMap kvs)"
  using fold_max_ge [of "(k, v)" kvs 0 0 "\<lambda>(k, v). nesting v"] by (simp add: case_prod_unfold)

definition plain_char :: "char \<Rightarrow> bool" where
  "plain_char c \<longleftrightarrow> 0x20 \<le> code c \<and> c \<noteq> DQ \<and> c \<noteq> BSL"

lemma plain_char_code: "0x20 \<le> code c \<Longrightarrow> code c \<noteq> 0x22 \<Longrightarrow> code c \<noteq> 0x5C \<Longrightarrow> plain_char c"
  by (auto simp: plain_char_def)

lemma run_plain: "list_all plain_char u \<Longrightarrow> run (InString, ps) (u @ x) = run (InString, ps) x"
  by (rule run_plain_string) (auto simp: list_all_iff plain_char_def)

lemma pad_plain: "list_all plain_char (pad w n)"
proof -
  have "plain_char c" if "is_digit c" for c
    using that by (intro plain_char_code) (auto simp: is_digit_def)
  then show ?thesis using pad_digits [of _ w n] by (auto simp: list_all_iff)
qed

lemma pad_int_plain: "list_all plain_char (pad_int w i)"
  by (simp add: pad_int_def pad_plain plain_char_def)

lemma frac_plain: "list_all plain_char (frac_text n)"
  using pad_plain [of 9 n]
  by (auto simp: frac_text_def list_all_iff plain_char_def [of "CHR ''.''"] dest!: set_dropWhileD)

lemma date_plain: "list_all plain_char (date_text t)"
  by (simp add: date_text_def pad_plain pad_int_plain Let_def plain_char_def split: prod.splits)

lemma time_plain: "list_all plain_char (format_RFC3339Nano t)"
  by (simp add: format_RFC3339Nano_def date_plain frac_plain plain_char_def [of "CHR ''Z''"])

lemma b64_char_plain:
  assumes "n < 64"
  shows "plain_char (b64_char n)"
proof -
  have "code (b64_char n) = b64_code n" using of_char_b64_char assms by blast
  then show ?thesis
    using assms by (intro plain_char_code) (auto simp: b64_code_def split: if_splits)
qed

lemma b64_plain: "list_all plain_char (b64_encode bs)"
  by (induction bs rule: b64_encode.induct)
    (simp_all add: b64_groups b64_char_plain plain_char_def [of "CHR ''=''"])

lemma accepted_plain: "list_all plain_char u \<Longrightarrow> accepted ps ([DQ] @ u @ [DQ])"
  by (rule accepted_string) (rule run_plain)

lemma marshal_list_Inr:
  "marshal (GList vs) = Inr t \<Longrightarrow>
     \<exists>ts. t = ''['' @ join '','' ts @ '']'' \<and> list_all2 (\<lambda>v u. marshal v = Inr u) vs ts"
  by (auto simp: marshal_items_map traverse_map traverse_Inr_iff)

lemma marshal_map_Inr:
  assumes "marshal (GMap kvs) = Inr t"
  shows "\<exists>es. t = ''{'' @ join '','' (map entry_text es) @ ''}''
    \<and> (\<forall>e\<in>set es. \<exists>k v. (k, v) \<in> set kvs \<and> fst e = k \<and> marshal v = Inr (snd e))"
proof -
  let ?kvs = "sort_key fst (marshal_entries kvs)"
  obtain ts where t: "t = ''{'' @ join '','' ts @ ''}''"
    and ts: "list_all2 (\<lambda>p u. \<exists>x. snd p = Inr x \<and> quote (fst p) @ '':'' @ x = u) ?kvs ts"
    using assms by (auto simp: traverse_Inr_iff case_prod_unfold)
  define es where "es = map (\<lambda>(k, r). (k, projr r)) ?kvs"
  have "ts = map entry_text es"
    unfolding es_def using ts
    by (induction rule: list_all2_induct) (auto simp: entry_text_def case_prod_unfold)
  moreover have "\<exists>k v. (k, v) \<in> set kvs \<and> fst e = k \<and> marshal v = Inr (snd e)" if "e \<in> set es" for e
  proof -
    from that obtain k r where kr: "(k, r) \<in> set ?kvs" "e = (k, projr r)" by (auto simp: es_def)
    obtain i where "i < length ?kvs" "?kvs ! i = (k, r)" using kr(1) by (metis in_set_conv_nth)
    then obtain x where "r = Inr x" using list_all2_nthD [OF ts, of i] by auto
    moreover from kr obtain v where "(k, v) \<in> set kvs" "r = marshal v"
      by (auto simp: marshal_entries_map)
    ultimately show ?thesis using kr by auto
  qed
  ultimately show ?thesis using t by blast
qed

lemma marshal_accepted:
  "marshal v = Inr t \<Longrightarrow> floats_ok v \<Longrightarrow> nesting v + length ps \<le> max_nesting \<Longrightarrow> accepted ps t"
proof (induction "nesting v" arbitrary: v t ps rule: less_induct)
  case less
  show ?case
  proof (cases v)
    case (GFloat f)
    with less.prems show ?thesis by (cases f) (auto intro: accepted_number)
  next
    case (GTime u)
    with less.prems show ?thesis
      using accepted_plain [OF time_plain] by (auto simp: marshal_time_def split: if_splits)
  next
    case (GBytes bs)
    with less.prems show ?thesis using accepted_plain [OF b64_plain] by auto
  next
    case (GList vs)
    then obtain ts where ts: "t = ''['' @ join '','' ts @ '']''" "list_all2 (\<lambda>v u. marshal v = Inr u) vs ts"
      using less.prems(1) marshal_list_Inr by blast
    have "accepted (ArrayValue # ps) u" if "u \<in> set ts" for u
    proof -
      from that obtain i where "i < length ts" "ts ! i = u" by (auto simp: in_set_conv_nth)
      then obtain w where w: "w \<in> set vs" "marshal w = Inr u"
        using ts(2) list_all2_nthD2 [OF ts(2)] list_all2_lengthD [OF ts(2)] nth_mem by metis
      show ?thesis
        using less.hyps [OF _ w(2)] nesting_list [OF w(1)] less.prems(2,3) w(1) GList
        by (auto simp: list_all_iff)
    qed
    then have "accepted ps (''['' @ join '','' ts @ '']'')"
      using less.prems(3) GList by (intro accepted_array) simp_all
    with ts(1) show ?thesis by simp
  next
    case (GMap kvs)
    then obtain es where es: "t = ''{'' @ join '','' (map entry_text es) @ ''}''"
      "\<forall>e\<in>set es. \<exists>k v. (k, v) \<in> set kvs \<and> fst e = k \<and> marshal v = Inr (snd e)"
      using less.prems(1) marshal_map_Inr by blast
    have "accepted (ObjectValue # ps) (snd e)" if "e \<in> set es" for e
    proof -
      from that es(2) obtain k w where w: "(k, w) \<in> set kvs" "marshal w = Inr (snd e)" by blast
      show ?thesis
        using less.hyps [OF _ w(2)] nesting_map [OF w(1)] less.prems(2,3) w(1) GMap
        by (auto simp: list_all_iff)
    qed
    then have "accepted ps (''{'' @ join '','' (map entry_text es) @ ''}'')"
      using less.prems(3) GMap by (intro accepted_object) simp_all
    with es(1) show ?thesis by simp
  qed (use less.prems in \<open>auto simp: accepted_word accepted_quote accepted_number num_literal_int\<close>)
qed

section \<open>Accepted texts can be compacted\<close>

lemma run_compact:
  "run s cs = Some s' \<Longrightarrow> at_eof s' \<Longrightarrow> \<exists>out. compact_from s cs = Inr out"
proof (induction "length cs" arbitrary: s cs rule: less_induct)
  case less
  show ?case
  proof (cases cs)
    case Nil
    with less.prems show ?thesis by (simp add: compact_from_Nil)
  next
    case (Cons c rest)
    then obtain f s1 where st: "step s c = Some (f, s1)" "run s1 rest = Some s'"
      using less.prems(1) by (auto split: option.splits)
    obtain out where out: "compact_from s1 rest = Inr out"
      using less.hyps [of rest s1] Cons st less.prems(2) by auto
    show ?thesis
    proof (cases "line_separator cs \<and> fst s = InString")
      case True
      then obtain b d ds ps where e: "cs = c # b # d # ds" "s = (InString, ps)"
          "code c = 0xE2" "code b = 0x80" "code d \<in> {0xA8, 0xA9}"
        using Cons by (cases cs rule: line_separator.cases; cases s) auto
      moreover have "c \<notin> {DQ, BSL}" "b \<notin> {DQ, BSL}" "d \<notin> {DQ, BSL}" using e(3-5) by auto
      moreover have "\<not> code d < 0x20" using e(5) by auto
      ultimately have "run s ds = Some s'" using less.prems(1) by simp
      then obtain out' where "compact_from s ds = Inr out'" using less.hyps [of ds s] e less.prems(2) by auto
      with e out st Cons show ?thesis by (auto simp: compact_from_Cons)
    next
      case False
      with out st Cons show ?thesis by (auto simp: compact_from_Cons)
    qed
  qed
qed

lemma accepted_compact:
  assumes "accepted [] t"
  shows "\<exists>out. compact t = Inr out"
proof -
  obtain st where st: "run (BeginValue, []) t = Some (st, [])" "value_end st"
    using assms by (auto simp: accepted_def)
  have "at_eof (st, [])"
    using st(2) by (auto simp: value_end_def at_eof_def step_exp_def is_digit_def is_space_def)
  with st(1) run_compact show ?thesis unfolding compact_def by blast
qed

lemma marshal_compact:
  "marshal v = Inr t \<Longrightarrow> floats_ok v \<Longrightarrow> nesting v \<le> max_nesting \<Longrightarrow> \<exists>out. compact t = Inr out"
  using marshal_accepted [of v t "[]"] accepted_compact by simp

lemma marshal_not_Nil:
  assumes "marshal v = Inr t" "floats_ok v" "nesting v \<le> max_nesting"
  shows "t \<noteq> []"
  using marshal_accepted [OF assms(1,2), of "[]"] assms(3) by (simp add: accepted_def)

end
