(* ===== verification/ReadBack.thy ===== *)
theory ReadBack
  imports Decode JsonValid
begin

text \<open>
  What \<open>encoding/json\<close> wrote can be read back: a quoted string, and an object of strings with any
  amount of white space between its parts, as \<open>Marshal\<close> and \<open>MarshalIndent\<close> lay it out.
\<close>

section \<open>Strings\<close>

lemma utf8_encode_ascii: "code c < 0x80 \<Longrightarrow> utf8_encode (code c) = [c]"
  by (simp add: utf8_encode_def)

lemma hex_val_0: "hex_val (CHR ''0'') = Some 0"
  by (simp add: hex_val_def)

lemma unquote_hex_escape:
  assumes "code c < 0x80"
  shows "unquote_step (hex_escape c @ x) = Some ([c], 6)"
proof -
  have "getu4 (hex_escape c @ x) = Some (code c)"
    using assms by (simp add: hex_escape_def hex_val_char hex_val_0)
  moreover have "\<not> is_surrogate (code c)" using assms by (simp add: is_surrogate_def)
  ultimately show ?thesis using utf8_encode_ascii [OF assms] by (simp add: hex_escape_def)
qed

lemma unquote_step_ascii:
  assumes "code c < 0x80"
  shows "unquote_step (escape_ascii c @ x) = Some ([c], length (escape_ascii c))"
proof (cases "escape_ascii c = hex_escape c")
  case True
  then show ?thesis using unquote_hex_escape [OF assms, of x] by (simp add: hex_escape_def)
next
  case False
  then show ?thesis using assms by (auto simp: escape_ascii_def char_of_code split: if_splits)
qed

lemma unquote_step_unit:
  assumes "is_unit u"
  shows "unquote_step (unit_text u @ x) = Some (u, length (unit_text u))"
proof -
  obtain c cs where u: "u = c # cs" using assms by (auto simp: is_unit_def neq_Nil_conv)
  have size: "utf8_size u = length u" using assms by (simp add: is_unit_def)
  show ?thesis
  proof (cases "cs = []")
    case True
    then have "code c < 0x80" using size u utf8_size_1 [of c "[]"] by simp
    with u True unquote_step_ascii [of c x] show ?thesis by (simp add: unit_text_def)
  next
    case False
    then have c: "\<not> code c < 0x80" using size u utf8_size_1 [of c cs] by auto
    show ?thesis
    proof (cases "line_separator u")
      case True
      then have "length u = 3" using utf8_size_sep size by simp
      with u True obtain b d where d: "u = [c, b, d]" "code c = 0xE2" "code b = 0x80" "code d = 0xA8 \<or> code d = 0xA9"
        by (auto simp: length_Suc_conv numeral_3_eq_3)
      from d(4) show ?thesis
      proof
        assume e: "code d = 0xA8"
        with d have "u = [char_of (0xE2 :: nat), char_of (0x80 :: nat), char_of (0xA8 :: nat)]" by (auto simp: char_of_code)
        then show ?thesis using True
          by (simp add: unit_text_def sep_escape_def hex_val_def hex_char_def is_surrogate_def utf8_encode_def)
      next
        assume e: "code d = 0xA9"
        with d have "u = [char_of (0xE2 :: nat), char_of (0x80 :: nat), char_of (0xA9 :: nat)]" by (auto simp: char_of_code)
        then show ?thesis using True
          by (simp add: unit_text_def sep_escape_def hex_val_def hex_char_def is_surrogate_def utf8_encode_def)
      qed
    next
      case False
      have "c \<noteq> BSL" using c by auto
      moreover have "utf8_size (u @ x) = length u" using utf8_size_append [of u x] size u by simp
      ultimately show ?thesis using \<open>cs \<noteq> []\<close> False u c by (auto simp: unit_text_def)
    qed
  qed
qed

lemma parse_str_quote:
  assumes "valid_utf8 s"
  shows "parse_str (quote_body s @ DQ # x) = Some (s, x)"
  using assms
proof (induction s rule: valid_utf8.induct)
  case (1 s)
  show ?case
  proof (cases "s = []")
    case True
    then show ?thesis by (simp add: parse_str.simps)
  next
    case False
    let ?u = "take (utf8_size s) s" and ?r = "drop (utf8_size s) s"
    have s: "utf8_size s \<noteq> 0" "valid_utf8 ?r" using False "1.prems" valid_utf8.simps [of s] by (auto split: if_splits)
    have q: "quote_body s @ DQ # x = unit_text ?u @ quote_body ?r @ DQ # x" using quote_body_unit [OF s(1)] by simp
    obtain c t where h: "unit_text ?u = c # t" "c \<noteq> DQ" using unit_text_hd [OF is_unit_take [OF s(1)]] by blast
    have "parse_str (quote_body ?r @ DQ # x) = Some (?r, x)" using "1.IH" [OF False s(1,2)] .
    with unquote_step_unit [OF is_unit_take [OF s(1)], of "quote_body ?r @ DQ # x"] h show ?thesis
      unfolding q by (subst parse_str.simps) simp
  qed
qed

section \<open>Objects of strings\<close>

text \<open>The text of an object after its opening brace, with white space before each key, after each colon and at the end.\<close>

fun members_text :: "string \<Rightarrow> string \<Rightarrow> string \<Rightarrow> (string \<times> string) list \<Rightarrow> string" where
  "members_text pre gap post [] = []"
| "members_text pre gap post [(k, v)] = pre @ quote k @ '':'' @ gap @ quote v @ post @ ''}''"
| "members_text pre gap post ((k, v) # kvs) = pre @ quote k @ '':'' @ gap @ quote v @ '','' @ members_text pre gap post kvs"

definition blank :: "string \<Rightarrow> bool" where
  "blank ws \<longleftrightarrow> list_all is_space ws"

lemma skip_ws_blank: "blank ws \<Longrightarrow> \<not> is_space c \<Longrightarrow> skip_ws (ws @ c # r) = c # r"
  by (induction ws) (simp_all add: blank_def skip_ws_def)

lemma skip_ws_here: "\<not> is_space c \<Longrightarrow> skip_ws (c # r) = c # r"
  by (simp add: skip_ws_def)

lemma not_space [simp]: "\<not> is_space DQ" "\<not> is_space (CHR '':'')" "\<not> is_space (CHR '','')" "\<not> is_space (CHR ''}'')" "\<not> is_space (CHR ''{'')"
  by (simp_all add: is_space_def)

lemma parse_val_quote:
  assumes "valid_utf8 v" "blank ws"
  shows "parse_val (Suc n) (ws @ quote v @ x) = Some (JStr v, x)"
proof -
  have "skip_ws (ws @ quote v @ x) = DQ # quote_body v @ DQ # x"
    using skip_ws_blank [OF assms(2), of DQ "quote_body v @ DQ # x"] by (simp add: quote_def)
  then show ?thesis using parse_str_quote [OF assms(1), of x] by simp
qed

lemma parse_members_text:
  assumes "kvs \<noteq> []" "list_all (\<lambda>(k, v). valid_utf8 k \<and> valid_utf8 v) kvs" "blank pre" "blank gap" "blank post" "length kvs < n"
  shows "parse_members n (members_text pre gap post kvs @ x) = Some (map (\<lambda>(k, v). (k, JStr v)) kvs, x)"
  using assms
proof (induction pre gap post kvs arbitrary: n rule: members_text.induct)
  case (2 pre gap post k v)
  then obtain m where n: "n = Suc (Suc m)" by (auto simp: less_iff_Suc_add)
  have k: "skip_ws (pre @ quote k @ r) = DQ # quote_body k @ DQ # r" for r
    using skip_ws_blank [OF "2.prems"(3), of DQ "quote_body k @ DQ # r"] by (simp add: quote_def)
  have v: "parse_val (Suc m) (gap @ quote v @ r) = Some (JStr v, r)" "parse_str (quote_body k @ DQ # r) = Some (k, r)" for r
    using 2 parse_val_quote parse_str_quote by auto
  show ?case using skip_ws_blank [OF "2.prems"(5), of "CHR ''}''" x]
    unfolding n parse_members.simps by (simp add: k v skip_ws_here del: parse_val.simps)
next
  case (3 pre gap post k v kv kvs)
  then obtain m where n: "n = Suc (Suc m)" by (auto simp: less_iff_Suc_add)
  have k: "skip_ws (pre @ quote k @ r) = DQ # quote_body k @ DQ # r" for r
    using skip_ws_blank [OF "3.prems"(3), of DQ "quote_body k @ DQ # r"] by (simp add: quote_def)
  have v: "parse_val (Suc m) (gap @ quote v @ r) = Some (JStr v, r)" "parse_str (quote_body k @ DQ # r) = Some (k, r)" for r
    using 3 parse_val_quote parse_str_quote by auto
  have "parse_members (Suc m) (members_text pre gap post (kv # kvs) @ x) = Some (map (\<lambda>(k, v). (k, JStr v)) (kv # kvs), x)"
    using 3 n by (simp del: parse_members.simps)
  then show ?case unfolding n parse_members.simps(2) [of "Suc m"]
    by (simp add: k v skip_ws_here del: parse_val.simps parse_members.simps)
qed simp

lemma run_blank:
  "blank ws \<Longrightarrow> st \<in> {BeginString, BeginValue, BeginStringOrEmpty} \<or> st = EndValue \<and> ps \<noteq> [] \<Longrightarrow>
     run (st, ps) (ws @ x) = run (st, ps) x"
proof (induction ws)
  case (Cons c ws)
  then have "step (st, ps) c = Some (True, (st, ps))"
    by (cases ps) (auto simp: blank_def step_begin_string_def step_begin_value_def)
  with Cons show ?case by (simp add: blank_def)
qed simp

lemma run_key_blank:
  assumes "blank pre"
  shows "run (BeginString, ObjectKey # ps) (pre @ quote k @ '':'' @ x) = run (BeginValue, ObjectValue # ps) x"
  using run_blank [OF assms, of BeginString "ObjectKey # ps"] run_key [of ps k x] by simp

lemma run_quote: "run (BeginValue, ps) (quote v @ x) = run (EndValue, ps) x"
  using run_quote_body [of ps v "DQ # x"] by (simp add: quote_def step_begin_value_def is_space_def)

lemma run_members:
  assumes "kvs \<noteq> []" "blank pre" "blank gap" "blank post"
  shows "run (BeginString, ObjectKey # ps) (members_text pre gap post kvs @ x) = run (popped ps) x"
  using assms
proof (induction pre gap post kvs rule: members_text.induct)
  case (2 pre gap post k v)
  then have "run (BeginString, ObjectKey # ps) (pre @ quote k @ '':'' @ gap @ quote v @ post @ ''}'' @ x)
      = run (EndValue, ObjectValue # ps) (''}'' @ x)"
    by (simp only: run_key_blank run_quote run_blank) (simp add: run_blank run_quote)
  then show ?case by (simp add: popped_def)
next
  case (3 pre gap post k v kv kvs)
  then have "run (BeginString, ObjectKey # ps) (pre @ quote k @ '':'' @ gap @ quote v @ '','' @ members_text pre gap post (kv # kvs) @ x)
      = run (EndValue, ObjectValue # ps) ('','' @ members_text pre gap post (kv # kvs) @ x)"
    by (simp only: run_key_blank) (simp add: run_blank run_quote)
  with 3 show ?case by simp
qed simp

lemma members_text_hd:
  assumes "kvs \<noteq> []"
  shows "\<exists>r. members_text pre gap post kvs = pre @ DQ # r"
  using assms by (cases "(pre, gap, post, kvs)" rule: members_text.cases) (auto simp: quote_def)

lemma members_text_length: "kvs \<noteq> [] \<Longrightarrow> length kvs < length (members_text pre gap post kvs)"
  by (induction pre gap post kvs rule: members_text.induct) auto

lemma json_parse_object:
  assumes "kvs \<noteq> []" "list_all (\<lambda>(k, v). valid_utf8 k \<and> valid_utf8 v) kvs" "blank pre" "blank gap" "blank post"
  shows "json_parse (''{'' @ members_text pre gap post kvs) = Some (JObj (map (\<lambda>(k, v). (k, JStr v)) kvs))"
proof -
  let ?t = "members_text pre gap post kvs"
  obtain r where r: "?t = pre @ DQ # r" using members_text_hd [OF assms(1)] by blast
  have "run (BeginStringOrEmpty, [ObjectKey]) (pre @ DQ # r) = run (BeginString, [ObjectKey]) (pre @ DQ # r)"
    using run_blank [OF assms(3), of BeginStringOrEmpty] run_blank [OF assms(3), of BeginString]
    by (simp add: step_begin_string_def)
  then have "run (BeginStringOrEmpty, [ObjectKey]) ?t = Some (EndTop, [])"
    using run_members [OF assms(1,3-5), of "[]" "[]"] unfolding r by (simp add: popped_def)
  then have "run (BeginValue, []) (''{'' @ ?t) = Some (EndTop, [])"
    by (simp add: step_begin_value_def push_state_def max_nesting_def)
  then have "\<not> isl (compact (''{'' @ ?t))"
    using run_compact [of "(BeginValue, [])" "''{'' @ ?t"] by (auto simp: compact_def at_eof_def)
  moreover have "skip_ws (''{'' @ ?t) = CHR ''{'' # ?t" "take 1 (skip_ws ?t) \<noteq> ''}''"
    using skip_ws_blank [OF assms(3), of DQ r] r by (simp_all add: skip_ws_here)
  moreover have "length kvs < length ?t" using members_text_length [OF assms(1)] .
  ultimately show ?thesis
    using parse_members_text [OF assms, of "2 * length (''{'' @ ?t) + 1" "[]"]
    by (simp add: json_parse_def del: parse_members.simps)
qed

lemma store_string_fields:
  assumes "list_all (\<lambda>(k, v). k \<in> set strs) kvs"
  shows "fold (store_field strs maps) (map (\<lambda>(k, v). (k, JStr v)) kvs) f
    = f\<lparr>F_strs := fold (\<lambda>(k, v). AList.update k v) kvs (F_strs f)\<rparr>"
  using assms by (induction kvs arbitrary: f) (auto simp: store_field_def field_of_def)

text \<open>Reading back an object of strings whose keys are fields of the target.\<close>

lemma unmarshal_string_object:
  assumes "kvs \<noteq> []" "list_all (\<lambda>(k, v). k \<in> set strs \<and> valid_utf8 k \<and> valid_utf8 v) kvs"
    "blank pre" "blank gap" "blank post"
  shows "unmarshal_fields strs maps (''{'' @ members_text pre gap post kvs)
    = Inr \<lparr>F_strs = fold (\<lambda>(k, v). AList.update k v) kvs [], F_maps = [], F_bad = False\<rparr>"
proof -
  have "list_all (\<lambda>(k, v). valid_utf8 k \<and> valid_utf8 v) kvs" "list_all (\<lambda>(k, v). k \<in> set strs) kvs"
    using assms(2) by (auto simp: list_all_iff)
  with json_parse_object [OF assms(1) this(1) assms(3-5)] show ?thesis
    by (simp add: unmarshal_fields_def store_string_fields)
qed

end
