(* ===== verification/Signing.thy ===== *)
theory Signing
  imports Codec
begin

text \<open>
  The key manager of \<open>internal/signing/signing.go\<close>: signing and verifying of digests with
  key versions, and encryption of fields.

  Ed25519 and AES-GCM are the parameter \<open>crypto_api\<close>; what the program relies on (a signature
  verifies under the matching key, a sealed text opens under the same key and nonce) is named
  in \<open>km_good\<close> and \<open>gcm_ok\<close>. The checks of lengths those packages make, by errors or by
  panics, are written out. The interfaces \<open>Signer\<close> and \<open>Encryptor\<close> are the locales
  \<open>signer_contract\<close> and \<open>encryptor_contract\<close>, interpreted on the key manager.
\<close>

section \<open>Model\<close>

record crypto_api =
  ed_sign :: "bytes \<Rightarrow> bytes \<Rightarrow> bytes"
  ed_verify :: "bytes \<Rightarrow> bytes \<Rightarrow> bytes \<Rightarrow> bool"
  gcm_seal :: "bytes \<Rightarrow> bytes \<Rightarrow> bytes \<Rightarrow> bytes"
  gcm_open :: "bytes \<Rightarrow> bytes \<Rightarrow> bytes \<Rightarrow> bytes option"

record LocalKeyManager =
  KM_version :: string
  KM_privateKey :: bytes
  KM_publicKey :: bytes
  KM_aesKey :: bytes
  KM_historicalPublicKeys :: "(string, bytes) gomap"

text \<open>\<open>ed25519.Sign\<close> and \<open>ed25519.Verify\<close> panic on a key of the wrong length.\<close>

definition ed25519_Sign :: "crypto_api \<Rightarrow> bytes \<Rightarrow> bytes \<Rightarrow> bytes result" where
  "ed25519_Sign c priv msg =
     (if length priv \<noteq> 64 then Inl (Panic (''ed25519: bad private key length: '' @ show_nat (length priv)))
      else Inr (ed_sign c priv msg))"

definition ed25519_Verify :: "crypto_api \<Rightarrow> bytes \<Rightarrow> bytes \<Rightarrow> bytes \<Rightarrow> bool result" where
  "ed25519_Verify c pub msg sig =
     (if length pub \<noteq> 32 then Inl (Panic (''ed25519: bad public key length: '' @ show_nat (length pub)))
      else Inr (ed_verify c pub msg sig))"

definition Sign :: "crypto_api \<Rightarrow> LocalKeyManager \<Rightarrow> bytes \<Rightarrow> (bytes \<times> string) result" where
  "Sign c m digest =
     (if KM_privateKey m = [] then Inl (NewErr ''private key not available'')
      else result_bind (ed25519_Sign c (KM_privateKey m) digest) (\<lambda>sig. Inr (sig, KM_version m)))"

definition Verify :: "crypto_api \<Rightarrow> LocalKeyManager \<Rightarrow> bytes \<Rightarrow> bytes \<Rightarrow> string \<Rightarrow> bool result" where
  "Verify c m digest signature keyVersion =
     (if keyVersion = KM_version m then ed25519_Verify c (KM_publicKey m) digest signature
      else case map_of (KM_historicalPublicKeys m) keyVersion of
        Some hist \<Rightarrow> ed25519_Verify c hist digest signature
      | None \<Rightarrow> Inl (WrapPre ErrKeyNotFound keyVersion))"

definition PublicKey :: "LocalKeyManager \<Rightarrow> string \<Rightarrow> bytes result" where
  "PublicKey m keyVersion =
     (if keyVersion = [] \<or> keyVersion = KM_version m then Inr (KM_publicKey m)
      else case map_of (KM_historicalPublicKeys m) keyVersion of
        Some hist \<Rightarrow> Inr hist
      | None \<Rightarrow> Inl (WrapPre ErrKeyNotFound keyVersion))"

definition CurrentVersion :: "LocalKeyManager \<Rightarrow> string" where
  "CurrentVersion m = KM_version m"

text \<open>
  \<open>aes.NewCipher\<close> accepts keys of 16, 24 and 32 bytes; \<open>cipher.NewGCM\<close> succeeds on every
  AES block and has a nonce of 12 bytes.
\<close>

definition aes_NewCipher :: "bytes \<Rightarrow> bytes result" where
  "aes_NewCipher key =
     (if length key \<in> {16, 24, 32} then Inr key
      else Inl (NewErr (''crypto/aes: invalid key size '' @ show_nat (length key))))"

definition NonceSize :: nat where
  "NonceSize = 12"

text \<open>The argument \<open>rnd\<close> is the outcome of reading the nonce from the random source.\<close>

definition Encrypt :: "crypto_api \<Rightarrow> LocalKeyManager \<Rightarrow> bytes result \<Rightarrow> bytes \<Rightarrow> (bytes \<times> string) result" where
  "Encrypt c m rnd plaintext =
     result_bind (aes_NewCipher (KM_aesKey m)) (\<lambda>block.
     result_bind rnd (\<lambda>nonce.
       Inr (nonce @ gcm_seal c block nonce plaintext, KM_version m)))"

definition Decrypt :: "crypto_api \<Rightarrow> LocalKeyManager \<Rightarrow> bytes \<Rightarrow> string \<Rightarrow> bytes result" where
  "Decrypt c m ciphertext keyVersion =
     (if keyVersion \<noteq> KM_version m then Inl (WrapPre ErrKeyNotFound keyVersion)
      else result_bind (aes_NewCipher (KM_aesKey m)) (\<lambda>block.
        if length ciphertext < NonceSize then Inl ErrDecryptionFailed
        else case gcm_open c block (take NonceSize ciphertext) (drop NonceSize ciphertext) of
          None \<Rightarrow> Inl ErrDecryptionFailed
        | Some plaintext \<Rightarrow> Inr plaintext))"

section \<open>Contracts\<close>

text \<open>
  What the batcher and the verifier rely on: a signature that was issued verifies under the
  version it was issued with.
\<close>

locale signer_contract =
  fixes sign :: "'m \<Rightarrow> bytes \<Rightarrow> (bytes \<times> string) result"
    and verify :: "'m \<Rightarrow> bytes \<Rightarrow> bytes \<Rightarrow> string \<Rightarrow> bool result"
    and good :: "'m \<Rightarrow> bool"
  assumes sign_total: "good m \<Longrightarrow> \<exists>sig v. sign m d = Inr (sig, v)"
    and verify_sign: "good m \<Longrightarrow> sign m d = Inr (sig, v) \<Longrightarrow> verify m d sig v = Inr True"

locale encryptor_contract =
  fixes encrypt :: "'m \<Rightarrow> 'r \<Rightarrow> bytes \<Rightarrow> (bytes \<times> string) result"
    and decrypt :: "'m \<Rightarrow> bytes \<Rightarrow> string \<Rightarrow> bytes result"
    and good :: "'m \<Rightarrow> 'r \<Rightarrow> bool"
  assumes decrypt_encrypt: "good m r \<Longrightarrow> encrypt m r p = Inr (ct, v) \<Longrightarrow> decrypt m ct v = Inr p"
begin

lemma encrypt_inj:
  assumes "good m r" "good m r'" "encrypt m r p = Inr (ct, v)" "encrypt m r' q = Inr (ct, v)"
  shows "p = q"
  using decrypt_encrypt [OF assms(1,3)] decrypt_encrypt [OF assms(2,4)] by simp

end

text \<open>
  A manager whose keys have the right lengths and belong together, and an AES-GCM that opens
  what it seals. Both state documented behaviour of the two packages for the keys at hand.
\<close>

definition km_good :: "crypto_api \<Rightarrow> LocalKeyManager \<Rightarrow> bool" where
  "km_good c m \<longleftrightarrow> length (KM_privateKey m) = 64 \<and> length (KM_publicKey m) = 32
     \<and> (\<forall>msg. ed_verify c (KM_publicKey m) msg (ed_sign c (KM_privateKey m) msg))"

definition gcm_ok :: "crypto_api \<Rightarrow> bool" where
  "gcm_ok c \<longleftrightarrow> (\<forall>k n p. length n = NonceSize \<longrightarrow> gcm_open c k n (gcm_seal c k n p) = Some p)"

definition nonce_ok :: "bytes result \<Rightarrow> bool" where
  "nonce_ok r \<longleftrightarrow> (case r of Inl _ \<Rightarrow> True | Inr n \<Rightarrow> length n = NonceSize)"

lemma Sign_good:
  "km_good c m \<Longrightarrow> Sign c m d = Inr (ed_sign c (KM_privateKey m) d, KM_version m)"
  by (auto simp: km_good_def Sign_def ed25519_Sign_def)

interpretation lkm: signer_contract "Sign c" "Verify c" "km_good c" for c
proof unfold_locales
  fix m d sig v assume "km_good c m" "Sign c m d = Inr (sig, v)"
  then show "Verify c m d sig v = Inr True"
    by (auto simp: Sign_good Verify_def ed25519_Verify_def) (auto simp: km_good_def)
qed (simp add: Sign_good)

interpretation lke: encryptor_contract "Encrypt c" "Decrypt c" "\<lambda>m r. gcm_ok c \<and> nonce_ok r" for c
  by unfold_locales
    (auto simp: Encrypt_def Decrypt_def gcm_ok_def nonce_ok_def)

section \<open>Properties\<close>

text \<open>
  C19: Signatures survive a key rotation: what a manager signs verifies under that manager, and
  under any later manager of another version that keeps the old public key as a historical
  key; a manager that has no key of that version reports \<open>ErrKeyNotFound\<close>.
\<close>

theorem Verify_after_rotation:
  assumes "km_good c old" "Sign c old d = Inr (sig, v)" "KM_version new \<noteq> v"
  shows "Verify c old d sig v = Inr True
    \<and> (map_of (KM_historicalPublicKeys new) v = Some (KM_publicKey old) \<longrightarrow>
         Verify c new d sig v = Inr True)
    \<and> (map_of (KM_historicalPublicKeys new) v = None \<longrightarrow>
         Verify c new d sig v = Inl (WrapPre ErrKeyNotFound v))"
  using lkm.verify_sign [OF assms(1,2)] assms
  by (auto simp: Verify_def Sign_good)

text \<open>
  C20: Decrypting what the manager encrypted gives the plaintext back, for every nonce drawn;
  asking for another key version is refused before anything is decrypted.
\<close>

theorem Decrypt_Encrypt:
  assumes "gcm_ok c" "nonce_ok rnd" "Encrypt c m rnd p = Inr (ct, v)"
  shows "Decrypt c m ct v = Inr p
    \<and> (\<forall>w. w \<noteq> v \<longrightarrow> Decrypt c m ct w = Inl (WrapPre ErrKeyNotFound w))"
  using lke.decrypt_encrypt [of c rnd m p ct v] assms
  by (auto simp: Encrypt_def Decrypt_def)

text \<open>A transparent instance: the signature is the key and the message, the sealed text the plaintext.\<close>

definition toy_crypto :: crypto_api where
  "toy_crypto = \<lparr>ed_sign = (\<lambda>priv msg. drop 32 priv @ msg), ed_verify = (\<lambda>pub msg sig. sig = pub @ msg),
     gcm_seal = (\<lambda>k n p. 0xA5 # p), gcm_open = (\<lambda>k n ct. if ct = [] \<or> hd ct \<noteq> 0xA5 then None else Some (tl ct))\<rparr>"

definition toy_keys :: "string \<Rightarrow> (string, bytes) gomap \<Rightarrow> LocalKeyManager" where
  "toy_keys v hist = \<lparr>KM_version = v, KM_privateKey = replicate 32 7 @ replicate 32 9,
     KM_publicKey = replicate 32 9, KM_aesKey = replicate 32 1, KM_historicalPublicKeys = hist\<rparr>"

lemma toy_good: "km_good toy_crypto (toy_keys v hist)" "gcm_ok toy_crypto"
  by (simp_all add: km_good_def toy_crypto_def toy_keys_def gcm_ok_def)

theorem Verify_after_rotation_witness:
  "Sign toy_crypto (toy_keys ''v1'' []) [1] = Inr (replicate 32 9 @ [1], ''v1'')
   \<and> Verify toy_crypto (toy_keys ''v2'' [(''v1'', replicate 32 9)]) [1] (replicate 32 9 @ [1]) ''v1'' = Inr True
   \<and> Verify toy_crypto (toy_keys ''v2'' []) [1] (replicate 32 9 @ [1]) ''v1''
       = Inl (WrapPre ErrKeyNotFound ''v1'')"
proof -
  have s: "Sign toy_crypto (toy_keys ''v1'' []) [1] = Inr (replicate 32 9 @ [1], ''v1'')"
    by (simp add: Sign_def ed25519_Sign_def toy_crypto_def toy_keys_def)
  show ?thesis
    using s Verify_after_rotation [OF toy_good(1) s, of "toy_keys ''v2'' [(''v1'', replicate 32 9)]"]
      Verify_after_rotation [OF toy_good(1) s, of "toy_keys ''v2'' []"]
    by (simp add: toy_keys_def)
qed

theorem Decrypt_Encrypt_witness:
  "Encrypt toy_crypto (toy_keys ''v1'' []) (Inr (replicate 12 3)) [4, 5]
     = Inr (replicate 12 3 @ [0xA5, 4, 5], ''v1'')
   \<and> Decrypt toy_crypto (toy_keys ''v1'' []) (replicate 12 3 @ [0xA5, 4, 5]) ''v1'' = Inr [4, 5]"
proof -
  have e: "Encrypt toy_crypto (toy_keys ''v1'' []) (Inr (replicate 12 3)) [4, 5]
      = Inr (replicate 12 3 @ [0xA5, 4, 5], ''v1'')"
    by (simp add: Encrypt_def toy_crypto_def toy_keys_def aes_NewCipher_def)
  show ?thesis
    using e Decrypt_Encrypt [OF toy_good(2) _ e] by (simp add: nonce_ok_def NonceSize_def)
qed

end
