(* ===== verification/Verifier.thy ===== *)
theory Verifier
  imports Canonical Signing
begin

text \<open>
  The record verifier of \<open>internal/merkle/verifier.go\<close>. The fetcher and the signer it is
  constructed with are arguments; the current time is the argument \<open>now\<close>.

  The lemmas give the exact condition under which a record is reported valid, that an honest
  record of a signed batch is reported valid, and that a record reported valid against the
  root of a batch is one of those the batch was built from.
\<close>

section \<open>Model\<close>

record VerificationResult =
  VR_Valid :: bool
  VR_RecordID :: string
  VR_BatchID :: string
  VR_MerkleRoot :: bytes
  VR_MerkleRootHex :: string
  VR_Signature :: bytes
  VR_SignatureHex :: string
  VR_KeyVersion :: string
  VR_VerifiedAt :: time
  VR_FailureReason :: string

record BatchVerificationData =
  BV_BatchID :: string
  BV_MerkleRoot :: bytes
  BV_Signature :: bytes
  BV_KeyVersion :: string
  BV_AllLeafHashes :: "bytes list"
  BV_Proof :: "ProofNode list"

type_synonym fetched = "RecordCanonicalPayload \<times> BatchVerificationData"

definition fresh_result :: "string \<Rightarrow> time \<Rightarrow> VerificationResult" where
  "fresh_result recordID now =
     \<lparr>VR_Valid = False, VR_RecordID = recordID, VR_BatchID = [], VR_MerkleRoot = [],
      VR_MerkleRootHex = [], VR_Signature = [], VR_SignatureHex = [], VR_KeyVersion = [],
      VR_VerifiedAt = now, VR_FailureReason = []\<rparr>"

definition fill_batch :: "BatchVerificationData \<Rightarrow> VerificationResult \<Rightarrow> VerificationResult" where
  "fill_batch d r = r\<lparr>VR_BatchID := BV_BatchID d, VR_MerkleRoot := BV_MerkleRoot d,
     VR_MerkleRootHex := hex_encode (BV_MerkleRoot d), VR_Signature := BV_Signature d,
     VR_SignatureHex := hex_encode (BV_Signature d), VR_KeyVersion := BV_KeyVersion d\<rparr>"

text \<open>Step 3: the stored proof, or one rebuilt from the leaf hashes of the batch.\<close>

definition choose_proof :: "BatchVerificationData \<Rightarrow> int \<Rightarrow> (string, ProofNode list) sum" where
  "choose_proof d idx =
     (if BV_Proof d = [] \<and> BV_AllLeafHashes d \<noteq> [] then
        (case BuildTree (BV_AllLeafHashes d) of
           Inl e \<Rightarrow> Inl (''failed to reconstruct tree: '' @ error_text e)
         | Inr tree \<Rightarrow>
             (case GenerateProof tree idx of
                Inl e \<Rightarrow> Inl (''failed to generate proof: '' @ error_text e)
              | Inr proof \<Rightarrow> Inr proof))
      else Inr (BV_Proof d))"

text \<open>
  The second component is the returned error; a panic of the signer is reported there too,
  since it leaves the function.
\<close>

definition VerifyRecord ::
  "(string \<Rightarrow> fetched result) \<Rightarrow> (bytes \<Rightarrow> bytes \<Rightarrow> string \<Rightarrow> bool result) \<Rightarrow> time \<Rightarrow> string
     \<Rightarrow> VerificationResult \<times> go_error option" where
  "VerifyRecord fetch verify now recordID =
     (let result = fresh_result recordID now in
      case fetch recordID of
        Inl err \<Rightarrow> (result\<lparr>VR_FailureReason := ''failed to fetch record data: '' @ error_text err\<rparr>, Some err)
      | Inr (payload, d) \<Rightarrow>
          let result = fill_batch d result;
              fail = (\<lambda>why. (result\<lparr>VR_FailureReason := why\<rparr>, None))
          in case verify (BV_MerkleRoot d) (BV_Signature d) (BV_KeyVersion d) of
            Inl (Panic m) \<Rightarrow> (result, Some (Panic m))
          | Inl _ \<Rightarrow> fail ''invalid batch signature''
          | Inr False \<Rightarrow> fail ''invalid batch signature''
          | Inr True \<Rightarrow>
              (case ComputeRecordLeafHash payload of
                 Inl err \<Rightarrow> fail (''failed to compute leaf hash: '' @ error_text err)
               | Inr leafHash \<Rightarrow>
                   (case choose_proof d (P_MerkleLeafIndex payload) of
                      Inl why \<Rightarrow> fail why
                    | Inr proof \<Rightarrow>
                        if \<not> VerifyProof leafHash proof (BV_MerkleRoot d)
                        then fail ''merkle proof verification failed (record does not match signed root)''
                        else (result\<lparr>VR_Valid := True\<rparr>, None))))"

section \<open>When a record is valid\<close>

lemma VerifyRecord_valid_iff:
  "VR_Valid (fst (VerifyRecord fetch verify now rid)) \<longleftrightarrow>
     (\<exists>payload d leafHash proof. fetch rid = Inr (payload, d)
        \<and> verify (BV_MerkleRoot d) (BV_Signature d) (BV_KeyVersion d) = Inr True
        \<and> ComputeRecordLeafHash payload = Inr leafHash
        \<and> choose_proof d (P_MerkleLeafIndex payload) = Inr proof
        \<and> VerifyProof leafHash proof (BV_MerkleRoot d))"
  by (auto simp: VerifyRecord_def fresh_result_def fill_batch_def Let_def
      split: sum.splits go_error.splits bool.splits)

text \<open>
  C5: \<open>VerifyRecord\<close> never lets a record pass by accident: it reports a record valid exactly
  when the fetch succeeds, the batch signature verifies on the root for the batch's key
  version, the leaf hash can be computed, and the stored or rebuilt proof leads from that hash
  to the signed root. A valid record comes without an error or a failure reason; a record that
  was fetched and is not valid comes with a failure reason, unless the signer panicked.
\<close>

theorem VerifyRecord_spec:
  "(VR_Valid (fst (VerifyRecord fetch verify now rid)) \<longleftrightarrow>
     (\<exists>payload d leafHash proof. fetch rid = Inr (payload, d)
        \<and> verify (BV_MerkleRoot d) (BV_Signature d) (BV_KeyVersion d) = Inr True
        \<and> ComputeRecordLeafHash payload = Inr leafHash
        \<and> choose_proof d (P_MerkleLeafIndex payload) = Inr proof
        \<and> VerifyProof leafHash proof (BV_MerkleRoot d)))
   \<and> (case VerifyRecord fetch verify now rid of (res, err) \<Rightarrow>
        VR_RecordID res = rid \<and> VR_VerifiedAt res = now
        \<and> (if VR_Valid res then VR_FailureReason res = [] \<and> err = None
           else if VR_FailureReason res = [] then \<exists>m. err = Some (Panic m) else True)
        \<and> (if isl (fetch rid) then err = Some (projl (fetch rid))
           else err = None \<or> (\<exists>m. err = Some (Panic m))))"
proof -
  have "choose_proof d i = Inl why \<Longrightarrow> why \<noteq> []" for d i why
    by (auto simp: choose_proof_def split: if_splits sum.splits)
  then have "case VerifyRecord fetch verify now rid of (res, err) \<Rightarrow>
        VR_RecordID res = rid \<and> VR_VerifiedAt res = now
        \<and> (if VR_Valid res then VR_FailureReason res = [] \<and> err = None
           else if VR_FailureReason res = [] then \<exists>m. err = Some (Panic m) else True)
        \<and> (if isl (fetch rid) then err = Some (projl (fetch rid))
           else err = None \<or> (\<exists>m. err = Some (Panic m)))"
    by (auto simp: VerifyRecord_def fresh_result_def fill_batch_def Let_def
        split: sum.splits go_error.splits bool.splits)
  then show ?thesis using VerifyRecord_valid_iff by blast
qed

section \<open>Honest records and forged ones\<close>

lemma leaf_hashes_of_canonical:
  "traverse ComputeRecordLeafHash ps = Inr hs \<longleftrightarrow>
     (\<exists>ds. traverse canonical_bytes ps = Inr ds \<and> hs = map HashLeaf ds)"
proof (induction ps arbitrary: hs)
  case (Cons p ps)
  show ?case
  proof (cases "canonical_bytes p")
    case (Inl e)
    then show ?thesis
      by (cases "wrap_err ''failed to marshal canonical payload'' (canonical_bytes p)")
        (auto simp: ComputeRecordLeafHash_def)
  next
    case (Inr a)
    then show ?thesis using Cons
      by (auto simp: ComputeRecordLeafHash_def split: sum.splits)
        (metis (no_types, lifting) list.simps(9) sum.inject(2) sum.exhaust)+
  qed
qed auto

lemma honest_record_valid:
  assumes "fetch rid = Inr (payload, d)" "BV_Proof d = []"
    "ComputeRecordLeafHash payload = Inr (BV_AllLeafHashes d ! nat (P_MerkleLeafIndex payload))"
    "0 \<le> P_MerkleLeafIndex payload" "P_MerkleLeafIndex payload < int (length (BV_AllLeafHashes d))"
    "BuildTree (BV_AllLeafHashes d) = Inr t" "BV_MerkleRoot d = Root t"
    "verify (BV_MerkleRoot d) (BV_Signature d) (BV_KeyVersion d) = Inr True"
  shows "VR_Valid (fst (VerifyRecord fetch verify now rid))"
proof -
  let ?i = "P_MerkleLeafIndex payload"
  obtain path where "GenerateProof t ?i = Inr path" "VerifyProof (BV_AllLeafHashes d ! nat ?i) path (Root t)"
    using generate_proof_verifies [OF assms(6), of ?i] assms(4,5) by auto
  moreover have "BV_AllLeafHashes d \<noteq> []" using assms(4,5) by auto
  ultimately have "choose_proof d ?i = Inr path" "VerifyProof (BV_AllLeafHashes d ! nat ?i) path (BV_MerkleRoot d)"
    using assms(2,6,7) by (simp_all add: choose_proof_def)
  with assms(1,3,8) show ?thesis unfolding VerifyRecord_valid_iff by blast
qed

text \<open>
  The byte strings that are hashed when a batch with canonical texts \<open>D\<close> is built and when
  the text \<open>a\<close> is checked against \<open>proof\<close>.
\<close>

definition hashed :: "bytes list \<Rightarrow> bytes \<Rightarrow> ProofNode list \<Rightarrow> bytes set" where
  "hashed D a proof = insert (0x00 # a) (set (verify_inputs (HashLeaf a) proof))
     \<union> (#) 0x00 ` set D \<union> set (buildInputs (map HashLeaf D))"

lemma valid_record_member:
  assumes "VR_Valid (fst (VerifyRecord fetch verify now rid))" "fetch rid = Inr (payload, d)"
    "BuildTree (map HashLeaf D) = Inr t" "BV_MerkleRoot d = Root t"
    "\<And>a proof. canonical_bytes payload = Inr a \<Longrightarrow>
       choose_proof d (P_MerkleLeafIndex payload) = Inr proof \<Longrightarrow> inj_on sha256 (hashed D a proof)"
  shows "\<exists>a\<in>set D. canonical_bytes payload = Inr a"
proof -
  obtain leaf path where v: "ComputeRecordLeafHash payload = Inr leaf"
      "choose_proof d (P_MerkleLeafIndex payload) = Inr path" "VerifyProof leaf path (Root t)"
    using assms(1,2,4) by (auto simp: VerifyRecord_valid_iff)
  then obtain a where a: "canonical_bytes payload = Inr a" "leaf = HashLeaf a"
    by (auto simp: ComputeRecordLeafHash_def)
  have "a \<in> set D"
    using v(3) a(2) assms(5) [OF a(1) v(2)] unfolding hashed_def
    by (intro verify_proof_member [OF assms(3)]) simp_all
  with a(1) show ?thesis by blast
qed

end
