(* ===== verification/Archive.thy ===== *)
theory Archive
  imports Json GoStrings
begin

text \<open>
  The write-once archive of \<open>internal/archive/archive.go\<close> on a model of a directory tree.

  A path is kept as \<open>filepath.Clean\<close> leaves it: whether it is rooted, and its components.
  The outcome of every system call of a write (which may fail) is drawn from a plan in the
  state, so that each early return of \<open>writeImmutable\<close> is a branch of the model. The locale
  \<open>archive_contract\<close> states what the batcher and the tiering job rely on.
\<close>

section \<open>Paths\<close>

type_synonym path = "bool \<times> string list"

abbreviation SLASH :: char where "SLASH \<equiv> CHR ''/''"

fun split_slash :: "string \<Rightarrow> string list" where
  "split_slash [] = [[]]"
| "split_slash (c # cs) =
     (if c = SLASH then [] # split_slash cs
      else case split_slash cs of [] \<Rightarrow> [[c]] | w # ws \<Rightarrow> (c # w) # ws)"

definition clean_step :: "bool \<Rightarrow> string list \<Rightarrow> string \<Rightarrow> string list" where
  "clean_step rooted out elem =
     (if elem = [] \<or> elem = ''.'' then out
      else if elem = ''..'' then
        (if out \<noteq> [] \<and> last out \<noteq> ''..'' then butlast out
         else if rooted then out else out @ [''..''])
      else out @ [elem])"

definition is_abs :: "string \<Rightarrow> bool" where
  "is_abs s \<longleftrightarrow> s \<noteq> [] \<and> hd s = SLASH"

definition filepath_Clean :: "string \<Rightarrow> path" where
  "filepath_Clean s = (is_abs s, foldl (clean_step (is_abs s)) [] (split_slash s))"

definition path_string :: "path \<Rightarrow> string" where
  "path_string p = (case p of (rooted, comps) \<Rightarrow>
     if comps = [] then (if rooted then ''/'' else ''.'')
     else (if rooted then ''/'' else []) @ join ''/'' comps)"

text \<open>\<open>filepath.Join\<close>; the callers always pass an element that is not empty.\<close>

definition filepath_Join :: "string list \<Rightarrow> path" where
  "filepath_Join elems = filepath_Clean (join ''/'' (dropWhile (\<lambda>e. e = []) elems))"

definition filepath_Dir :: "path \<Rightarrow> path" where
  "filepath_Dir p = (fst p, butlast (snd p))"

definition contains :: "string \<Rightarrow> string \<Rightarrow> bool" where
  "contains s sub \<longleftrightarrow> list_ex (\<lambda>i. take (length sub) (drop i s) = sub) [0..<length s + 1 - length sub]"

section \<open>File system\<close>

text \<open>
  A file has its content and its permission bits. The outcomes of one write: an error of each
  system call, if it fails, and the suffix \<open>CreateTemp\<close> picks.
\<close>

record write_io =
  io_stat :: "go_error option"
  io_create :: "go_error option"
  io_write :: "go_error option"
  io_sync :: "go_error option"
  io_close :: "go_error option"
  io_rename :: "go_error option"
  io_chmod :: "go_error option"
  io_remove :: "go_error option"
  io_suffix :: string

definition mode_0600 :: nat where
  "mode_0600 = 384"

definition mode_0444 :: nat where
  "mode_0444 = 292"

definition io_ok :: "string \<Rightarrow> write_io" where
  "io_ok suffix = \<lparr>io_stat = None, io_create = None, io_write = None, io_sync = None,
     io_close = None, io_rename = None, io_chmod = None, io_remove = None, io_suffix = suffix\<rparr>"

record LocalDirArchiveStore =
  LD_baseDir :: string
  LD_files :: "(path, bytes \<times> nat) gomap"
  LD_dirs :: "path list"
  LD_plan :: "write_io list"
  LD_read_fault :: "path \<Rightarrow> go_error option"

definition exists_at :: "LocalDirArchiveStore \<Rightarrow> path \<Rightarrow> bool" where
  "exists_at s p \<longleftrightarrow> map_of (LD_files s) p \<noteq> None \<or> p \<in> set (LD_dirs s)"

definition put_file :: "path \<Rightarrow> bytes \<times> nat \<Rightarrow> LocalDirArchiveStore \<Rightarrow> LocalDirArchiveStore" where
  "put_file p f s = s\<lparr>LD_files := AList.update p f (LD_files s)\<rparr>"

definition remove_file :: "path \<Rightarrow> LocalDirArchiveStore \<Rightarrow> LocalDirArchiveStore" where
  "remove_file p s = s\<lparr>LD_files := AList.delete p (LD_files s)\<rparr>"

text \<open>\<open>os.MkdirAll\<close> makes a directory and its parents; it fails where a file is in the way.\<close>

fun parents :: "path \<Rightarrow> path list" where
  "parents (rooted, comps) = map (\<lambda>n. (rooted, take n comps)) [1..<length comps + 1]"

definition mkdir_all :: "path \<Rightarrow> LocalDirArchiveStore \<Rightarrow> go_error option \<times> LocalDirArchiveStore" where
  "mkdir_all p s =
     (if list_ex (\<lambda>q. map_of (LD_files s) q \<noteq> None) (parents p)
      then (Some (NewErr ''not a directory''), s)
      else (None, s\<lparr>LD_dirs := LD_dirs s @ filter (\<lambda>q. q \<notin> set (LD_dirs s)) (parents p)\<rparr>))"

section \<open>Operations\<close>

definition NewLocalDirArchiveStore :: "string \<Rightarrow> LocalDirArchiveStore \<Rightarrow> LocalDirArchiveStore result" where
  "NewLocalDirArchiveStore baseDir fs =
     (case mkdir_all (filepath_Join [baseDir, ''checkpoints'']) fs of
        (Some e, _) \<Rightarrow> Inl (Wrapf ''failed to create checkpoints directory'' e)
      | (None, fs) \<Rightarrow>
          (case mkdir_all (filepath_Join [baseDir, ''archives'']) fs of
             (Some e, _) \<Rightarrow> Inl (Wrapf ''failed to create archives directory'' e)
           | (None, fs) \<Rightarrow> Inr (fs\<lparr>LD_baseDir := baseDir\<rparr>)))"

text \<open>The deferred clean-up removes the temporary file; its own error is ignored.\<close>

definition clean_up :: "write_io \<Rightarrow> path \<Rightarrow> LocalDirArchiveStore \<Rightarrow> LocalDirArchiveStore" where
  "clean_up io tempName s = (if io_remove io = None then remove_file tempName s else s)"

definition temp_path :: "path \<Rightarrow> string \<Rightarrow> path" where
  "temp_path dir suffix = (fst dir, snd dir @ [''worm-tmp-'' @ suffix])"

definition write_with ::
  "write_io \<Rightarrow> string \<Rightarrow> bytes \<Rightarrow> LocalDirArchiveStore \<Rightarrow> go_error option \<times> LocalDirArchiveStore" where
  "write_with io relPath data s =
     (let targetPath = filepath_Join [LD_baseDir s, relPath] in
      if io_stat io = None \<and> exists_at s targetPath then (Some (WrapPre ErrObjectExists relPath), s)
      else
        let dir = filepath_Dir targetPath;
            tempName = temp_path dir (io_suffix io) in
        case (if io_create io \<noteq> None then io_create io
              else if dir \<notin> set (LD_dirs s) then Some (NewErr ''no such file or directory'')
              else if exists_at s tempName then Some (NewErr ''file exists'') else None) of
          Some e \<Rightarrow> (Some (Wrapf ''failed to create temp archive file'' e), s)
        | None \<Rightarrow>
            let s1 = put_file tempName ([], mode_0600) s in
            case io_write io of
              Some e \<Rightarrow> (Some (Wrapf ''failed to write archive data'' e), clean_up io tempName s1)
            | None \<Rightarrow>
                let s2 = put_file tempName (data, mode_0600) s in
                case io_sync io of
                  Some e \<Rightarrow> (Some (Wrapf ''failed to sync archive data'' e), clean_up io tempName s2)
                | None \<Rightarrow>
                    case io_close io of
                      Some e \<Rightarrow> (Some (Wrapf ''failed to close temp file'' e), clean_up io tempName s2)
                    | None \<Rightarrow>
                        case (if targetPath \<in> set (LD_dirs s) then Some (NewErr ''file exists'') else io_rename io) of
                          Some e \<Rightarrow> (Some (Wrapf ''failed to commit immutable archive object'' e),
                                     clean_up io tempName s2)
                        | None \<Rightarrow>
                            let s3 = put_file targetPath (data, mode_0600) (remove_file tempName s2) in
                            case io_chmod io of
                              Some e \<Rightarrow> (Some (Wrapf (''failed to set read-only permissions on ''
                                           @ path_string targetPath) e), s3)
                            | None \<Rightarrow> (None, put_file targetPath (data, mode_0444) s3))"

definition writeImmutable ::
  "LocalDirArchiveStore \<Rightarrow> string \<Rightarrow> bytes \<Rightarrow> go_error option \<times> LocalDirArchiveStore" where
  "writeImmutable s relPath data =
     (case LD_plan s of
        [] \<Rightarrow> write_with (io_ok ''0'') relPath data s
      | io # plan \<Rightarrow> write_with io relPath data (s\<lparr>LD_plan := plan\<rparr>))"

definition PutCheckpoint ::
  "LocalDirArchiveStore \<Rightarrow> string \<Rightarrow> bytes \<Rightarrow> go_error option \<times> LocalDirArchiveStore" where
  "PutCheckpoint s batchID data =
     writeImmutable s (path_string (filepath_Join [''checkpoints'', batchID @ ''.json''])) data"

definition PutArchive ::
  "LocalDirArchiveStore \<Rightarrow> string \<Rightarrow> bytes \<Rightarrow> go_error option \<times> LocalDirArchiveStore" where
  "PutArchive s batchID data =
     writeImmutable s (path_string (filepath_Join [''archives'', batchID @ ''.jsonl''])) data"

definition Get :: "LocalDirArchiveStore \<Rightarrow> string \<Rightarrow> bytes result" where
  "Get s objectKey =
     (let cleanKey = path_string (filepath_Clean objectKey) in
      if contains cleanKey ''..'' \<or> is_abs cleanKey then Inl ErrInvalidKey
      else
        let targetPath = filepath_Join [LD_baseDir s, cleanKey] in
        case LD_read_fault s targetPath of
          Some e \<Rightarrow> Inl (Wrapf ''failed to read archive object'' e)
        | None \<Rightarrow>
            (case map_of (LD_files s) targetPath of
               Some (data, mode) \<Rightarrow> Inr data
             | None \<Rightarrow>
                 if targetPath \<in> set (LD_dirs s)
                 then Inl (Wrapf ''failed to read archive object'' (NewErr ''is a directory''))
                 else Inl ErrObjectNotFound))"

text \<open>\<open>os.ReadDir\<close>: the names in a directory, sorted, each with whether it is a directory.\<close>

definition read_dir :: "LocalDirArchiveStore \<Rightarrow> path \<Rightarrow> (string \<times> bool) list result" where
  "read_dir s dir =
     (if dir \<notin> set (LD_dirs s) then Inl (NewErr ''no such file or directory'')
      else
        (let names = (\<lambda>ps d. map (\<lambda>p. (last (snd p), d))
               (filter (\<lambda>p. snd p \<noteq> [] \<and> filepath_Dir p = dir) ps))
         in Inr (sort_key fst (names (map fst (LD_files s)) False @ names (LD_dirs s) True))))"

definition ListCheckpoints :: "LocalDirArchiveStore \<Rightarrow> string list result" where
  "ListCheckpoints s =
     result_bind (wrap_err ''failed to read checkpoints dir''
         (read_dir s (filepath_Join [LD_baseDir s, ''checkpoints''])))
       (\<lambda>entries. Inr (map (\<lambda>(name, _). path_string (filepath_Join [''checkpoints'', name]))
          (filter (\<lambda>(name, d). \<not> d \<and> has_suffix name ''.json'') entries)))"

text \<open>The interface \<open>ArchiveStore\<close>.\<close>

record 'a ArchiveI =
  ar_PutCheckpoint :: "'a \<Rightarrow> string \<Rightarrow> bytes \<Rightarrow> go_error option \<times> 'a"
  ar_PutArchive :: "'a \<Rightarrow> string \<Rightarrow> bytes \<Rightarrow> go_error option \<times> 'a"
  ar_Get :: "'a \<Rightarrow> string \<Rightarrow> bytes result"
  ar_ListCheckpoints :: "'a \<Rightarrow> string list result"

definition local_dir_archive :: "LocalDirArchiveStore ArchiveI" where
  "local_dir_archive = \<lparr>ar_PutCheckpoint = PutCheckpoint, ar_PutArchive = PutArchive,
     ar_Get = Get, ar_ListCheckpoints = ListCheckpoints\<rparr>"

section \<open>Paths under the base directory\<close>

definition plain :: "string \<Rightarrow> bool" where
  "plain w \<longleftrightarrow> w \<noteq> [] \<and> SLASH \<notin> set w \<and> w \<noteq> ''.'' \<and> w \<noteq> ''..''"

lemma split_slash_not_Nil [simp]: "split_slash s \<noteq> []"
  by (induction s) (auto split: list.splits)

lemma split_slash_plain: "SLASH \<notin> set w \<Longrightarrow> split_slash w = [w]"
  by (induction w) auto

lemma split_slash_append: "split_slash (a @ SLASH # b) = split_slash a @ split_slash b"
  by (induction a) (auto split: list.splits simp: append_eq_Cons_conv)

lemma split_slash_join:
  "ws \<noteq> [] \<Longrightarrow> list_all plain ws \<Longrightarrow> split_slash (join ''/'' ws) = ws"
  by (induction "''/''" ws rule: join.induct)
    (auto simp: split_slash_append split_slash_plain plain_def)

lemma foldl_clean_plain: "list_all plain ws \<Longrightarrow> foldl (clean_step r) out ws = out @ ws"
  by (induction ws arbitrary: out) (auto simp: clean_step_def plain_def)

lemma is_abs_join: "list_all plain ws \<Longrightarrow> \<not> is_abs (join ''/'' ws)"
  by (cases "(''/'', ws)" rule: join.cases) (auto simp: is_abs_def plain_def hd_append neq_Nil_conv)

lemma clean_join_plain:
  "ws \<noteq> [] \<Longrightarrow> list_all plain ws \<Longrightarrow> filepath_Clean (join ''/'' ws) = (False, ws)"
  by (simp add: filepath_Clean_def is_abs_join split_slash_join foldl_clean_plain)

definition base_path :: "string \<Rightarrow> path" where
  "base_path b = filepath_Clean b"

text \<open>The object with components \<open>ws\<close> of the archive rooted at \<open>b\<close>.\<close>

definition object_path :: "string \<Rightarrow> string list \<Rightarrow> path" where
  "object_path b ws = (fst (base_path b), snd (base_path b) @ ws)"

lemma join_base:
  assumes "ws \<noteq> []" "list_all plain ws"
  shows "filepath_Join [b, join ''/'' ws] = object_path b ws"
proof -
  have ne: "join ''/'' ws \<noteq> []"
    using assms by (cases "(''/'', ws)" rule: join.cases) (auto simp: plain_def)
  show ?thesis
  proof (cases "b = []")
    case True
    have "filepath_Clean [] = (False, [])"
      by (simp add: filepath_Clean_def is_abs_def clean_step_def)
    with True assms ne show ?thesis
      by (simp add: filepath_Join_def clean_join_plain object_path_def base_path_def)
  next
    case False
    then show ?thesis using assms
      by (simp add: filepath_Join_def object_path_def base_path_def filepath_Clean_def is_abs_def
          split_slash_append split_slash_join foldl_clean_plain)
  qed
qed

lemma object_path_inject [simp]: "object_path b ws = object_path b vs \<longleftrightarrow> ws = vs"
  by (simp add: object_path_def)

lemma filepath_Dir_object: "ws \<noteq> [] \<Longrightarrow> filepath_Dir (object_path b ws) = object_path b (butlast ws)"
  by (simp add: filepath_Dir_def object_path_def butlast_append)

section \<open>Writing once\<close>

lemmas fs_simps = put_file_def remove_file_def clean_up_def update_conv' delete_conv' exists_at_def

definition target_of :: "LocalDirArchiveStore \<Rightarrow> string \<Rightarrow> path" where
  "target_of s relPath = filepath_Join [LD_baseDir s, relPath]"

lemma absent_upd: "\<not> exists_at s p \<Longrightarrow> (map_of (LD_files s))(p := None) = map_of (LD_files s)"
  by (cases "map_of (LD_files s) p") (auto simp: exists_at_def fun_upd_idem)

lemma write_frame:
  assumes "write_with io rel data s = (e, s')"
  shows "LD_baseDir s' = LD_baseDir s \<and> LD_dirs s' = LD_dirs s \<and> LD_plan s' = LD_plan s
    \<and> LD_read_fault s' = LD_read_fault s"
  using assms unfolding write_with_def Let_def
  by (auto simp: put_file_def remove_file_def clean_up_def split: if_splits option.splits)

lemma write_ok:
  assumes "write_with io rel data s = (None, s')"
  shows "map_of (LD_files s') (target_of s rel) = Some (data, mode_0444)"
  using assms unfolding write_with_def Let_def target_of_def
  by (auto simp: fs_simps split: if_splits option.splits)

lemma write_keeps:
  assumes "write_with io rel data s = (e, s')" "io_stat io = None" "map_of (LD_files s) p = Some f"
  shows "map_of (LD_files s') p = Some f"
proof (cases "p = temp_path (filepath_Dir (filepath_Join [LD_baseDir s, rel])) (io_suffix io)
    \<or> p = target_of s rel")
  case True
  obtain c m where "f = (c, m)" by (cases f)
  with True assms have "s' = s"
    by (auto simp: write_with_def exists_at_def target_of_def Let_def split: if_splits option.splits)
  with assms(3) show ?thesis by simp
next
  case False
  with assms show ?thesis
    unfolding write_with_def Let_def target_of_def
    by (auto simp: fs_simps split: if_splits option.splits)
qed

lemma write_extends:
  assumes "write_with io rel data s = (e, s')" "io_stat io = None"
  shows "map_of (LD_files s) \<subseteq>\<^sub>m map_of (LD_files s')"
  using write_keeps [OF assms] by (auto simp: map_le_def dom_def)

lemma write_exists:
  assumes "io_stat io = None" "map_of (LD_files s) (target_of s rel) = Some f"
  shows "write_with io rel data s = (Some (WrapPre ErrObjectExists rel), s)"
  using assms by (simp add: write_with_def exists_at_def target_of_def Let_def)

text \<open>
  No \<open>Stat\<close> will fail, and no read. \<open>writeImmutable\<close> takes every error of \<open>Stat\<close>, not only the one that
  says that there is no such file, for the absence of the object.
\<close>

definition ld_inv :: "LocalDirArchiveStore \<Rightarrow> bool" where
  "ld_inv s \<longleftrightarrow> list_all (\<lambda>io. io_stat io = None) (LD_plan s) \<and> LD_read_fault s = (\<lambda>_. None)"

text \<open>The facts about one write, carried over to \<open>writeImmutable\<close>.\<close>

lemma writeImmutable_step:
  assumes "ld_inv s" "writeImmutable s rel data = (e, s')"
  shows "ld_inv s' \<and> LD_baseDir s' = LD_baseDir s
    \<and> (e = None \<longrightarrow> map_of (LD_files s') (target_of s rel) = Some (data, mode_0444))
    \<and> map_of (LD_files s) \<subseteq>\<^sub>m map_of (LD_files s')
    \<and> (map_of (LD_files s) (target_of s rel) \<noteq> None \<longrightarrow> e = Some (WrapPre ErrObjectExists rel))"
proof (cases "LD_plan s")
  case Nil
  then have w: "write_with (io_ok ''0'') rel data s = (e, s')"
    using assms(2) by (simp add: writeImmutable_def)
  have "io_stat (io_ok ''0'') = None" by (simp add: io_ok_def)
  then show ?thesis
    using write_frame [OF w] write_ok [of "io_ok ''0''" rel data s s'] write_extends [OF w]
      write_exists [of "io_ok ''0''" s rel _ data] w assms(1)
    by (auto simp: ld_inv_def)
next
  case (Cons io plan)
  let ?s = "s\<lparr>LD_plan := plan\<rparr>"
  have w: "write_with io rel data ?s = (e, s')" using assms(2) Cons by (simp add: writeImmutable_def)
  have "io_stat io = None" using assms(1) Cons by (simp add: ld_inv_def)
  then show ?thesis
    using write_frame [OF w] write_ok [of io rel data ?s s'] write_extends [OF w]
      write_exists [of io ?s rel _ data] w assms(1) Cons
    by (auto simp: ld_inv_def target_of_def)
qed

section \<open>Contract\<close>

text \<open>Batch identifiers are UUIDs; all that matters here is that they have no slash and no dot.\<close>

definition safe_id :: "string \<Rightarrow> bool" where
  "safe_id i \<longleftrightarrow> i \<noteq> [] \<and> SLASH \<notin> set i \<and> CHR ''.'' \<notin> set i"

definition checkpoint_key :: "string \<Rightarrow> string" where
  "checkpoint_key batchID = ''checkpoints/'' @ batchID @ ''.json''"

definition archive_key :: "string \<Rightarrow> string" where
  "archive_key batchID = ''archives/'' @ batchID @ ''.jsonl''"

text \<open>Any sequence of checkpoints and archives written, whatever their outcome.\<close>

fun put_all :: "'a ArchiveI \<Rightarrow> (bool \<times> string \<times> bytes) list \<Rightarrow> 'a \<Rightarrow> 'a" where
  "put_all A [] a = a"
| "put_all A ((c, i, d) # ps) a =
     put_all A ps (snd (if c then ar_PutCheckpoint A a i d else ar_PutArchive A a i d))"

locale archive_contract =
  fixes A :: "'a ArchiveI"
    and inv :: "'a \<Rightarrow> bool"
  assumes put_checkpoint_inv: "inv a \<Longrightarrow> ar_PutCheckpoint A a i d = (e, a') \<Longrightarrow> inv a'"
    and put_archive_inv: "inv a \<Longrightarrow> ar_PutArchive A a i d = (e, a') \<Longrightarrow> inv a'"
    and put_checkpoint_get:
      "inv a \<Longrightarrow> safe_id i \<Longrightarrow> ar_PutCheckpoint A a i d = (None, a') \<Longrightarrow> ar_Get A a' (checkpoint_key i) = Inr d"
    and put_archive_get:
      "inv a \<Longrightarrow> safe_id i \<Longrightarrow> ar_PutArchive A a i d = (None, a') \<Longrightarrow> ar_Get A a' (archive_key i) = Inr d"
    and put_checkpoint_keeps:
      "inv a \<Longrightarrow> ar_Get A a k = Inr c \<Longrightarrow> ar_PutCheckpoint A a i d = (e, a') \<Longrightarrow> ar_Get A a' k = Inr c"
    and put_archive_keeps:
      "inv a \<Longrightarrow> ar_Get A a k = Inr c \<Longrightarrow> ar_PutArchive A a i d = (e, a') \<Longrightarrow> ar_Get A a' k = Inr c"
    and put_checkpoint_refused:
      "inv a \<Longrightarrow> safe_id i \<Longrightarrow> ar_Get A a (checkpoint_key i) = Inr c \<Longrightarrow>
         ar_PutCheckpoint A a i d = (e, a') \<Longrightarrow> \<exists>err. e = Some err \<and> errors_Is err ErrObjectExists"
    and put_archive_refused:
      "inv a \<Longrightarrow> safe_id i \<Longrightarrow> ar_Get A a (archive_key i) = Inr c \<Longrightarrow>
         ar_PutArchive A a i d = (e, a') \<Longrightarrow> \<exists>err. e = Some err \<and> errors_Is err ErrObjectExists"
begin

lemma put_all_inv: "inv a \<Longrightarrow> inv (put_all A ps a)"
proof (induction ps arbitrary: a)
  case (Cons p ps)
  obtain ck i d where p: "p = (ck, i, d)" by (cases p) auto
  have "inv (snd (if ck then ar_PutCheckpoint A a i d else ar_PutArchive A a i d))"
    using put_checkpoint_inv [OF Cons.prems] put_archive_inv [OF Cons.prems] by (metis prod.collapse)
  with Cons.IH p show ?case by simp
qed simp

lemma put_all_keeps: "inv a \<Longrightarrow> ar_Get A a k = Inr c \<Longrightarrow> ar_Get A (put_all A ps a) k = Inr c"
proof (induction ps arbitrary: a)
  case (Cons p ps)
  obtain ck i d where p: "p = (ck, i, d)" by (cases p) auto
  show ?case
  proof (cases ck)
    case True
    obtain e a' where w: "ar_PutCheckpoint A a i d = (e, a')" by fastforce
    then have "inv a' \<and> ar_Get A a' k = Inr c"
      using put_checkpoint_inv put_checkpoint_keeps Cons.prems by blast
    with Cons.IH [of a'] p True w show ?thesis by simp
  next
    case False
    obtain e a' where w: "ar_PutArchive A a i d = (e, a')" by fastforce
    then have "inv a' \<and> ar_Get A a' k = Inr c"
      using put_archive_inv put_archive_keeps Cons.prems by blast
    with Cons.IH [of a'] p False w show ?thesis by simp
  qed
qed simp

end

lemma contains_append: "contains (a @ sub @ b) sub"
  unfolding contains_def list_ex_iff by (intro bexI [of _ "length a"]) auto

lemma join_member: "w \<in> set ws \<Longrightarrow> \<exists>a b. join sep ws = a @ w @ b"
proof (induction sep ws rule: join.induct)
  case (3 sep x y zs)
  show ?case
  proof (cases "w = x")
    case True
    then have "join sep (x # y # zs) = [] @ w @ (sep @ join sep (y # zs))" by simp
    then show ?thesis by blast
  next
    case False
    with 3 obtain a b where "join sep (y # zs) = a @ w @ b" by auto
    then have "join sep (x # y # zs) = (x @ sep @ a) @ w @ b" by simp
    then show ?thesis by blast
  qed
qed (auto intro: exI [of _ "[]"])

lemma split_slash_parts: "w \<in> set (split_slash s) \<Longrightarrow> SLASH \<notin> set w"
  by (induction s arbitrary: w) (auto split: if_splits list.splits)

lemma foldl_clean_parts:
  "list_all (\<lambda>w. plain w \<or> w = ''..'') out \<Longrightarrow> list_all (\<lambda>w. SLASH \<notin> set w) ws \<Longrightarrow>
     list_all (\<lambda>w. plain w \<or> w = ''..'') (foldl (clean_step r) out ws)"
proof (induction ws arbitrary: out)
  case (Cons w ws)
  have "list_all (\<lambda>w. plain w \<or> w = ''..'') (clean_step r out w)"
    using Cons.prems by (auto simp: clean_step_def plain_def list_all_iff dest: in_set_butlastD)
  with Cons show ?case by simp
qed simp

lemma clean_components:
  assumes "filepath_Clean key = (r, ws)"
  shows "list_all (\<lambda>w. plain w \<or> w = ''..'') ws"
  using assms foldl_clean_parts [of "[]" "split_slash key" "is_abs key"] split_slash_parts [of _ key]
  by (auto simp: filepath_Clean_def list_all_iff)

lemma path_string_dots:
  assumes "list_all (\<lambda>w. plain w \<or> w = ''..'') ws" "\<not> contains (path_string (False, ws)) ''..''"
  shows "list_all plain ws"
proof -
  have "''..'' \<notin> set ws"
  proof
    assume "''..'' \<in> set ws"
    then obtain a b where "join ''/'' ws = a @ ''..'' @ b"
      using join_member [of "''..''" ws "''/''"] by blast
    moreover have "ws \<noteq> []" using \<open>''..'' \<in> set ws\<close> by auto
    ultimately have "path_string (False, ws) = a @ ''..'' @ b" by (simp add: path_string_def)
    with contains_append assms(2) show False by metis
  qed
  with assms(1) show ?thesis by (auto simp: list_all_iff)
qed

lemma join_dot: "filepath_Join [b, ''.''] = object_path b []"
proof (cases "b = []")
  case False
  then show ?thesis
    by (simp add: filepath_Join_def object_path_def base_path_def filepath_Clean_def is_abs_def
        split_slash_append clean_step_def)
qed (simp add: filepath_Join_def object_path_def base_path_def filepath_Clean_def is_abs_def clean_step_def)

lemma contains_dots: "contains s ''..'' \<Longrightarrow> 2 \<le> length (filter ((=) (CHR ''.'')) s)"
proof -
  assume "contains s ''..''"
  then obtain i where "take 2 (drop i s) = ''..''" by (auto simp: contains_def list_ex_iff numeral_2_eq_2)
  then have "s = take i s @ ''..'' @ drop (i + 2) s"
    by (metis append_take_drop_id drop_drop add.commute)
  from arg_cong [OF this, of "\<lambda>x. length (filter ((=) (CHR ''.'')) x)"]
  have "length (filter ((=) (CHR ''.'')) s) =
      length (filter ((=) (CHR ''.'')) (take i s)) + 2 + length (filter ((=) (CHR ''.'')) (drop (i + 2) s))"
    unfolding filter_append length_append by (simp only: filter.simps list.size if_True simp_thms)
  then show ?thesis by linarith
qed

lemma key_path:
  assumes "safe_id i" "plain d" "CHR ''.'' \<notin> set d" "ext = ''json'' \<or> ext = ''jsonl''"
  shows "filepath_Clean (d @ ''/'' @ i @ ''.'' @ ext) = (False, [d, i @ ''.'' @ ext])"
    and "path_string (filepath_Join [d, i @ ''.'' @ ext]) = d @ ''/'' @ i @ ''.'' @ ext"
    and "filepath_Join [b, d @ ''/'' @ i @ ''.'' @ ext] = object_path b [d, i @ ''.'' @ ext]"
    and "\<not> contains (d @ ''/'' @ i @ ''.'' @ ext) ''..''"
proof -
  let ?ws = "[d, i @ ''.'' @ ext]"
  have ws: "list_all plain ?ws" using assms by (auto simp: plain_def safe_id_def)
  have j: "join ''/'' ?ws = d @ ''/'' @ i @ ''.'' @ ext" by simp
  show c: "filepath_Clean (d @ ''/'' @ i @ ''.'' @ ext) = (False, ?ws)"
    using clean_join_plain [of ?ws] ws j by simp
  have "filepath_Join ?ws = (False, ?ws)"
    using c assms(2) j by (simp add: filepath_Join_def plain_def)
  then show "path_string (filepath_Join ?ws) = d @ ''/'' @ i @ ''.'' @ ext"
    by (simp add: path_string_def)
  show "filepath_Join [b, d @ ''/'' @ i @ ''.'' @ ext] = object_path b ?ws"
    using join_base [of ?ws b] ws j by simp
  have "filter ((=) (CHR ''.'')) d = []" "filter ((=) (CHR ''.'')) i = []"
    using assms(1,3) by (auto simp: safe_id_def filter_empty_conv)
  then show "\<not> contains (d @ ''/'' @ i @ ''.'' @ ext) ''..''"
    using contains_dots [of "d @ ''/'' @ i @ ''.'' @ ext"] assms(4) by auto
qed

lemma Get_iff:
  assumes "ld_inv s"
  shows "Get s k = Inr c \<longleftrightarrow> \<not> contains (path_string (filepath_Clean k)) ''..''
    \<and> \<not> is_abs (path_string (filepath_Clean k))
    \<and> (\<exists>m. map_of (LD_files s) (target_of s (path_string (filepath_Clean k))) = Some (c, m))"
  using assms by (auto simp: Get_def ld_inv_def target_of_def Let_def split: option.splits if_splits)

lemma Get_step:
  assumes "ld_inv s" "writeImmutable s rel data = (e, s')" "Get s k = Inr c"
  shows "Get s' k = Inr c"
proof -
  note step = writeImmutable_step [OF assms(1,2)]
  then have t: "target_of s' = target_of s" by (simp add: target_of_def fun_eq_iff)
  have "map_of (LD_files s') p = Some f" if "map_of (LD_files s) p = Some f" for p f
    using step that by (metis domI map_le_def)
  with Get_iff [OF assms(1), of k c] assms(3) step t show ?thesis
    by (simp only: Get_iff [of s']) blast
qed

lemma Get_object:
  assumes "ld_inv s" "filepath_Clean k = (False, ws)" "path_string (False, ws) = k"
    "\<not> contains k ''..''" "k \<noteq> []" "hd k \<noteq> SLASH"
  shows "Get s k = Inr c \<longleftrightarrow> (\<exists>m. map_of (LD_files s) (target_of s k) = Some (c, m))"
  using assms by (simp add: Get_iff is_abs_def)

lemma put_safe:
  assumes "safe_id i"
  shows "PutCheckpoint s i d = writeImmutable s (checkpoint_key i) d"
    and "PutArchive s i d = writeImmutable s (archive_key i) d"
    and "ld_inv s \<Longrightarrow> Get s (checkpoint_key i) = Inr c \<longleftrightarrow>
           (\<exists>m. map_of (LD_files s) (target_of s (checkpoint_key i)) = Some (c, m))"
    and "ld_inv s \<Longrightarrow> Get s (archive_key i) = Inr c \<longleftrightarrow>
           (\<exists>m. map_of (LD_files s) (target_of s (archive_key i)) = Some (c, m))"
proof -
  have p: "plain ''checkpoints''" "plain ''archives''" by (simp_all add: plain_def)
  note ck = key_path [of i "''checkpoints''" "''json''", OF assms p(1)]
  note ar = key_path [of i "''archives''" "''jsonl''", OF assms p(2)]
  show "PutCheckpoint s i d = writeImmutable s (checkpoint_key i) d"
    using ck(2) by (simp add: PutCheckpoint_def checkpoint_key_def)
  show "PutArchive s i d = writeImmutable s (archive_key i) d"
    using ar(2) by (simp add: PutArchive_def archive_key_def)
  show "Get s (checkpoint_key i) = Inr c \<longleftrightarrow>
      (\<exists>m. map_of (LD_files s) (target_of s (checkpoint_key i)) = Some (c, m))" if "ld_inv s"
    using ck(1,4) that by (intro Get_object [of _ _ "[''checkpoints'', i @ ''.json'']"])
      (simp_all add: checkpoint_key_def path_string_def)
  show "Get s (archive_key i) = Inr c \<longleftrightarrow>
      (\<exists>m. map_of (LD_files s) (target_of s (archive_key i)) = Some (c, m))" if "ld_inv s"
    using ar(1,4) that by (intro Get_object [of _ _ "[''archives'', i @ ''.jsonl'']"])
      (simp_all add: archive_key_def path_string_def)
qed

lemma target_of_base: "LD_baseDir s' = LD_baseDir s \<Longrightarrow> target_of s' k = target_of s k"
  by (simp add: target_of_def)

lemma written_file:
  assumes "ld_inv s" "writeImmutable s k d = (None, s')"
  shows "ld_inv s'" "map_of (LD_files s') (target_of s' k) = Some (d, mode_0444)"
  using writeImmutable_step [OF assms] by (auto simp: target_of_def)

lemma write_refused:
  assumes "ld_inv s" "writeImmutable s k d = (e, s')" "map_of (LD_files s) (target_of s k) = Some f"
  shows "\<exists>err. e = Some err \<and> errors_Is err ErrObjectExists"
  using writeImmutable_step [OF assms(1,2)] assms(3) by (auto simp: errors_Is.simps [of "WrapPre _ _"])

interpretation lda: archive_contract local_dir_archive ld_inv
proof unfold_locales
  fix s i d e s'
  assume s: "ld_inv s"
  show "ar_PutCheckpoint local_dir_archive s i d = (e, s') \<Longrightarrow> ld_inv s'"
    using writeImmutable_step [OF s] by (auto simp: local_dir_archive_def PutCheckpoint_def)
  show "ar_PutArchive local_dir_archive s i d = (e, s') \<Longrightarrow> ld_inv s'"
    using writeImmutable_step [OF s] by (auto simp: local_dir_archive_def PutArchive_def)
next
  fix s i d s'
  assume s: "ld_inv s" "safe_id i"
  show "ar_PutCheckpoint local_dir_archive s i d = (None, s') \<Longrightarrow>
      ar_Get local_dir_archive s' (checkpoint_key i) = Inr d"
    using written_file [OF s(1), of "checkpoint_key i" d s'] put_safe(1) [OF s(2)] put_safe(3) [OF s(2), of s' d]
    by (simp add: local_dir_archive_def)
  show "ar_PutArchive local_dir_archive s i d = (None, s') \<Longrightarrow>
      ar_Get local_dir_archive s' (archive_key i) = Inr d"
    using written_file [OF s(1), of "archive_key i" d s'] put_safe(2) [OF s(2)] put_safe(4) [OF s(2), of s' d]
    by (simp add: local_dir_archive_def)
next
  fix s k c i d e s'
  assume s: "ld_inv s" "ar_Get local_dir_archive s k = Inr c"
  then have g: "Get s k = Inr c" by (simp add: local_dir_archive_def)
  show "ar_PutCheckpoint local_dir_archive s i d = (e, s') \<Longrightarrow> ar_Get local_dir_archive s' k = Inr c"
    using Get_step [OF s(1) _ g] by (auto simp: local_dir_archive_def PutCheckpoint_def)
  show "ar_PutArchive local_dir_archive s i d = (e, s') \<Longrightarrow> ar_Get local_dir_archive s' k = Inr c"
    using Get_step [OF s(1) _ g] by (auto simp: local_dir_archive_def PutArchive_def)
next
  fix s i c d e s'
  assume s: "ld_inv s" "safe_id i"
  show "ar_Get local_dir_archive s (checkpoint_key i) = Inr c \<Longrightarrow> ar_PutCheckpoint local_dir_archive s i d = (e, s') \<Longrightarrow>
      \<exists>err. e = Some err \<and> errors_Is err ErrObjectExists"
    using put_safe(3) [OF s(2,1), of c] put_safe(1) [OF s(2), of s d] write_refused [OF s(1)]
    by (auto simp: local_dir_archive_def)
  show "ar_Get local_dir_archive s (archive_key i) = Inr c \<Longrightarrow> ar_PutArchive local_dir_archive s i d = (e, s') \<Longrightarrow>
      \<exists>err. e = Some err \<and> errors_Is err ErrObjectExists"
    using put_safe(4) [OF s(2,1), of c] put_safe(2) [OF s(2), of s d] write_refused [OF s(1)]
    by (auto simp: local_dir_archive_def)
qed

section \<open>Properties\<close>

text \<open>
  C6: The archive is write-once as long as \<open>Stat\<close> does not fail. If no \<open>Stat\<close> of any write fails and files
  can be read (this is \<open>ld_inv\<close>), then after a checkpoint is written, \<open>Get\<close> returns it after any further
  sequence of checkpoint and archive writes, successful or failed at any other system call, and
  writing the same checkpoint again is refused with \<open>ErrObjectExists\<close>. What happens when \<open>Stat\<close> fails is
  \<open>stat_failure_overwrites\<close>.
\<close>

theorem archive_write_once:
  assumes "ld_inv s" "safe_id i" "PutCheckpoint s i d = (None, s')"
    and "s'' = put_all local_dir_archive ps s'"
  shows "Get s'' (checkpoint_key i) = Inr d
    \<and> (\<exists>err. fst (PutCheckpoint s'' i d') = Some err \<and> errors_Is err ErrObjectExists)"
proof -
  let ?A = local_dir_archive
  have put: "ar_PutCheckpoint ?A s i d = (None, s')" using assms(3) by (simp add: local_dir_archive_def)
  have inv': "ld_inv s'" using lda.put_checkpoint_inv [OF assms(1) put] .
  have inv'': "ld_inv s''" unfolding assms(4) using inv' lda.put_all_inv by blast
  have get: "ar_Get ?A s'' (checkpoint_key i) = Inr d"
    unfolding assms(4) using lda.put_all_keeps [OF inv'] lda.put_checkpoint_get [OF assms(1,2) put] by blast
  obtain e t where w: "ar_PutCheckpoint ?A s'' i d' = (e, t)" by fastforce
  have "\<exists>err. e = Some err \<and> errors_Is err ErrObjectExists"
    using lda.put_checkpoint_refused [OF inv'' assms(2) get w] .
  with get w show ?thesis by (simp add: local_dir_archive_def)
qed

definition empty_archive :: "write_io list \<Rightarrow> LocalDirArchiveStore" where
  "empty_archive plan = \<lparr>LD_baseDir = ''data'', LD_files = [],
     LD_dirs = [(False, [''data'']), (False, [''data'', ''checkpoints'']), (False, [''data'', ''archives''])],
     LD_plan = plan, LD_read_fault = (\<lambda>_. None)\<rparr>"

lemmas archive_eval = empty_archive_def PutCheckpoint_def PutArchive_def writeImmutable_def
  write_with_def filepath_Join_def filepath_Clean_def is_abs_def clean_step_def path_string_def
  filepath_Dir_def temp_path_def exists_at_def io_ok_def put_file_def remove_file_def clean_up_def

lemma sample_put: "fst (PutCheckpoint (empty_archive []) ''b1'' [1, 2]) = None"
  by (simp add: archive_eval Let_def)

theorem archive_write_once_witness:
  "Get (put_all local_dir_archive [(True, ''b1'', [9]), (False, ''b2'', [8])]
      (snd (PutCheckpoint (empty_archive []) ''b1'' [1, 2]))) (checkpoint_key ''b1'') = Inr [1, 2]"
proof -
  have "PutCheckpoint (empty_archive []) ''b1'' [1, 2] =
      (None, snd (PutCheckpoint (empty_archive []) ''b1'' [1, 2]))"
    using sample_put by (metis prod.collapse)
  moreover have "ld_inv (empty_archive [])" "safe_id ''b1''"
    by (simp_all add: ld_inv_def empty_archive_def safe_id_def)
  ultimately show ?thesis using archive_write_once by blast
qed

text \<open>
  A \<open>Stat\<close> that fails opens the way for an overwrite: whatever object is stored for the identifier,
  writing a checkpoint then succeeds, if the remaining system calls do, and replaces it.
\<close>

theorem stat_failure_overwrites:
  assumes "LD_plan s = (io_ok suffix)\<lparr>io_stat := Some e\<rparr> # plan" "ld_inv (s\<lparr>LD_plan := plan\<rparr>)" "safe_id i"
    and "object_path (LD_baseDir s) [''checkpoints''] \<in> set (LD_dirs s)"
    and "\<not> exists_at s (object_path (LD_baseDir s) [''checkpoints'', ''worm-tmp-'' @ suffix])"
    and "object_path (LD_baseDir s) [''checkpoints'', i @ ''.json''] \<notin> set (LD_dirs s)"
  shows "\<exists>s'. PutCheckpoint s i d = (None, s') \<and> Get s' (checkpoint_key i) = Inr d"
proof -
  let ?s = "s\<lparr>LD_plan := plan\<rparr>" and ?io = "(io_ok suffix)\<lparr>io_stat := Some e\<rparr>"
  have "plain ''checkpoints''" "plain (i @ ''.json'')" using assms(3) by (auto simp: plain_def safe_id_def append_eq_Cons_conv)
  then have target: "filepath_Join [LD_baseDir s, checkpoint_key i] = object_path (LD_baseDir s) [''checkpoints'', i @ ''.json'']"
    using join_base [of "[''checkpoints'', i @ ''.json'']" "LD_baseDir s"] by (simp add: checkpoint_key_def)
  have temp: "temp_path (object_path (LD_baseDir s) [''checkpoints'']) suffix = object_path (LD_baseDir s) [''checkpoints'', ''worm-tmp-'' @ suffix]"
    by (simp add: temp_path_def object_path_def)
  have "\<exists>s'. write_with ?io (checkpoint_key i) d ?s = (None, s')"
    using assms(4-6) by (simp add: write_with_def Let_def target temp filepath_Dir_object io_ok_def exists_at_def)
  then obtain s' where w: "write_with ?io (checkpoint_key i) d ?s = (None, s')" by blast
  have put: "PutCheckpoint s i d = (None, s')" using put_safe(1) [OF assms(3)] assms(1) w by (simp add: writeImmutable_def)
  have "ld_inv s'" using write_frame [OF w] assms(2) by (simp add: ld_inv_def)
  moreover have "map_of (LD_files s') (target_of s' (checkpoint_key i)) = Some (d, mode_0444)"
    using write_ok [OF w] write_frame [OF w] by (simp add: target_of_def)
  ultimately show ?thesis using put put_safe(3) [OF assms(3)] by blast
qed

theorem stat_failure_overwrites_witness:
  "\<exists>s s'. Get s (checkpoint_key ''b1'') = Inr [1, 2] \<and> PutCheckpoint s ''b1'' [9] = (None, s')
     \<and> Get s' (checkpoint_key ''b1'') = Inr [9]"
proof -
  let ?io = "(io_ok ''1'')\<lparr>io_stat := Some (NewErr ''EIO'')\<rparr>"
  let ?s = "snd (PutCheckpoint (empty_archive [io_ok ''0'', ?io]) ''b1'' [1, 2])"
  have g: "Get ?s (checkpoint_key ''b1'') = Inr [1, 2]"
    by (simp add: archive_eval Let_def checkpoint_key_def Get_def contains_def)
  have "\<exists>s'. PutCheckpoint ?s ''b1'' [9] = (None, s') \<and> Get s' (checkpoint_key ''b1'') = Inr [9]"
    by (rule stat_failure_overwrites [where suffix = "''1''" and e = "NewErr ''EIO''" and plan = "[]"])
      (simp_all add: archive_eval Let_def ld_inv_def safe_id_def object_path_def base_path_def)
  with g show ?thesis by blast
qed

text \<open>
  C21: \<open>Get\<close> cannot be made to leave the archive: whatever key it is given, the bytes it returns
  are those of a file whose path extends the base directory by ordinary components, none of
  them empty, \<open>.\<close> or \<open>..\<close>.
\<close>

theorem Get_confined:
  assumes "Get s key = Inr data"
  shows "\<exists>ws mode. list_all plain ws
    \<and> map_of (LD_files s) (object_path (LD_baseDir s) ws) = Some (data, mode)"
proof -
  obtain ws where ws: "filepath_Clean key = (is_abs key, ws)" by (simp add: filepath_Clean_def)
  let ?k = "path_string (is_abs key, ws)"
  have g: "\<not> contains ?k ''..''" "\<not> is_abs ?k"
      "\<exists>m. map_of (LD_files s) (filepath_Join [LD_baseDir s, ?k]) = Some (data, m)"
    using assms ws by (auto simp: Get_def Let_def split: if_splits option.splits)
  have rel: "\<not> is_abs key" using g(2) by (auto simp: path_string_def is_abs_def split: if_splits)
  have "list_all plain ws" using clean_components [OF ws] g(1) rel path_string_dots by auto
  moreover have "filepath_Join [LD_baseDir s, ?k] = object_path (LD_baseDir s) ws"
    using rel calculation join_base [of ws "LD_baseDir s"] join_dot
    by (cases "ws = []") (simp_all add: path_string_def)
  ultimately show ?thesis using g(3) by auto
qed

theorem Get_confined_witness:
  "\<exists>ws mode. list_all plain ws
    \<and> map_of (LD_files (snd (PutCheckpoint (empty_archive []) ''b1'' [1, 2]))) (object_path ''data'' ws)
        = Some ([1, 2], mode)"
proof -
  let ?s = "snd (PutCheckpoint (empty_archive []) ''b1'' [1, 2])"
  have "Get ?s ''./archives/../checkpoints/b1.json'' = Inr [1, 2]"
    by (simp add: archive_eval Let_def Get_def contains_def upt_rec)
  from Get_confined [OF this] show ?thesis by (simp add: archive_eval Let_def)
qed

text \<open>
  A write that returns an error leaves the directory as it was, with one exception: when
  only the final \<open>Chmod\<close> fails, the object is already in place (and writable), although the
  caller is told that the write failed. (The removal of the temporary file is assumed to work.)
\<close>

theorem write_error_atomic:
  assumes "write_with io rel data s = (Some err, s')" "io_remove io = None"
  shows "map_of (LD_files s') =
    (if \<exists>e. err = Wrapf (''failed to set read-only permissions on '' @ path_string (target_of s rel)) e
     then (map_of (LD_files s))(target_of s rel \<mapsto> (data, mode_0600)) else map_of (LD_files s))"
  using assms unfolding write_with_def Let_def target_of_def
  by (auto simp: put_file_def remove_file_def clean_up_def update_conv' delete_conv' absent_upd
      split: if_splits option.splits)

theorem write_error_atomic_witness:
  "\<exists>s'. write_with ((io_ok ''0'')\<lparr>io_chmod := Some (NewErr ''EPERM'')\<rparr>) ''checkpoints/b1.json'' [7] (empty_archive [])
      = (Some (Wrapf ''failed to set read-only permissions on data/checkpoints/b1.json'' (NewErr ''EPERM'')), s')
    \<and> map_of (LD_files s') = [(False, [''data'', ''checkpoints'', ''b1.json'']) \<mapsto> ([7], mode_0600)]"
proof -
  let ?io = "(io_ok ''0'')\<lparr>io_chmod := Some (NewErr ''EPERM'')\<rparr>"
  have w: "write_with ?io ''checkpoints/b1.json'' [7] (empty_archive []) =
      (Some (Wrapf ''failed to set read-only permissions on data/checkpoints/b1.json'' (NewErr ''EPERM'')),
       snd (write_with ?io ''checkpoints/b1.json'' [7] (empty_archive [])))"
    by (simp add: archive_eval Let_def)
  have t: "target_of (empty_archive []) ''checkpoints/b1.json'' = (False, [''data'', ''checkpoints'', ''b1.json''])"
    by (simp add: archive_eval target_of_def)
  from write_error_atomic [OF w] t have "map_of (LD_files (snd (write_with ?io ''checkpoints/b1.json'' [7] (empty_archive []))))
      = [(False, [''data'', ''checkpoints'', ''b1.json'']) \<mapsto> ([7], mode_0600)]"
    by (simp add: io_ok_def path_string_def empty_archive_def)
  with w show ?thesis by blast
qed

end
