(* ===== verification/Keyfile.thy ===== *)
theory Keyfile
  imports Signing Archive ReadBack
begin

text \<open>
  The encrypted keyfile of \<open>internal/signing/signing.go\<close>: \<open>GenerateAndSaveKeyfile\<close> and
  \<open>LoadKeyfile\<close>, over the JSON encoder and decoder of the model.

  Argon2 is the parameter \<open>kdf\<close> (passphrase and salt to key); the code relies on it being a
  function with 32-byte results. What the random source delivers and what the system calls
  do are arguments. The lemmas show that a generated keyfile loads again.
\<close>

section \<open>Model\<close>

type_synonym kdf = "bytes \<Rightarrow> bytes \<Rightarrow> bytes"
type_synonym disk = "(string, bytes \<times> nat) gomap"

record KeyfileEnvelope =
  KE_Salt :: string
  KE_Nonce :: string
  KE_Ciphertext :: string

record KeyfilePayload =
  KP_Version :: string
  KP_Ed25519PrivateKey :: string
  KP_Ed25519PublicKey :: string
  KP_AES256Key :: string
  KP_HistoricalPublicKeys :: "(string, string) gomap"

text \<open>
  What generating a keyfile draws: the key pair (public and private), the AES key, the salt, the
  nonce, and how the write ends. A failed write may leave the file truncated or cut short.
\<close>

record gen_env =
  ge_keypair :: "(bytes \<times> bytes) result"
  ge_aes :: "bytes result"
  ge_salt :: "bytes result"
  ge_nonce :: "bytes result"
  ge_write :: "(go_error \<times> bytes option) option"

text \<open>The JSON of the two structures; an empty map of historical keys is left out.\<close>

definition marshal_keys :: "KeyfilePayload \<Rightarrow> string" where
  "marshal_keys p =
     ''{'' @ json_key ''version'' @ quote (KP_Version p)
     @ '','' @ json_key ''ed25519_private_key'' @ quote (KP_Ed25519PrivateKey p)
     @ '','' @ json_key ''ed25519_public_key'' @ quote (KP_Ed25519PublicKey p)
     @ '','' @ json_key ''aes256_key'' @ quote (KP_AES256Key p)
     @ (if KP_HistoricalPublicKeys p = [] then []
        else '','' @ json_key ''historical_public_keys'' @ ''{''
          @ join '','' (map (\<lambda>(k, v). quote k @ '':'' @ quote v) (sort_key fst (KP_HistoricalPublicKeys p))) @ ''}'')
     @ ''}''"

definition marshal_envelope :: "KeyfileEnvelope \<Rightarrow> string" where
  "marshal_envelope e = indent_fields
     [(''salt'', quote (KE_Salt e)), (''nonce'', quote (KE_Nonce e)), (''ciphertext'', quote (KE_Ciphertext e))]"

text \<open>\<open>os.WriteFile\<close>: the mode only counts when the file is created.\<close>

definition put_disk :: "string \<Rightarrow> bytes \<Rightarrow> disk \<Rightarrow> disk" where
  "put_disk path data files =
     AList.update path (data, case map_of files path of Some (_, mode) \<Rightarrow> mode | None \<Rightarrow> mode_0600) files"

definition os_WriteFile :: "(go_error \<times> bytes option) option \<Rightarrow> string \<Rightarrow> bytes \<Rightarrow> disk \<Rightarrow> go_error option \<times> disk" where
  "os_WriteFile outcome path data files =
     (case outcome of
        None \<Rightarrow> (None, put_disk path data files)
      | Some (err, None) \<Rightarrow> (Some err, files)
      | Some (err, Some left) \<Rightarrow> (Some err, put_disk path left files))"

definition make_payload :: "string \<Rightarrow> bytes \<Rightarrow> bytes \<Rightarrow> bytes \<Rightarrow> KeyfilePayload" where
  "make_payload version privKey pubKey aesKey =
     \<lparr>KP_Version = version, KP_Ed25519PrivateKey = b64_encode privKey, KP_Ed25519PublicKey = b64_encode pubKey,
      KP_AES256Key = b64_encode aesKey, KP_HistoricalPublicKeys = []\<rparr>"

definition keyfile_text :: "crypto_api \<Rightarrow> bytes \<Rightarrow> bytes \<Rightarrow> bytes \<Rightarrow> KeyfilePayload \<Rightarrow> bytes" where
  "keyfile_text c block salt nonce payload =
     bytes_of (marshal_envelope \<lparr>KE_Salt = b64_encode salt, KE_Nonce = b64_encode nonce,
       KE_Ciphertext = b64_encode (gcm_seal c block nonce (bytes_of (marshal_keys payload)))\<rparr>)"

definition GenerateAndSaveKeyfile ::
  "crypto_api \<Rightarrow> kdf \<Rightarrow> gen_env \<Rightarrow> string \<Rightarrow> string \<Rightarrow> string \<Rightarrow> disk \<Rightarrow> LocalKeyManager result \<times> disk" where
  "GenerateAndSaveKeyfile c kdf env filePath passphrase version files =
     (let version = (if version = [] then ''v1'' else version) in
      case result_bind (wrap_err ''failed to generate Ed25519 keypair'' (ge_keypair env)) (\<lambda>(pubKey, privKey).
           result_bind (wrap_err ''failed to generate AES key'' (ge_aes env)) (\<lambda>aesKey.
           result_bind (wrap_err ''failed to generate salt'' (ge_salt env)) (\<lambda>salt.
           result_bind (wrap_err ''failed to create cipher'' (aes_NewCipher (kdf (bytes_of passphrase) salt))) (\<lambda>block.
           result_bind (wrap_err ''failed to generate nonce'' (ge_nonce env)) (\<lambda>nonce.
             Inr (\<lparr>KM_version = version, KM_privateKey = privKey, KM_publicKey = pubKey, KM_aesKey = aesKey,
                   KM_historicalPublicKeys = []\<rparr>,
                  keyfile_text c block salt nonce (make_payload version privKey pubKey aesKey))))))) of
        Inl err \<Rightarrow> (Inl err, files)
      | Inr (m, text) \<Rightarrow>
          (case os_WriteFile (ge_write env) filePath text files of
             (Some err, files) \<Rightarrow> (Inl (Wrapf ''failed to write keyfile'' err), files)
           | (None, files) \<Rightarrow> (Inr m, files)))"

definition b64_DecodeString :: "string \<Rightarrow> bytes result" where
  "b64_DecodeString s = (case b64_decode s of None \<Rightarrow> Inl (NewErr ''illegal base64 data'') | Some b \<Rightarrow> Inr b)"

text \<open>\<open>gcm.Open\<close> panics on a nonce of the wrong length.\<close>

definition open_payload :: "crypto_api \<Rightarrow> bytes \<Rightarrow> bytes \<Rightarrow> bytes \<Rightarrow> bytes result" where
  "open_payload c block nonce ciphertext =
     (if length nonce \<noteq> NonceSize then Inl (Panic ''crypto/cipher: incorrect nonce length given to GCM'')
      else case gcm_open c block nonce ciphertext of
        None \<Rightarrow> Inl ErrInvalidPassphrase
      | Some plaintext \<Rightarrow> Inr plaintext)"

definition unmarshal_envelope :: "string \<Rightarrow> KeyfileEnvelope result" where
  "unmarshal_envelope s =
     result_bind (unmarshal_fields [''salt'', ''nonce'', ''ciphertext''] [] s) (\<lambda>f.
       Inr \<lparr>KE_Salt = str_field f ''salt'', KE_Nonce = str_field f ''nonce'', KE_Ciphertext = str_field f ''ciphertext''\<rparr>)"

definition unmarshal_keys :: "string \<Rightarrow> KeyfilePayload result" where
  "unmarshal_keys s =
     result_bind (unmarshal_fields [''version'', ''ed25519_private_key'', ''ed25519_public_key'', ''aes256_key'']
         [''historical_public_keys''] s) (\<lambda>f.
       Inr \<lparr>KP_Version = str_field f ''version'', KP_Ed25519PrivateKey = str_field f ''ed25519_private_key'',
            KP_Ed25519PublicKey = str_field f ''ed25519_public_key'', KP_AES256Key = str_field f ''aes256_key'',
            KP_HistoricalPublicKeys = map_field f ''historical_public_keys''\<rparr>)"

text \<open>A historical key that is no base64 is skipped.\<close>

definition hist_keys :: "(string, string) gomap \<Rightarrow> (string, bytes) gomap" where
  "hist_keys m = List.map_filter (\<lambda>(ver, b64Pub). map_option (\<lambda>p. (ver, p)) (b64_decode b64Pub)) m"

definition LoadKeyfile ::
  "crypto_api \<Rightarrow> kdf \<Rightarrow> go_error option \<Rightarrow> string \<Rightarrow> string \<Rightarrow> disk \<Rightarrow> LocalKeyManager result" where
  "LoadKeyfile c kdf read_fault filePath passphrase files =
     result_bind (wrap_err ''failed to read keyfile''
         (case read_fault of Some err \<Rightarrow> Inl err
          | None \<Rightarrow> (case map_of files filePath of None \<Rightarrow> Inl (NewErr (''open '' @ filePath @ '': no such file or directory''))
                     | Some (data, _) \<Rightarrow> Inr data))) (\<lambda>data.
     result_bind (wrap_err ''invalid keyfile format'' (unmarshal_envelope (string_of data))) (\<lambda>envelope.
     result_bind (wrap_err ''invalid salt in keyfile'' (b64_DecodeString (KE_Salt envelope))) (\<lambda>salt.
     result_bind (wrap_err ''invalid nonce in keyfile'' (b64_DecodeString (KE_Nonce envelope))) (\<lambda>nonce.
     result_bind (wrap_err ''invalid ciphertext in keyfile'' (b64_DecodeString (KE_Ciphertext envelope))) (\<lambda>ciphertext.
     result_bind (wrap_err ''failed to create cipher'' (aes_NewCipher (kdf (bytes_of passphrase) salt))) (\<lambda>block.
     result_bind (open_payload c block nonce ciphertext) (\<lambda>plaintext.
     result_bind (wrap_err ''corrupted keyfile payload'' (unmarshal_keys (string_of plaintext))) (\<lambda>payload.
     result_bind (wrap_err ''invalid private key in keyfile'' (b64_DecodeString (KP_Ed25519PrivateKey payload))) (\<lambda>privKey.
     result_bind (wrap_err ''invalid public key in keyfile'' (b64_DecodeString (KP_Ed25519PublicKey payload))) (\<lambda>pubKey.
     result_bind (wrap_err ''invalid AES key in keyfile'' (b64_DecodeString (KP_AES256Key payload))) (\<lambda>aesKey.
       Inr \<lparr>KM_version = KP_Version payload, KM_privateKey = privKey, KM_publicKey = pubKey, KM_aesKey = aesKey,
            KM_historicalPublicKeys = hist_keys (KP_HistoricalPublicKeys payload)\<rparr>)))))))))))"

section \<open>Reading the two structures back\<close>

lemma b64_ascii: "c \<in> set (b64_encode bs) \<Longrightarrow> code c < 0x80"
proof -
  have "code (b64_char n) < 0x80" if "n < 64" for n
    using of_char_b64_char [OF that] that by (auto simp: b64_code_def)
  then show "c \<in> set (b64_encode bs) \<Longrightarrow> code c < 0x80"
    by (induction bs rule: b64_encode.induct) (auto simp: b64_groups)
qed

lemma valid_utf8_b64 [simp]: "valid_utf8 (b64_encode bs)"
  by (rule valid_utf8_ascii) (rule b64_ascii)

lemma valid_utf8_names [simp]:
  "valid_utf8 ''salt''" "valid_utf8 ''nonce''" "valid_utf8 ''ciphertext''" "valid_utf8 ''version''"
  "valid_utf8 ''ed25519_private_key''" "valid_utf8 ''ed25519_public_key''" "valid_utf8 ''aes256_key''"
  by simp_all

lemma unmarshal_marshal_envelope:
  assumes "valid_utf8 (KE_Salt e)" "valid_utf8 (KE_Nonce e)" "valid_utf8 (KE_Ciphertext e)"
  shows "unmarshal_envelope (marshal_envelope e) = Inr e"
proof -
  let ?kvs = "[(''salt'', KE_Salt e), (''nonce'', KE_Nonce e), (''ciphertext'', KE_Ciphertext e)]"
  have "marshal_envelope e = ''{'' @ members_text (CHR 0x0A # ''  '') '' '' [CHR 0x0A] ?kvs"
    by (simp add: marshal_envelope_def indent_fields_def quote_def quote_body_Cons escape_ascii_def html_special_def)
  moreover have "unmarshal_fields [''salt'', ''nonce'', ''ciphertext''] [] (''{'' @ members_text (CHR 0x0A # ''  '') '' '' [CHR 0x0A] ?kvs)
      = Inr \<lparr>F_strs = fold (\<lambda>(k, v). AList.update k v) ?kvs [], F_maps = [], F_bad = False\<rparr>"
    by (rule unmarshal_string_object) (use assms in \<open>simp_all add: blank_def is_space_def\<close>)
  ultimately show ?thesis by (simp add: unmarshal_envelope_def str_field_def the_default_def)
qed

lemma unmarshal_marshal_keys:
  assumes "valid_utf8 (KP_Version p)" "valid_utf8 (KP_Ed25519PrivateKey p)" "valid_utf8 (KP_Ed25519PublicKey p)"
    "valid_utf8 (KP_AES256Key p)" "KP_HistoricalPublicKeys p = []"
  shows "unmarshal_keys (marshal_keys p) = Inr p"
proof -
  let ?kvs = "[(''version'', KP_Version p), (''ed25519_private_key'', KP_Ed25519PrivateKey p),
    (''ed25519_public_key'', KP_Ed25519PublicKey p), (''aes256_key'', KP_AES256Key p)]"
  have "marshal_keys p = ''{'' @ members_text [] [] [] ?kvs"
    using assms(5) by (simp add: marshal_keys_def json_key_def quote_def quote_body_Cons escape_ascii_def html_special_def)
  moreover have "unmarshal_fields [''version'', ''ed25519_private_key'', ''ed25519_public_key'', ''aes256_key'']
      [''historical_public_keys''] (''{'' @ members_text [] [] [] ?kvs)
      = Inr \<lparr>F_strs = fold (\<lambda>(k, v). AList.update k v) ?kvs [], F_maps = [], F_bad = False\<rparr>"
    by (rule unmarshal_string_object) (use assms in \<open>simp_all add: blank_def\<close>)
  ultimately show ?thesis using assms(5)
    by (simp add: unmarshal_keys_def str_field_def map_field_def the_default_def)
qed

section \<open>Properties\<close>

lemma load_generated:
  assumes "GenerateAndSaveKeyfile c kdf env path pass version files = (Inr m, files')"
    and "ge_salt env = Inr salt" "ge_nonce env = Inr nonce" "length nonce = NonceSize"
    and "gcm_ok c" "\<And>p s. length (kdf p s) = 32" "valid_utf8 version"
  shows "LoadKeyfile c kdf None path pass files' = Inr m
    \<and> KM_version m = (if version = [] then ''v1'' else version)
    \<and> (if gcm_open c (kdf (bytes_of other) salt) nonce
            (gcm_seal c (kdf (bytes_of pass) salt) nonce
              (bytes_of (marshal_keys (make_payload (KM_version m) (KM_privateKey m) (KM_publicKey m) (KM_aesKey m))))) = None
       then LoadKeyfile c kdf None path other files' = Inl ErrInvalidPassphrase else True)
    \<and> (if map_of files path = None then map_option snd (map_of files' path) = Some mode_0600 else True)"
proof -
  let ?v = "if version = [] then ''v1'' else version"
  have ci: "aes_NewCipher (kdf p s) = Inr (kdf p s)" for p s by (simp add: aes_NewCipher_def assms(6))
  obtain pub priv aes where k: "ge_keypair env = Inr (pub, priv)" "ge_aes env = Inr aes"
    and m: "m = \<lparr>KM_version = ?v, KM_privateKey = priv, KM_publicKey = pub, KM_aesKey = aes, KM_historicalPublicKeys = []\<rparr>"
    and f: "files' = put_disk path (keyfile_text c (kdf (bytes_of pass) salt) salt nonce (make_payload ?v priv pub aes)) files"
    using assms(1-3) by (auto simp: GenerateAndSaveKeyfile_def Let_def os_WriteFile_def ci
        split: sum.splits option.splits)
  let ?p = "make_payload ?v priv pub aes" and ?block = "kdf (bytes_of pass) salt"
  let ?ct = "gcm_seal c ?block nonce (bytes_of (marshal_keys ?p))"
  have "valid_utf8 ?v" using assms(7) by simp
  then have keys: "unmarshal_keys (marshal_keys ?p) = Inr ?p"
    by (intro unmarshal_marshal_keys) (simp_all add: make_payload_def)
  have env: "unmarshal_envelope (string_of (keyfile_text c ?block salt nonce ?p))
      = Inr \<lparr>KE_Salt = b64_encode salt, KE_Nonce = b64_encode nonce, KE_Ciphertext = b64_encode ?ct\<rparr>"
    by (simp add: keyfile_text_def unmarshal_marshal_envelope)
  have disk: "\<exists>mode. map_of files' path = Some (keyfile_text c ?block salt nonce ?p, mode)
      \<and> (map_of files path = None \<longrightarrow> mode = mode_0600)"
    by (auto simp: f put_disk_def update_conv' split: option.splits)
  have load: "LoadKeyfile c kdf None path q files' =
      result_bind (open_payload c (kdf (bytes_of q) salt) nonce ?ct) (\<lambda>plaintext.
        result_bind (wrap_err ''corrupted keyfile payload'' (unmarshal_keys (string_of plaintext))) (\<lambda>payload.
        result_bind (wrap_err ''invalid private key in keyfile'' (b64_DecodeString (KP_Ed25519PrivateKey payload))) (\<lambda>privKey.
        result_bind (wrap_err ''invalid public key in keyfile'' (b64_DecodeString (KP_Ed25519PublicKey payload))) (\<lambda>pubKey.
        result_bind (wrap_err ''invalid AES key in keyfile'' (b64_DecodeString (KP_AES256Key payload))) (\<lambda>aesKey.
          Inr \<lparr>KM_version = KP_Version payload, KM_privateKey = privKey, KM_publicKey = pubKey, KM_aesKey = aesKey,
            KM_historicalPublicKeys = hist_keys (KP_HistoricalPublicKeys payload)\<rparr>)))))" for q
    using disk env by (auto simp: LoadKeyfile_def b64_DecodeString_def ci)
  have "open_payload c ?block nonce ?ct = Inr (bytes_of (marshal_keys ?p))"
    using assms(4,5) by (simp add: open_payload_def gcm_ok_def)
  then have "LoadKeyfile c kdf None path pass files' = Inr m"
    by (simp add: load keys) (simp add: make_payload_def b64_DecodeString_def hist_keys_def m List.map_filter_simps)
  moreover have "LoadKeyfile c kdf None path other files' = Inl ErrInvalidPassphrase"
    if "gcm_open c (kdf (bytes_of other) salt) nonce ?ct = None"
    using that assms(4) by (simp add: load open_payload_def)
  ultimately show ?thesis using disk by (auto simp: m)
qed

text \<open>
  C30: A keyfile that was generated loads again. With the passphrase it was generated with,
  \<open>LoadKeyfile\<close> returns the very manager \<open>GenerateAndSaveKeyfile\<close> returned; a passphrase whose
  derived key AES-GCM rejects gives \<open>ErrInvalidPassphrase\<close>; a new file is readable by its
  owner only. (The version has to be valid UTF-8: JSON replaces other bytes.)
\<close>

theorem LoadKeyfile_generated:
  assumes "GenerateAndSaveKeyfile c kdf env path pass version files = (Inr m, files')"
    and "ge_salt env = Inr salt" "ge_nonce env = Inr nonce" "length nonce = NonceSize"
    and "gcm_ok c" "\<And>p s. length (kdf p s) = 32" "valid_utf8 version"
  shows "LoadKeyfile c kdf None path pass files' = Inr m
    \<and> KM_version m = (if version = [] then ''v1'' else version)
    \<and> (if gcm_open c (kdf (bytes_of other) salt) nonce
            (gcm_seal c (kdf (bytes_of pass) salt) nonce
              (bytes_of (marshal_keys (make_payload (KM_version m) (KM_privateKey m) (KM_publicKey m) (KM_aesKey m))))) = None
       then LoadKeyfile c kdf None path other files' = Inl ErrInvalidPassphrase else True)
    \<and> (if map_of files path = None then map_option snd (map_of files' path) = Some mode_0600 else True)"
  using assms by (rule load_generated)

text \<open>A transparent instance that can tell keys apart: the sealed text is the key and the plaintext.\<close>

definition keyed_crypto :: crypto_api where
  "keyed_crypto = toy_crypto\<lparr>gcm_seal := (\<lambda>k n p. k @ p),
     gcm_open := (\<lambda>k n ct. if take (length k) ct = k then Some (drop (length k) ct) else None)\<rparr>"

definition sample_kdf :: kdf where
  "sample_kdf p s = take 32 (p @ replicate 32 0)"

definition sample_gen :: gen_env where
  "sample_gen = \<lparr>ge_keypair = Inr (replicate 32 9, replicate 32 7 @ replicate 32 9), ge_aes = Inr (replicate 32 1),
     ge_salt = Inr (replicate 16 2), ge_nonce = Inr (replicate 12 3), ge_write = None\<rparr>"

theorem LoadKeyfile_generated_witness:
  "\<exists>files'. GenerateAndSaveKeyfile keyed_crypto sample_kdf sample_gen ''k'' ''x'' [] [] = (Inr (toy_keys ''v1'' []), files')
     \<and> LoadKeyfile keyed_crypto sample_kdf None ''k'' ''x'' files' = Inr (toy_keys ''v1'' [])
     \<and> LoadKeyfile keyed_crypto sample_kdf None ''k'' ''y'' files' = Inl ErrInvalidPassphrase"
proof -
  obtain files' where g: "GenerateAndSaveKeyfile keyed_crypto sample_kdf sample_gen ''k'' ''x'' [] []
      = (Inr (toy_keys ''v1'' []), files')"
    by (simp add: GenerateAndSaveKeyfile_def Let_def os_WriteFile_def sample_gen_def aes_NewCipher_def
        sample_kdf_def toy_keys_def)
  have s: "ge_salt sample_gen = Inr (replicate 16 2)" "ge_nonce sample_gen = Inr (replicate 12 3)"
    "length (replicate 12 3 :: bytes) = NonceSize" "gcm_ok keyed_crypto"
    by (simp_all add: sample_gen_def NonceSize_def gcm_ok_def keyed_crypto_def)
  have k: "length (sample_kdf p q) = 32" for p q by (simp add: sample_kdf_def)
  have "gcm_open keyed_crypto (sample_kdf (bytes_of ''y'') t) n (gcm_seal keyed_crypto (sample_kdf (bytes_of ''x'') t) n q) = None"
    for t n q
    by (simp add: keyed_crypto_def sample_kdf_def bytes_of_def)
  with g LoadKeyfile_generated [OF g s k, of "''y''"] show ?thesis by auto
qed

end
