(* ===== verification/Store.thy ===== *)
theory Store
  imports Verifier
begin

text \<open>
  The data of \<open>internal/store/models.go\<close>, the interface \<open>Store\<close> of
  \<open>internal/store/store.go\<close> as a record of operations, and its in-memory implementation.

  Operations that write return an optional error and the new state; operations that read return
  a result. The locale \<open>store_contract\<close> states what the batcher, the verifier and the tiering
  job rely on; the section at the end interprets it on the in-memory store.
\<close>

section \<open>Data\<close>

record Batch =
  B_ID :: string
  B_StartedAt :: time
  B_ClosedAt :: time
  B_EventCount :: int
  B_MerkleRoot :: bytes
  B_Signature :: bytes
  B_KeyVersion :: string
  B_BinlogFile :: string
  B_BinlogPosition :: "32 word"
  B_Status :: string
  B_WORMObjectKey :: "string option"
  B_IsBootstrap :: bool
  B_BootstrapTableName :: "string option"

record Record =
  R_ID :: string
  R_BatchID :: string
  R_TableName :: string
  R_PrimaryKey :: string
  R_EventType :: string
  R_BeforeImage :: string
  R_AfterImage :: string
  R_ActorUserID :: "string option"
  R_ActorType :: string
  R_TransactionID :: string
  R_SchemaVersion :: string
  R_CommittedAt :: time
  R_MerkleLeafIndex :: int

record WORMIndexEntry =
  W_BatchID :: string
  W_WORMObjectKey :: string
  W_TieredAt :: time
  W_PurgedFromPostgresAt :: "time option"

text \<open>The interface \<open>Store\<close>; \<open>'s\<close> is the state of the implementation.\<close>

record 's StoreI =
  st_CreateBatch :: "'s \<Rightarrow> Batch \<Rightarrow> Record list \<Rightarrow> go_error option \<times> 's"
  st_GetBatch :: "'s \<Rightarrow> string \<Rightarrow> Batch result"
  st_UpdateBatchStatus :: "'s \<Rightarrow> string \<Rightarrow> string \<Rightarrow> string option \<Rightarrow> go_error option \<times> 's"
  st_GetLatestCheckpoint :: "'s \<Rightarrow> (string \<times> 32 word) result"
  st_GetBatchesForTiering :: "'s \<Rightarrow> time \<Rightarrow> Batch list result"
  st_ListBatches :: "'s \<Rightarrow> int \<Rightarrow> int \<Rightarrow> Batch list result"
  st_GetRecord :: "'s \<Rightarrow> string \<Rightarrow> Record result"
  st_GetRecordsByBatchID :: "'s \<Rightarrow> string \<Rightarrow> Record list result"
  st_GetRecordsByTableAndPK :: "'s \<Rightarrow> string \<Rightarrow> string \<Rightarrow> int \<Rightarrow> int \<Rightarrow> Record list result"
  st_DeleteRecordsByBatchID :: "'s \<Rightarrow> string \<Rightarrow> go_error option \<times> 's"
  st_InsertWORMIndex :: "'s \<Rightarrow> WORMIndexEntry \<Rightarrow> go_error option \<times> 's"
  st_GetWORMIndex :: "'s \<Rightarrow> string \<Rightarrow> WORMIndexEntry result"
  st_GetRecordForVerification :: "'s \<Rightarrow> string \<Rightarrow> fetched result"

text \<open>
  The canonical payload of a stored record. The code writes this structure out wherever it
  needs it; all copies are the same.
\<close>

definition record_payload :: "Record \<Rightarrow> RecordCanonicalPayload" where
  "record_payload r =
     \<lparr>P_ID = R_ID r, P_BatchID = R_BatchID r, P_TableName = R_TableName r,
      P_PrimaryKey = R_PrimaryKey r, P_EventType = R_EventType r,
      P_BeforeImage = R_BeforeImage r, P_AfterImage = R_AfterImage r,
      P_ActorUserID = R_ActorUserID r, P_ActorType = R_ActorType r,
      P_TransactionID = R_TransactionID r, P_SchemaVersion = R_SchemaVersion r,
      P_CommittedAt = format_RFC3339Nano (R_CommittedAt r),
      P_MerkleLeafIndex = R_MerkleLeafIndex r\<rparr>"

definition record_leaf :: "Record \<Rightarrow> bytes result" where
  "record_leaf r = ComputeRecordLeafHash (record_payload r)"

lemma record_payload_index [simp]: "P_MerkleLeafIndex (record_payload r) = R_MerkleLeafIndex r"
  by (simp add: record_payload_def)

lemma traverse_payload: "traverse ComputeRecordLeafHash (map record_payload rs) = traverse record_leaf rs"
  by (simp add: traverse_map comp_def record_leaf_def [abs_def])

section \<open>MemoryStore\<close>

record MemoryStore =
  MS_batches :: "(string, Batch) gomap"
  MS_records :: "(string, Record) gomap"
  MS_wormIndex :: "(string, WORMIndexEntry) gomap"

definition NewMemoryStore :: MemoryStore where
  "NewMemoryStore = \<lparr>MS_batches = [], MS_records = [], MS_wormIndex = []\<rparr>"

definition ms_CreateBatch :: "MemoryStore \<Rightarrow> Batch \<Rightarrow> Record list \<Rightarrow> go_error option \<times> MemoryStore" where
  "ms_CreateBatch m batch records =
     (None, m\<lparr>MS_batches := AList.update (B_ID batch) batch (MS_batches m),
              MS_records := fold (\<lambda>r. AList.update (R_ID r) r) records (MS_records m)\<rparr>)"

definition ms_GetBatch :: "MemoryStore \<Rightarrow> string \<Rightarrow> Batch result" where
  "ms_GetBatch m batchID = (case map_of (MS_batches m) batchID of None \<Rightarrow> Inl ErrNotFound | Some b \<Rightarrow> Inr b)"

definition ms_UpdateBatchStatus ::
  "MemoryStore \<Rightarrow> string \<Rightarrow> string \<Rightarrow> string option \<Rightarrow> go_error option \<times> MemoryStore" where
  "ms_UpdateBatchStatus m batchID status wormObjectKey =
     (case map_of (MS_batches m) batchID of
        None \<Rightarrow> (Some ErrNotFound, m)
      | Some b \<Rightarrow>
          (let b = b\<lparr>B_Status := status\<rparr>;
               b = (if wormObjectKey \<noteq> None then b\<lparr>B_WORMObjectKey := wormObjectKey\<rparr> else b)
           in (None, m\<lparr>MS_batches := AList.update batchID b (MS_batches m)\<rparr>)))"

text \<open>The loop keeps the batch closed last; among equals the first one visited.\<close>

fun latest_batch :: "Batch option \<Rightarrow> Batch list \<Rightarrow> Batch option" where
  "latest_batch latest [] = latest"
| "latest_batch latest (b # bs) =
     latest_batch
       (case latest of None \<Rightarrow> Some b
        | Some l \<Rightarrow> if B_ClosedAt b > B_ClosedAt l then Some b else Some l) bs"

definition ms_GetLatestCheckpoint :: "MemoryStore \<Rightarrow> (string \<times> 32 word) result" where
  "ms_GetLatestCheckpoint m =
     (case latest_batch None (map snd (MS_batches m)) of
        None \<Rightarrow> Inr ([], 0)
      | Some b \<Rightarrow> Inr (B_BinlogFile b, B_BinlogPosition b))"

definition ms_GetBatchesForTiering :: "MemoryStore \<Rightarrow> time \<Rightarrow> Batch list result" where
  "ms_GetBatchesForTiering m olderThan =
     Inr (filter (\<lambda>b. B_Status b = ''signed'' \<and> B_ClosedAt b < olderThan) (map snd (MS_batches m)))"

definition ms_ListBatches :: "MemoryStore \<Rightarrow> int \<Rightarrow> int \<Rightarrow> Batch list result" where
  "ms_ListBatches m limit offset = Inr (map snd (MS_batches m))"

definition ms_GetRecord :: "MemoryStore \<Rightarrow> string \<Rightarrow> Record result" where
  "ms_GetRecord m recordID = (case map_of (MS_records m) recordID of None \<Rightarrow> Inl ErrNotFound | Some r \<Rightarrow> Inr r)"

text \<open>
  \<open>sort.Slice\<close> may leave records of equal index in any order; since the order of the map is
  open, the stable sort of the model covers every such outcome.
\<close>

definition ms_GetRecordsByBatchID :: "MemoryStore \<Rightarrow> string \<Rightarrow> Record list result" where
  "ms_GetRecordsByBatchID m batchID =
     Inr (sort_key R_MerkleLeafIndex (filter (\<lambda>r. R_BatchID r = batchID) (map snd (MS_records m))))"

definition ms_GetRecordsByTableAndPK ::
  "MemoryStore \<Rightarrow> string \<Rightarrow> string \<Rightarrow> int \<Rightarrow> int \<Rightarrow> Record list result" where
  "ms_GetRecordsByTableAndPK m table primaryKey limit offset =
     Inr (filter (\<lambda>r. R_TableName r = table \<and> R_PrimaryKey r = primaryKey) (map snd (MS_records m)))"

definition ms_DeleteRecordsByBatchID :: "MemoryStore \<Rightarrow> string \<Rightarrow> go_error option \<times> MemoryStore" where
  "ms_DeleteRecordsByBatchID m batchID =
     (None, m\<lparr>MS_records := filter (\<lambda>(id, r). R_BatchID r \<noteq> batchID) (MS_records m)\<rparr>)"

definition ms_InsertWORMIndex :: "MemoryStore \<Rightarrow> WORMIndexEntry \<Rightarrow> go_error option \<times> MemoryStore" where
  "ms_InsertWORMIndex m entry =
     (None, m\<lparr>MS_wormIndex := AList.update (W_BatchID entry) entry (MS_wormIndex m)\<rparr>)"

definition ms_GetWORMIndex :: "MemoryStore \<Rightarrow> string \<Rightarrow> WORMIndexEntry result" where
  "ms_GetWORMIndex m batchID =
     (case map_of (MS_wormIndex m) batchID of None \<Rightarrow> Inl ErrNotFound | Some e \<Rightarrow> Inr e)"

text \<open>The leaf hashes of a list of records, with the message the stores add on failure.\<close>

definition batch_leaves :: "Record list \<Rightarrow> bytes list result" where
  "batch_leaves records =
     traverse (\<lambda>r. wrap_err (''failed to compute leaf hash for record '' @ R_ID r) (record_leaf r)) records"

definition verification_data :: "Record \<Rightarrow> Batch \<Rightarrow> bytes list \<Rightarrow> fetched" where
  "verification_data rec batch leaves =
     (record_payload rec,
      \<lparr>BV_BatchID = B_ID batch, BV_MerkleRoot = B_MerkleRoot batch, BV_Signature = B_Signature batch,
       BV_KeyVersion = B_KeyVersion batch, BV_AllLeafHashes = leaves, BV_Proof = []\<rparr>)"

definition ms_GetRecordForVerification :: "MemoryStore \<Rightarrow> string \<Rightarrow> fetched result" where
  "ms_GetRecordForVerification m recordID =
     (case map_of (MS_records m) recordID of
        None \<Rightarrow> Inl ErrNotFound
      | Some rec \<Rightarrow>
          (case map_of (MS_batches m) (R_BatchID rec) of
             None \<Rightarrow> Inl ErrNotFound
           | Some batch \<Rightarrow>
               (let allRecords = sort_key R_MerkleLeafIndex
                      (filter (\<lambda>r. R_BatchID r = R_BatchID rec) (map snd (MS_records m)))
                in result_bind (batch_leaves allRecords)
                     (\<lambda>leaves. Inr (verification_data rec batch leaves)))))"

definition memory_store :: "MemoryStore StoreI" where
  "memory_store =
     \<lparr>st_CreateBatch = ms_CreateBatch, st_GetBatch = ms_GetBatch,
      st_UpdateBatchStatus = ms_UpdateBatchStatus, st_GetLatestCheckpoint = ms_GetLatestCheckpoint,
      st_GetBatchesForTiering = ms_GetBatchesForTiering, st_ListBatches = ms_ListBatches,
      st_GetRecord = ms_GetRecord, st_GetRecordsByBatchID = ms_GetRecordsByBatchID,
      st_GetRecordsByTableAndPK = ms_GetRecordsByTableAndPK,
      st_DeleteRecordsByBatchID = ms_DeleteRecordsByBatchID, st_InsertWORMIndex = ms_InsertWORMIndex,
      st_GetWORMIndex = ms_GetWORMIndex, st_GetRecordForVerification = ms_GetRecordForVerification\<rparr>"

section \<open>Contract\<close>

text \<open>What a batch must not lose in a store: everything but the rounding of its times.\<close>

definition same_seal :: "Batch \<Rightarrow> Batch \<Rightarrow> bool" where
  "same_seal b b' \<longleftrightarrow> B_ID b = B_ID b' \<and> B_EventCount b = B_EventCount b'
     \<and> B_MerkleRoot b = B_MerkleRoot b' \<and> B_Signature b = B_Signature b'
     \<and> B_KeyVersion b = B_KeyVersion b' \<and> B_BinlogFile b = B_BinlogFile b'
     \<and> B_BinlogPosition b = B_BinlogPosition b' \<and> B_Status b = B_Status b'
     \<and> B_IsBootstrap b = B_IsBootstrap b'"

text \<open>The records of a batch carry its identifier and their position.\<close>

definition numbered :: "string \<Rightarrow> Record list \<Rightarrow> bool" where
  "numbered bid rs \<longleftrightarrow> list_all (\<lambda>(i, r). R_BatchID r = bid \<and> R_MerkleLeafIndex r = int i) (enumerate 0 rs)"

lemma numbered_nth:
  "numbered bid rs \<longleftrightarrow> (\<forall>i<length rs. R_BatchID (rs ! i) = bid \<and> R_MerkleLeafIndex (rs ! i) = int i)"
  by (auto simp: numbered_def list_all_length nth_enumerate_eq)

lemma numbered_Nil [simp]: "numbered bid []"
  by (simp add: numbered_def)

lemma numbered_snoc [simp]:
  "numbered bid (rs @ [r]) \<longleftrightarrow> numbered bid rs \<and> R_BatchID r = bid \<and> R_MerkleLeafIndex r = int (length rs)"
  by (auto simp: numbered_nth nth_append less_Suc_eq)

lemma numbered_batch: "numbered bid rs \<Longrightarrow> r \<in> set rs \<Longrightarrow> R_BatchID r = bid"
  by (auto simp: numbered_nth in_set_conv_nth)

lemma numbered_sorted: "numbered bid rs \<Longrightarrow> sorted (map R_MerkleLeafIndex rs)"
  by (auto simp: numbered_nth sorted_iff_nth_mono)

text \<open>A store that knows neither the batch nor its records.\<close>

definition unseen :: "'s StoreI \<Rightarrow> 's \<Rightarrow> string \<Rightarrow> Record list \<Rightarrow> bool" where
  "unseen S s bid rs \<longleftrightarrow> st_GetRecordsByBatchID S s bid = Inr []
     \<and> list_all (\<lambda>r. st_GetRecord S s (R_ID r) = Inl ErrNotFound) rs"

text \<open>What a record must not lose: its identity, its place in the batch, and its leaf hash.\<close>

definition same_record :: "Record \<Rightarrow> Record \<Rightarrow> bool" where
  "same_record r r' \<longleftrightarrow> R_ID r' = R_ID r \<and> R_BatchID r' = R_BatchID r
     \<and> R_MerkleLeafIndex r' = R_MerkleLeafIndex r \<and> record_leaf r' = record_leaf r"

lemma same_record_refl [simp]: "same_record r r"
  by (simp add: same_record_def)

lemma same_record_leaves:
  "list_all2 same_record rs rs' \<Longrightarrow> traverse record_leaf rs' = traverse record_leaf rs"
  by (induction rule: list_all2_induct) (simp_all add: same_record_def cong: sum.case_cong)

text \<open>
  A store need not keep every record and every batch as they are (a database has its own text for
  JSON and its own precision for times): \<open>storable\<close> and \<open>sealable\<close> say which it does keep.
\<close>

locale store_contract =
  fixes S :: "'s StoreI"
    and inv :: "'s \<Rightarrow> bool"
    and storable :: "Record \<Rightarrow> bool"
    and sealable :: "Batch \<Rightarrow> bool"
  assumes create_inv: "inv s \<Longrightarrow> st_CreateBatch S s b rs = (e, s') \<Longrightarrow> inv s'"
    and get_batch_create:
      "inv s \<Longrightarrow> st_CreateBatch S s b rs = (None, s') \<Longrightarrow> sealable b \<Longrightarrow>
         \<exists>b'. st_GetBatch S s' (B_ID b) = Inr b' \<and> same_seal b b'"
    and records_create:
      "inv s \<Longrightarrow> st_CreateBatch S s b rs = (None, s') \<Longrightarrow> list_all storable rs \<Longrightarrow>
         numbered (B_ID b) rs \<Longrightarrow> distinct (map R_ID rs) \<Longrightarrow> unseen S s (B_ID b) rs \<Longrightarrow>
         \<exists>rs'. st_GetRecordsByBatchID S s' (B_ID b) = Inr rs' \<and> list_all2 same_record rs rs'"
    and record_create:
      "inv s \<Longrightarrow> st_CreateBatch S s b rs = (None, s') \<Longrightarrow> list_all storable rs \<Longrightarrow>
         distinct (map R_ID rs) \<Longrightarrow> r \<in> set rs \<Longrightarrow> unseen S s (B_ID b) rs \<Longrightarrow>
         \<exists>r'. st_GetRecord S s' (R_ID r) = Inr r' \<and> same_record r r'"
    and fetch_parts:
      "inv s \<Longrightarrow> st_GetRecord S s rid = Inr r \<Longrightarrow> st_GetBatch S s (R_BatchID r) = Inr b \<Longrightarrow>
         st_GetRecordsByBatchID S s (R_BatchID r) = Inr rs \<Longrightarrow>
         st_GetRecordForVerification S s rid =
           result_bind (batch_leaves rs) (\<lambda>leaves. Inr (verification_data r b leaves))"
begin

lemma fetch_created:
  assumes "inv s" "st_CreateBatch S s b rs = (None, s')" "list_all storable rs"
    "numbered (B_ID b) rs" "distinct (map R_ID rs)" "unseen S s (B_ID b) rs" "sealable b"
    "traverse record_leaf rs = Inr leaves" "r \<in> set rs"
  shows "\<exists>b' r'. same_seal b b' \<and> same_record r r' \<and>
    st_GetRecordForVerification S s' (R_ID r) = Inr (verification_data r' b' leaves)"
proof -
  obtain b' where b': "st_GetBatch S s' (B_ID b) = Inr b'" "same_seal b b'"
    using get_batch_create assms(1,2,7) by blast
  obtain rs' where rs': "st_GetRecordsByBatchID S s' (B_ID b) = Inr rs'" "list_all2 same_record rs rs'"
    using records_create [OF assms(1-6)] by blast
  obtain r' where r': "st_GetRecord S s' (R_ID r) = Inr r'" "same_record r r'"
    using record_create [OF assms(1,2,3,5,9,6)] by blast
  have bid: "R_BatchID r' = B_ID b" using numbered_batch assms(4,9) r'(2) by (auto simp: same_record_def)
  have "traverse record_leaf rs' = Inr leaves" using same_record_leaves [OF rs'(2)] assms(8) by simp
  then have "batch_leaves rs' = Inr leaves" by (simp add: batch_leaves_def traverse_Inr_iff)
  then have "st_GetRecordForVerification S s' (R_ID r) = Inr (verification_data r' b' leaves)"
    using fetch_parts [of s' "R_ID r" r' b' rs'] create_inv [OF assms(1,2)] bid b'(1) r'(1) rs'(1) by simp
  with b'(2) r'(2) show ?thesis by blast
qed

lemma created_record_valid:
  assumes "inv s" "st_CreateBatch S s b rs = (None, s')" "list_all storable rs"
    "numbered (B_ID b) rs" "distinct (map R_ID rs)" "unseen S s (B_ID b) rs" "sealable b"
    "traverse record_leaf rs = Inr leaves" "BuildTree leaves = Inr t" "B_MerkleRoot b = Root t"
    "verify (Root t) (B_Signature b) (B_KeyVersion b) = Inr True" "r \<in> set rs"
  shows "VR_Valid (fst (VerifyRecord (st_GetRecordForVerification S s') verify now (R_ID r)))"
proof -
  obtain b' r' where b': "same_seal b b'" "same_record r r'"
      "st_GetRecordForVerification S s' (R_ID r) = Inr (verification_data r' b' leaves)"
    using fetch_created [OF assms(1-8,12)] by blast
  obtain i where i: "i < length rs" "rs ! i = r" using assms(12) by (auto simp: in_set_conv_nth)
  then have "R_MerkleLeafIndex r' = int i" using assms(4) b'(2) by (auto simp: numbered_nth same_record_def)
  moreover have "i < length leaves" "record_leaf r' = Inr (leaves ! i)"
    using i b'(2) traverse_nth [OF assms(8) i(1)] traverse_length [OF assms(8)] by (auto simp: same_record_def)
  ultimately show ?thesis using b'(1,3) assms(9-11)
    by (intro honest_record_valid [of _ _ "record_payload r'" _ t])
      (auto simp: verification_data_def same_seal_def record_leaf_def)
qed

end

section \<open>The in-memory store keeps the contract\<close>

definition ms_inv :: "MemoryStore \<Rightarrow> bool" where
  "ms_inv m \<longleftrightarrow> distinct (map fst (MS_batches m)) \<and> distinct (map fst (MS_records m))
     \<and> distinct (map fst (MS_wormIndex m))
     \<and> list_all (\<lambda>(k, b). B_ID b = k) (MS_batches m) \<and> list_all (\<lambda>(k, r). R_ID r = k) (MS_records m)
     \<and> list_all (\<lambda>(k, e). W_BatchID e = k) (MS_wormIndex m)"

lemma list_all_update: "list_all (\<lambda>(k, v). P k v) al \<Longrightarrow> P k v \<Longrightarrow> list_all (\<lambda>(k, v). P k v) (AList.update k v al)"
  by (induction al) auto

lemma distinct_fold_update:
  "distinct (map fst al) \<Longrightarrow> distinct (map fst (fold (\<lambda>r. AList.update (f r) r) rs al))"
  by (induction rs arbitrary: al) (auto simp: distinct_update)

lemma list_all_fold_update:
  "list_all (\<lambda>(k, r). f r = k) al \<Longrightarrow> list_all (\<lambda>(k, r). f r = k) (fold (\<lambda>r. AList.update (f r) r) rs al)"
  by (induction rs arbitrary: al) (auto intro!: list_all_update)

lemma sort_key_Nil_iff [simp]: "sort_key f xs = [] \<longleftrightarrow> xs = []"
  by (metis length_0_conv length_sort)

lemma update_new: "k \<notin> fst ` set al \<Longrightarrow> AList.update k v al = al @ [(k, v)]"
  by (induction al) auto

lemma fold_update_new:
  "distinct (map f rs) \<Longrightarrow> f ` set rs \<inter> fst ` set al = {} \<Longrightarrow>
     fold (\<lambda>r. AList.update (f r) r) rs al = al @ map (\<lambda>r. (f r, r)) rs"
proof (induction rs arbitrary: al)
  case (Cons r rs)
  then have "AList.update (f r) r al = al @ [(f r, r)]" by (intro update_new) auto
  moreover have "f ` set rs \<inter> fst ` set (al @ [(f r, r)]) = {}" using Cons.prems by auto
  ultimately show ?case using Cons.IH [of "al @ [(f r, r)]"] Cons.prems by simp
qed simp

lemma ms_inv_create: "ms_inv m \<Longrightarrow> ms_inv (snd (ms_CreateBatch m b rs))"
  by (simp add: ms_inv_def ms_CreateBatch_def distinct_update distinct_fold_update
      list_all_update list_all_fold_update)

lemma ms_records_create:
  assumes "distinct (map R_ID rs)" "unseen memory_store m bid rs"
  shows "MS_records (snd (ms_CreateBatch m b rs)) = MS_records m @ map (\<lambda>r. (R_ID r, r)) rs"
proof -
  have "map_of (MS_records m) (R_ID r) = None" if "r \<in> set rs" for r
    using assms(2) that
    by (auto simp: unseen_def memory_store_def ms_GetRecord_def list_all_iff split: option.splits)
  then have "R_ID ` set rs \<inter> fst ` set (MS_records m) = {}" by (auto simp: map_of_eq_None_iff)
  then show ?thesis using fold_update_new assms(1) by (auto simp: ms_CreateBatch_def)
qed

interpretation ms: store_contract memory_store ms_inv "\<lambda>_. True" "\<lambda>_. True"
proof unfold_locales
  fix m b rs e m' assume "ms_inv m" "st_CreateBatch memory_store m b rs = (e, m')"
  then show "ms_inv m'" using ms_inv_create [of m b rs] by (simp add: memory_store_def)
next
  fix m b rs m' assume "st_CreateBatch memory_store m b rs = (None, m')"
  then show "\<exists>b'. st_GetBatch memory_store m' (B_ID b) = Inr b' \<and> same_seal b b'"
    by (auto simp: memory_store_def ms_CreateBatch_def ms_GetBatch_def update_conv' same_seal_def)
next
  fix m b rs m'
  assume a: "st_CreateBatch memory_store m b rs = (None, m')" "numbered (B_ID b) rs"
    "distinct (map R_ID rs)" "unseen memory_store m (B_ID b) rs"
  then have "filter (\<lambda>r. R_BatchID r = B_ID b) (map snd (MS_records m)) = []"
    by (simp add: unseen_def memory_store_def ms_GetRecordsByBatchID_def)
  moreover have "filter (\<lambda>r. R_BatchID r = B_ID b) rs = rs"
    using a(2) numbered_batch by (auto simp: filter_id_conv)
  ultimately have "st_GetRecordsByBatchID memory_store m' (B_ID b) = Inr rs"
    using ms_records_create [OF a(3,4), of b] a(1) numbered_sorted [OF a(2)]
    by (simp add: memory_store_def ms_GetRecordsByBatchID_def comp_def sort_key_id_if_sorted)
  then show "\<exists>rs'. st_GetRecordsByBatchID memory_store m' (B_ID b) = Inr rs' \<and> list_all2 same_record rs rs'"
    by (auto intro: list_all2_refl)
next
  fix m b rs r m'
  assume a: "st_CreateBatch memory_store m b rs = (None, m')" "distinct (map R_ID rs)" "r \<in> set rs"
    "unseen memory_store m (B_ID b) rs" "ms_inv m"
  have "distinct (map fst (MS_records m'))" "(R_ID r, r) \<in> set (MS_records m')"
    using ms_inv_create [OF a(5), of b rs] ms_records_create [OF a(2,4), of b] a(1,3)
    by (auto simp: memory_store_def ms_inv_def)
  then show "\<exists>r'. st_GetRecord memory_store m' (R_ID r) = Inr r' \<and> same_record r r'"
    by (simp add: memory_store_def ms_GetRecord_def)
next
  fix m rid r b rs
  assume "st_GetRecord memory_store m rid = Inr r" "st_GetBatch memory_store m (R_BatchID r) = Inr b"
    "st_GetRecordsByBatchID memory_store m (R_BatchID r) = Inr rs"
  then show "st_GetRecordForVerification memory_store m rid =
      result_bind (batch_leaves rs) (\<lambda>leaves. Inr (verification_data r b leaves))"
    by (auto simp: memory_store_def ms_GetRecord_def ms_GetBatch_def ms_GetRecordsByBatchID_def
        ms_GetRecordForVerification_def Let_def split: option.splits)
qed

end
