(* ===== verification/Alerting.thy ===== *)
theory Alerting
  imports Json
begin

text \<open>
  Alerts, sinks and the dispatcher of \<open>internal/alerting/alerting.go\<close>.

  The dispatcher always has the in-memory sink first; its other sinks are webhooks, whose HTTP
  client is the parameter \<open>http_api\<close>. The readings of the clock and the fresh identifier that
  \<open>Trigger\<close> draws are its argument \<open>trigger_env\<close>. The lemmas show the rate limit over
  any sequence of triggers, and that the in-memory sink holds exactly the alerts let through.
\<close>

section \<open>Model\<close>

record Alert =
  A_ID :: string
  A_Trigger :: string
  A_Severity :: string
  A_TableName :: string
  A_RecordID :: string
  A_TransactionID :: string
  A_Timestamp :: time
  A_Message :: string
  A_Acknowledged :: bool

text \<open>
  \<open>http_request\<close> is the error of building a request for a URL, \<open>http_do\<close> the status code
  (or the transport error) of posting a body.
\<close>

record http_api =
  http_request :: "string \<Rightarrow> go_error option"
  http_do :: "string \<Rightarrow> string \<Rightarrow> int result"

record WebhookSink =
  WS_webhookURL :: string
  WS_posted :: "string list"

definition siren :: string where
  "siren = [CHR 0xF0, CHR 0x9F, CHR 0x9A, CHR 0xA8]"

definition warning_sign :: string where
  "warning_sign = [CHR 0xE2, CHR 0x9A, CHR 0xA0, CHR 0xEF, CHR 0xB8, CHR 0x8F]"

abbreviation NL :: string where "NL \<equiv> [CHR 0x0A]"
abbreviation TICK :: string where "TICK \<equiv> [CHR 0x60]"

definition alert_content :: "Alert \<Rightarrow> string" where
  "alert_content a =
     (if A_Severity a = ''critical'' then
        siren @ '' **@here [CRITICAL AUDIT ALERT]** '' @ siren @ NL
        @ ''**Table:** '' @ TICK @ A_TableName a @ TICK @ NL
        @ ''**Trigger:** '' @ A_Trigger a @ NL @ ''**Message:** '' @ A_Message a @ NL
        @ ''**Record ID:** '' @ TICK @ A_RecordID a @ TICK @ NL
        @ ''**Transaction ID:** '' @ TICK @ A_TransactionID a @ TICK @ NL
        @ ''**Time:** '' @ format_RFC3339 (A_Timestamp a)
      else
        warning_sign @ '' **[AUDIT ALERT - NORMAL]**'' @ NL
        @ ''**Table:** '' @ TICK @ A_TableName a @ TICK @ NL
        @ ''**Trigger:** '' @ A_Trigger a @ NL @ ''**Message:** '' @ A_Message a @ NL
        @ ''**Time:** '' @ format_RFC3339 (A_Timestamp a))"

definition webhook_Send :: "http_api \<Rightarrow> WebhookSink \<Rightarrow> Alert \<Rightarrow> go_error option \<times> WebhookSink" where
  "webhook_Send h s alert =
     (if WS_webhookURL s = [] then (None, s)
      else
        let content = alert_content alert in
        case marshal (GMap [(''content'', GString content), (''text'', GString content)]) of
          Inl e \<Rightarrow> (Some (Wrapf ''failed to marshal webhook payload'' e), s)
        | Inr body \<Rightarrow>
            (case http_request h (WS_webhookURL s) of
               Some e \<Rightarrow> (Some (Wrapf ''failed to create webhook request'' e), s)
             | None \<Rightarrow>
                 let s = s\<lparr>WS_posted := WS_posted s @ [body]\<rparr> in
                 case http_do h (WS_webhookURL s) body of
                   Inl e \<Rightarrow> (Some (Wrapf ''failed to post alert webhook'' e), s)
                 | Inr status \<Rightarrow>
                     if status \<ge> 400
                     then (Some (NewErr (''webhook responded with error status: '' @ show_int status)), s)
                     else (None, s)))"

type_synonym MemorySink = "Alert list"

definition memory_Send :: "MemorySink \<Rightarrow> Alert \<Rightarrow> go_error option \<times> MemorySink" where
  "memory_Send m alert = (None, m @ [alert])"

definition GetAlerts :: "MemorySink \<Rightarrow> Alert list" where
  "GetAlerts m = m"

fun Acknowledge :: "MemorySink \<Rightarrow> string \<Rightarrow> bool \<times> MemorySink" where
  "Acknowledge [] i = (False, [])"
| "Acknowledge (a # m) i =
     (if A_ID a = i then (True, a\<lparr>A_Acknowledged := True\<rparr> # m)
      else case Acknowledge m i of (ok, m') \<Rightarrow> (ok, a # m'))"

record Dispatcher =
  D_memorySink :: MemorySink
  D_webhooks :: "WebhookSink list"
  D_rateLimiter :: "(string, time) gomap"
  D_cooldown :: duration

definition NewDispatcher :: "duration \<Rightarrow> WebhookSink list \<Rightarrow> Dispatcher" where
  "NewDispatcher cooldown sinks =
     \<lparr>D_memorySink = [], D_webhooks = sinks, D_rateLimiter = [], D_cooldown = cooldown\<rparr>"

text \<open>What one call of \<open>Trigger\<close> draws: three readings of the clock and an identifier.\<close>

record trigger_env =
  te_since :: time
  te_sent :: time
  te_stamp :: time
  te_uuid :: string

record trigger_args =
  ta_trigger :: string
  ta_severity :: string
  ta_tableName :: string
  ta_recordID :: string
  ta_txID :: string
  ta_message :: string

definition rateKey :: "trigger_args \<Rightarrow> string" where
  "rateKey x = ta_trigger x @ '':'' @ ta_tableName x"

definition Trigger :: "http_api \<Rightarrow> Dispatcher \<Rightarrow> trigger_env \<Rightarrow> trigger_args \<Rightarrow> Alert option \<times> Dispatcher" where
  "Trigger h d env x =
     (if (case map_of (D_rateLimiter d) (rateKey x) of
            Some lastSent \<Rightarrow> te_since env - lastSent < D_cooldown d
          | None \<Rightarrow> False)
      then (None, d)
      else
        let alert = \<lparr>A_ID = te_uuid env, A_Trigger = ta_trigger x, A_Severity = ta_severity x,
                     A_TableName = ta_tableName x, A_RecordID = ta_recordID x,
                     A_TransactionID = ta_txID x, A_Timestamp = te_stamp env,
                     A_Message = ta_message x, A_Acknowledged = False\<rparr>
        in (Some alert,
            d\<lparr>D_rateLimiter := AList.update (rateKey x) (te_sent env) (D_rateLimiter d),
              D_memorySink := snd (memory_Send (D_memorySink d) alert),
              D_webhooks := map (\<lambda>s. snd (webhook_Send h s alert)) (D_webhooks d)\<rparr>))"

text \<open>A sequence of triggers, with the alerts let through.\<close>

fun trigger_all ::
  "http_api \<Rightarrow> Dispatcher \<Rightarrow> (trigger_env \<times> trigger_args) list \<Rightarrow> Alert option list \<times> Dispatcher" where
  "trigger_all h d [] = ([], d)"
| "trigger_all h d ((env, x) # evs) =
     (case Trigger h d env x of (r, d') \<Rightarrow>
        case trigger_all h d' evs of (rs, d'') \<Rightarrow> (r # rs, d''))"

section \<open>Rate limiting\<close>

text \<open>The clock does not go back during a sequence of triggers, from \<open>t\<close> on.\<close>

fun clock_ok :: "time \<Rightarrow> (trigger_env \<times> trigger_args) list \<Rightarrow> bool" where
  "clock_ok t [] \<longleftrightarrow> True"
| "clock_ok t ((env, x) # evs) \<longleftrightarrow> t \<le> te_since env \<and> te_since env \<le> te_sent env \<and> clock_ok (te_sent env) evs"

lemma Trigger_suppressed:
  "Trigger h d env x = (None, d') \<Longrightarrow> d' = d"
  by (auto simp: Trigger_def Let_def split: if_splits)

lemma Trigger_sent:
  assumes "Trigger h d env x = (Some a, d')"
  shows "map_of (D_rateLimiter d') = (map_of (D_rateLimiter d))(rateKey x \<mapsto> te_sent env)"
    and "D_cooldown d' = D_cooldown d" and "D_memorySink d' = D_memorySink d @ [a]"
    and "\<And>last. map_of (D_rateLimiter d) (rateKey x) = Some last \<Longrightarrow> D_cooldown d \<le> te_since env - last"
  using assms by (auto simp: Trigger_def memory_Send_def Let_def update_conv' split: if_splits)

lemma trigger_all_length: "length (fst (trigger_all h d evs)) = length evs"
  by (induction h d evs rule: trigger_all.induct) (auto split: prod.splits)

lemma sent_after_cooldown:
  assumes "map_of (D_rateLimiter d) k = Some t" "clock_ok t0 evs" "t \<le> t0"
    "j < length evs" "fst (trigger_all h d evs) ! j \<noteq> None" "rateKey (snd (evs ! j)) = k"
  shows "D_cooldown d \<le> te_since (fst (evs ! j)) - t"
  using assms
proof (induction evs arbitrary: d t t0 j)
  case (Cons ev evs)
  obtain env x where ev: "ev = (env, x)" by (cases ev)
  obtain r d' where tr: "Trigger h d env x = (r, d')" by (cases "Trigger h d env x")
  show ?case
  proof (cases j)
    case 0
    with Cons.prems ev tr obtain a where "r = Some a" by (auto split: prod.splits)
    with Trigger_sent(4) [of h d env x a d' t] tr Cons.prems 0 ev show ?thesis by simp
  next
    case (Suc i)
    have i: "i < length evs" "fst (trigger_all h d' evs) ! i \<noteq> None" "rateKey (snd (evs ! i)) = k"
      using Cons.prems(4-6) Suc ev tr by (auto split: prod.splits)
    have c: "t \<le> te_since env" "te_since env \<le> te_sent env" "clock_ok (te_sent env) evs"
      using Cons.prems(2,3) ev by auto
    show ?thesis
    proof (cases r)
      case None
      then have "d' = d" using Trigger_suppressed tr by blast
      with Cons.IH [of d' t "te_sent env" i] Cons.prems(1) i c Suc show ?thesis by simp
    next
      case (Some a)
      note s = Trigger_sent [of h d env x a d'] tr Some
      show ?thesis
      proof (cases "rateKey x = k")
        case True
        then have "map_of (D_rateLimiter d') k = Some (te_sent env)" using s by simp
        from Cons.IH [OF this c(3) _ i] s c Suc show ?thesis by simp
      next
        case False
        then have "map_of (D_rateLimiter d') k = Some t" using s Cons.prems(1) by simp
        from Cons.IH [OF this c(3) _ i] s c Suc show ?thesis by simp
      qed
    qed
  qed
qed simp

text \<open>
  C22: Rate limiting over any sequence of triggers under a clock that does not go back: two alerts
  let through for the same trigger and table are at least the cooldown apart, measured from the
  moment the first is recorded to the moment the second is examined.
\<close>

theorem Trigger_rate_limited:
  assumes "clock_ok t0 evs" "i < j" "j < length evs"
    and "fst (trigger_all h d evs) ! i \<noteq> None" "fst (trigger_all h d evs) ! j \<noteq> None"
    and "ta_trigger (snd (evs ! i)) = ta_trigger (snd (evs ! j))"
    and "ta_tableName (snd (evs ! i)) = ta_tableName (snd (evs ! j))"
  shows "D_cooldown d \<le> te_since (fst (evs ! j)) - te_sent (fst (evs ! i))"
  using assms
proof (induction evs arbitrary: d t0 i j)
  case (Cons ev evs)
  obtain env x where ev: "ev = (env, x)" by (cases ev)
  obtain r d' where tr: "Trigger h d env x = (r, d')" by (cases "Trigger h d env x")
  obtain j' where j: "j = Suc j'" using Cons.prems(2) by (cases j) auto
  have j': "j' < length evs" "fst (trigger_all h d' evs) ! j' \<noteq> None"
    using Cons.prems(3,5) ev tr j by (auto split: prod.splits)
  have cd: "D_cooldown d' = D_cooldown d"
    using Trigger_suppressed [of h d env x d'] Trigger_sent(2) [of h d env x _ d'] tr by (cases r) auto
  show ?case
  proof (cases i)
    case 0
    with Cons.prems(4) ev tr obtain a where "r = Some a" by (auto split: prod.splits)
    moreover have "rateKey (snd (evs ! j')) = rateKey x"
      using Cons.prems(6,7) 0 j ev by (simp add: rateKey_def)
    moreover have "clock_ok (te_sent env) evs" using Cons.prems(1) ev by simp
    ultimately show ?thesis
      using sent_after_cooldown [of d' "rateKey x" "te_sent env" "te_sent env" evs j' h]
        Trigger_sent(1) [of h d env x] tr j' cd 0 j ev by simp
  next
    case (Suc i')
    have "fst (trigger_all h d' evs) ! i' \<noteq> None"
      using Cons.prems(4) Suc ev tr by (auto split: prod.splits)
    with Cons.IH [of "te_sent env" i' j' d'] Cons.prems Suc j j' ev cd show ?thesis by simp
  qed
qed simp

definition sample_env :: "time \<Rightarrow> trigger_env" where
  "sample_env t = \<lparr>te_since = t, te_sent = t, te_stamp = t, te_uuid = ''a''\<rparr>"

definition sample_args :: trigger_args where
  "sample_args = \<lparr>ta_trigger = ''DELETE'', ta_severity = ''critical'', ta_tableName = ''users'',
     ta_recordID = ''r'', ta_txID = ''x'', ta_message = ''gone''\<rparr>"

definition no_http :: http_api where
  "no_http = \<lparr>http_request = (\<lambda>_. None), http_do = (\<lambda>_ _. Inr 500)\<rparr>"

theorem Trigger_rate_limited_witness:
  "fst (trigger_all no_http (NewDispatcher 10 []) (map (\<lambda>t. (sample_env t, sample_args)) [0, 5, 12])) ! 1 = None
   \<and> D_cooldown (NewDispatcher 10 []) \<le> (12 :: int) - 0"
proof -
  let ?evs = "map (\<lambda>t. (sample_env t, sample_args)) [0, 5, 12]"
  have r: "fst (trigger_all no_http (NewDispatcher 10 []) ?evs) ! 0 \<noteq> None"
    "fst (trigger_all no_http (NewDispatcher 10 []) ?evs) ! 1 = None"
    "fst (trigger_all no_http (NewDispatcher 10 []) ?evs) ! 2 \<noteq> None"
    by (simp_all add: Trigger_def NewDispatcher_def sample_env_def Let_def)
  have "D_cooldown (NewDispatcher 10 []) \<le> te_since (fst (?evs ! 2)) - te_sent (fst (?evs ! 0))"
    using r by (intro Trigger_rate_limited [of 0 ?evs 0 2 no_http "NewDispatcher 10 []"])
      (simp_all add: sample_env_def)
  with r show ?thesis by (simp add: sample_env_def)
qed

section \<open>The in-memory sink\<close>

lemma trigger_all_memory:
  "D_memorySink (snd (trigger_all h d evs)) =
     D_memorySink d @ map the (filter (\<lambda>r. r \<noteq> None) (fst (trigger_all h d evs)))"
proof (induction h d evs rule: trigger_all.induct)
  case (2 h d env x evs)
  obtain r d' where tr: "Trigger h d env x = (r, d')" by (cases "Trigger h d env x")
  have "D_memorySink d' = D_memorySink d @ (case r of None \<Rightarrow> [] | Some a \<Rightarrow> [a])"
    using Trigger_suppressed [of h d env x d'] Trigger_sent(3) [of h d env x _ d'] tr
    by (cases r) auto
  with "2.IH" [OF tr [symmetric]] tr show ?case by (auto split: prod.splits option.splits)
qed simp

lemma Acknowledge_spec:
  "Acknowledge m i = (ok, m') \<Longrightarrow>
     ok = (\<exists>a\<in>set m. A_ID a = i)
     \<and> m' = (if ok then (let n = length (takeWhile (\<lambda>a. A_ID a \<noteq> i) m)
                        in m[n := (m ! n)\<lparr>A_Acknowledged := True\<rparr>]) else m)"
proof (induction m i arbitrary: m' ok rule: Acknowledge.induct)
  case (2 a m i)
  obtain ok1 m1 where "Acknowledge m i = (ok1, m1)" by (cases "Acknowledge m i")
  with 2 show ?case by (auto simp: Let_def split: if_splits)
qed simp

text \<open>
  The in-memory sink, which the API reads, holds exactly the alerts that were let through, in
  order, whatever the webhooks answered; acknowledging an identifier succeeds exactly when
  some alert has it, sets the flag of the first such alert, and changes nothing else.
\<close>

theorem MemorySink_complete:
  "GetAlerts (D_memorySink (snd (trigger_all h d evs))) =
     GetAlerts (D_memorySink d) @ map the (filter (\<lambda>r. r \<noteq> None) (fst (trigger_all h d evs)))
   \<and> (case Acknowledge m i of (ok, m') \<Rightarrow>
        ok = list_ex (\<lambda>a. A_ID a = i) m
        \<and> m' = (if ok then (let n = length (takeWhile (\<lambda>a. A_ID a \<noteq> i) m)
                           in m[n := (m ! n)\<lparr>A_Acknowledged := True\<rparr>]) else m))"
  using Acknowledge_spec [of m i]
  by (cases "Acknowledge m i") (simp add: GetAlerts_def trigger_all_memory list_ex_iff)

end
