(* ===== verification/Source.thy ===== *)
theory Source
  imports Json
begin

text \<open>
  The change data of \<open>internal/source/source.go\<close>: positions, row changes and transactions.
  A row image is a map from column names to Go values, or nil (\<open>None\<close>).
\<close>

type_synonym EventType = string

definition EventTypeInsert :: EventType where "EventTypeInsert = ''INSERT''"
definition EventTypeUpdate :: EventType where "EventTypeUpdate = ''UPDATE''"
definition EventTypeDelete :: EventType where "EventTypeDelete = ''DELETE''"
definition EventTypeDDL :: EventType where "EventTypeDDL = ''DDL''"

lemmas event_types = EventTypeInsert_def EventTypeUpdate_def EventTypeDelete_def EventTypeDDL_def

record Position =
  Pos_File :: string
  Pos_Position :: "32 word"
  Pos_GTID :: string

record RowChange =
  RC_Schema :: string
  RC_Table :: string
  RC_Action :: EventType
  RC_BeforeImage :: "row option"
  RC_AfterImage :: "row option"

record Transaction =
  Tx_TransactionID :: string
  Tx_Position :: Position
  Tx_CommittedAt :: time
  Tx_Changes :: "RowChange list"
  Tx_DDLStatement :: string

end
