(* ===== verification/AuditConfig.thy ===== *)
theory AuditConfig
  imports Decode Source
begin

text \<open>
  The table configuration of \<open>internal/config/config.go\<close>: the in-memory manager, its loading
  from \<open>_audit_config\<close> and its hot reload from change events.

  The refinement at the end relates the manager to the content of the \<open>_audit_config\<close> table it
  mirrors: as long as no update changes the key of a row, the manager holds after every event
  exactly the configurations of the rows in the table.
\<close>

section \<open>Model\<close>

record TableConfig =
  TC_TableName :: string
  TC_Enabled :: bool
  TC_UnattributedPolicy :: string
  TC_SeverityTier :: string
  TC_EncryptedColumns :: "string list"
  TC_BootstrapRequired :: bool
  TC_BootstrapStatus :: string
  TC_CreatedAt :: time
  TC_UpdatedAt :: time

text \<open>The zero \<open>time.Time\<close> is the start of year 1.\<close>

definition zero_time :: time where
  "zero_time = - 62135596800 * 1000000000"

definition zero_config :: TableConfig where
  "zero_config = \<lparr>TC_TableName = [], TC_Enabled = False, TC_UnattributedPolicy = [],
     TC_SeverityTier = [], TC_EncryptedColumns = [], TC_BootstrapRequired = False,
     TC_BootstrapStatus = [], TC_CreatedAt = zero_time, TC_UpdatedAt = zero_time\<rparr>"

type_synonym Manager = "(string, TableConfig) gomap"

definition NewManager :: Manager where
  "NewManager = []"

definition SetTableConfig :: "Manager \<Rightarrow> TableConfig \<Rightarrow> Manager" where
  "SetTableConfig m cfg = AList.update (TC_TableName cfg) cfg m"

definition GetTableConfig :: "Manager \<Rightarrow> string \<Rightarrow> TableConfig \<times> bool" where
  "GetTableConfig m tableName =
     (case map_of m tableName of Some cfg \<Rightarrow> (cfg, True) | None \<Rightarrow> (zero_config, False))"

definition GetAllConfigs :: "Manager \<Rightarrow> TableConfig list" where
  "GetAllConfigs m = map snd m"

definition IsAudited :: "Manager \<Rightarrow> string \<Rightarrow> bool" where
  "IsAudited m tableName =
     (case map_of m tableName of Some cfg \<Rightarrow> TC_Enabled cfg | None \<Rightarrow> False)"

text \<open>
  A row of the query of \<open>LoadFromDB\<close>: the scanned configuration, whose columns are still raw,
  or the error of \<open>Scan\<close>. The first error stops the loop; the rows before it stay loaded.
\<close>

fun load_rows :: "(TableConfig \<times> string) result list \<Rightarrow> Manager \<Rightarrow> go_error option \<times> Manager" where
  "load_rows [] m = (None, m)"
| "load_rows (Inl e # rows) m = (Some (Wrapf ''failed to scan _audit_config row'' e), m)"
| "load_rows (Inr (cfg, encColsRaw) # rows) m =
     (let cols = (if encColsRaw \<noteq> [] then unmarshal_strings encColsRaw else []);
          cfg = cfg\<lparr>TC_EncryptedColumns := cols\<rparr>
      in load_rows rows (SetTableConfig m cfg))"

definition LoadFromDB :: "(TableConfig \<times> string) result list result \<Rightarrow> Manager \<Rightarrow> go_error option \<times> Manager" where
  "LoadFromDB query m =
     (case query of
        Inl e \<Rightarrow> (Some (Wrapf ''failed to query _audit_config'' e), m)
      | Inr rows \<Rightarrow> load_rows rows m)"

definition string_or :: "string \<Rightarrow> gval option \<Rightarrow> string" where
  "string_or d v = (case v of Some (GString s) \<Rightarrow> s | _ \<Rightarrow> d)"

text \<open>A flag is a \<open>bool\<close>, or an \<open>int64\<close> equal to 1; other integer types do not count.\<close>

definition flag_of :: "gval option \<Rightarrow> bool" where
  "flag_of v = (case v of Some (GBool x) \<Rightarrow> x | Some (GInt KInt64 i) \<Rightarrow> i = 1 | _ \<Rightarrow> False)"

definition columns_of :: "gval option \<Rightarrow> string list" where
  "columns_of v =
     (case v of
        Some (GString c) \<Rightarrow> unmarshal_strings c
      | Some (GBytes c) \<Rightarrow> unmarshal_strings (string_of c)
      | Some (GList c) \<Rightarrow> concat (map (\<lambda>item. case item of GString s \<Rightarrow> [s] | _ \<Rightarrow> []) c)
      | _ \<Rightarrow> [])"

definition parseConfigFromMap :: "row \<Rightarrow> TableConfig" where
  "parseConfigFromMap row =
     zero_config\<lparr>TC_TableName := string_or [] (map_of row ''table_name''),
       TC_Enabled := flag_of (map_of row ''enabled''),
       TC_UnattributedPolicy := string_or ''tolerate'' (map_of row ''unattributed_policy''),
       TC_SeverityTier := string_or ''normal'' (map_of row ''severity_tier''),
       TC_BootstrapRequired := flag_of (map_of row ''bootstrap_required''),
       TC_BootstrapStatus := string_or ''not_started'' (map_of row ''bootstrap_status''),
       TC_EncryptedColumns := columns_of (map_of row ''encrypted_columns'')\<rparr>"

text \<open>The error result is always nil.\<close>

definition HandleBinlogEvent :: "Manager \<Rightarrow> RowChange \<Rightarrow> Manager" where
  "HandleBinlogEvent m change =
     (if RC_Table change \<noteq> ''_audit_config'' then m
      else if RC_Action change = EventTypeInsert \<or> RC_Action change = EventTypeUpdate then
        (case RC_AfterImage change of
           None \<Rightarrow> m
         | Some row \<Rightarrow> let cfg = parseConfigFromMap row in AList.update (TC_TableName cfg) cfg m)
      else if RC_Action change = EventTypeDelete then
        (case RC_BeforeImage change of
           None \<Rightarrow> m
         | Some row \<Rightarrow>
             let tableName = as_string (map_of row ''table_name'') in
             if tableName \<noteq> [] then AList.delete tableName m else m)
      else m)"

section \<open>Laws\<close>

lemma GetTableConfig_set:
  "GetTableConfig (SetTableConfig m cfg) t = (if t = TC_TableName cfg then (cfg, True) else GetTableConfig m t)"
  by (simp add: GetTableConfig_def SetTableConfig_def update_conv')

lemma IsAudited_iff: "IsAudited m t \<longleftrightarrow> snd (GetTableConfig m t) \<and> TC_Enabled (fst (GetTableConfig m t))"
  by (auto simp: IsAudited_def GetTableConfig_def split: option.splits)

lemma parse_name: "TC_TableName (parseConfigFromMap row) = as_string (map_of row ''table_name'')"
  by (auto simp: parseConfigFromMap_def string_or_def split: option.splits gval.splits)

section \<open>The manager mirrors the table\<close>

text \<open>
  The abstract table: rows under their key, the \<open>table_name\<close>. \<open>table_event\<close> is what MySQL
  does and the change event it logs for it.
\<close>

type_synonym config_table = "string \<rightharpoonup> row"

definition row_key :: "row \<Rightarrow> string" where
  "row_key row = as_string (map_of row ''table_name'')"

inductive table_event :: "config_table \<Rightarrow> RowChange \<Rightarrow> config_table \<Rightarrow> bool" where
  insert_row: "row_key row \<noteq> [] \<Longrightarrow> db (row_key row) = None \<Longrightarrow> RC_Table ch = ''_audit_config'' \<Longrightarrow>
    RC_Action ch = EventTypeInsert \<Longrightarrow> RC_AfterImage ch = Some row \<Longrightarrow>
    table_event db ch (db(row_key row \<mapsto> row))"
| update_row: "db (row_key row) = Some row \<Longrightarrow> row_key row' = row_key row \<Longrightarrow> row_key row \<noteq> [] \<Longrightarrow>
    RC_Table ch = ''_audit_config'' \<Longrightarrow> RC_Action ch = EventTypeUpdate \<Longrightarrow>
    RC_BeforeImage ch = Some row \<Longrightarrow> RC_AfterImage ch = Some row' \<Longrightarrow>
    table_event db ch (db(row_key row' \<mapsto> row'))"
| delete_row: "db (row_key row) = Some row \<Longrightarrow> row_key row \<noteq> [] \<Longrightarrow> RC_Table ch = ''_audit_config'' \<Longrightarrow>
    RC_Action ch = EventTypeDelete \<Longrightarrow> RC_BeforeImage ch = Some row \<Longrightarrow>
    table_event db ch (db(row_key row := None))"
| other_table: "RC_Table ch \<noteq> ''_audit_config'' \<Longrightarrow> table_event db ch db"

inductive_cases table_eventE: "table_event db ch db'"

definition mirrors :: "Manager \<Rightarrow> config_table \<Rightarrow> bool" where
  "mirrors m db \<longleftrightarrow> map_of m = map_option parseConfigFromMap \<circ> db"

lemma mirrors_step:
  assumes "table_event db ch db'" "mirrors m db"
  shows "mirrors (HandleBinlogEvent m ch) db'"
  using assms(1)
proof (cases rule: table_event.cases)
  case (insert_row row)
  then show ?thesis using assms(2)
    by (auto simp: mirrors_def HandleBinlogEvent_def parse_name row_key_def update_conv' fun_eq_iff event_types)
next
  case (update_row row row')
  then show ?thesis using assms(2)
    by (auto simp: mirrors_def HandleBinlogEvent_def parse_name row_key_def update_conv' fun_eq_iff event_types)
next
  case (delete_row row)
  then show ?thesis using assms(2)
    by (auto simp: mirrors_def HandleBinlogEvent_def row_key_def delete_conv' fun_eq_iff event_types)
next
  case other_table
  then show ?thesis using assms(2) by (simp add: HandleBinlogEvent_def)
qed

inductive table_run :: "config_table \<Rightarrow> RowChange list \<Rightarrow> config_table \<Rightarrow> bool" where
  stop: "table_run db [] db"
| event: "table_event db ch db' \<Longrightarrow> table_run db' chs db'' \<Longrightarrow> table_run db (ch # chs) db''"


definition sample_row :: "string \<Rightarrow> row" where
  "sample_row t = [(''table_name'', GString t), (''enabled'', GBool True), (''unattributed_policy'', GString ''alert'')]"

definition sample_change :: "EventType \<Rightarrow> row \<Rightarrow> RowChange" where
  "sample_change act row = \<lparr>RC_Schema = ''app'', RC_Table = ''_audit_config'', RC_Action = act,
     RC_BeforeImage = Some row, RC_AfterImage = Some row\<rparr>"


text \<open>
  An update that renames a table leaves the old entry behind. After an update of a row's
  \<open>table_name\<close> the manager still holds the configuration under the old name, so the old table
  stays audited although the row that said so is gone.
\<close>

theorem rename_leaves_stale_config:
  assumes "RC_Table ch = ''_audit_config''" "RC_Action ch = EventTypeUpdate"
    "RC_AfterImage ch = Some row'" "row_key row' \<noteq> t"
  shows "GetTableConfig (HandleBinlogEvent m ch) t = GetTableConfig m t"
  using assms
  by (simp add: HandleBinlogEvent_def GetTableConfig_def parse_name row_key_def update_conv' event_types Let_def)

theorem rename_leaves_stale_config_witness:
  "IsAudited (HandleBinlogEvent [(''old'', parseConfigFromMap (sample_row ''old''))]
     ((sample_change EventTypeUpdate (sample_row ''new''))\<lparr>RC_BeforeImage := Some (sample_row ''old'')\<rparr>)) ''old''"
  unfolding IsAudited_iff
  by (subst (1 2) rename_leaves_stale_config [of _ "sample_row ''new''"])
    (simp_all add: sample_change_def row_key_def sample_row_def GetTableConfig_def parseConfigFromMap_def flag_of_def)

end
