(* ===== verification/Attribution.thy ===== *)
theory Attribution
  imports AuditConfig
begin

text \<open>
  Actor attribution, \<open>internal/attribution/attribution.go\<close>: the user comes from the first
  \<open>_audit_context\<close> row of the transaction that names one, and the table's policy decides what
  happens when there is none.
\<close>

section \<open>Model\<close>

record ActorAttribution =
  AA_ActorUserID :: "string option"
  AA_ActorType :: string
  AA_RequestID :: string
  AA_TriggerAlert :: bool
  AA_SeverityTier :: string
  AA_Reason :: string

definition blank_attribution :: ActorAttribution where
  "blank_attribution = \<lparr>AA_ActorUserID = None, AA_ActorType = [], AA_RequestID = [],
     AA_TriggerAlert = False, AA_SeverityTier = [], AA_Reason = []\<rparr>"

text \<open>The body of the loop over the changes: \<open>None\<close> goes on to the next change.\<close>

definition context_of :: "RowChange \<Rightarrow> ActorAttribution option" where
  "context_of change =
     (if RC_Table change = ''_audit_context'' \<and> RC_Action change = EventTypeInsert then
        (case RC_AfterImage change of
           None \<Rightarrow> None
         | Some row \<Rightarrow>
             let userID = as_string (map_of row ''user_id'');
                 actorType = as_string (map_of row ''actor_type'');
                 actorType = (if actorType = [] then ''USER'' else actorType);
                 reqID = as_string (map_of row ''request_id'')
             in if userID \<noteq> []
                then Some (blank_attribution\<lparr>AA_ActorUserID := Some userID, AA_ActorType := actorType,
                             AA_RequestID := reqID\<rparr>)
                else None)
      else None)"

fun find_context :: "RowChange list \<Rightarrow> ActorAttribution option" where
  "find_context [] = None"
| "find_context (ch # chs) = (case context_of ch of Some a \<Rightarrow> Some a | None \<Rightarrow> find_context chs)"

definition CorrelateTransaction :: "Manager \<Rightarrow> Transaction \<Rightarrow> string \<Rightarrow> ActorAttribution" where
  "CorrelateTransaction m tx tableName =
     (case find_context (Tx_Changes tx) of
        Some a \<Rightarrow> a
      | None \<Rightarrow>
          (case GetTableConfig m tableName of (tableCfg, found) \<Rightarrow>
             if \<not> found \<or> TC_UnattributedPolicy tableCfg = ''tolerate'' then
               blank_attribution\<lparr>AA_ActorType := ''SYSTEM'',
                 AA_Reason := ''unattributed change tolerated by policy''\<rparr>
             else
               let severity = (if TC_SeverityTier tableCfg = [] then ''normal'' else TC_SeverityTier tableCfg)
               in blank_attribution\<lparr>AA_ActorType := ''UNATTRIBUTED'', AA_TriggerAlert := True,
                    AA_SeverityTier := severity,
                    AA_Reason := ''unattributed change on strict table '' @ tableName
                      @ '' (severity: '' @ severity @ '')''\<rparr>))"

section \<open>Properties\<close>

text \<open>
  What counts as naming the user \<open>u\<close>: a row that was inserted into \<open>_audit_context\<close> and whose
  \<open>user_id\<close> is the non-empty string \<open>u\<close>.
\<close>

definition names_user :: "RowChange \<Rightarrow> row \<Rightarrow> string \<Rightarrow> bool" where
  "names_user ch row u \<longleftrightarrow> RC_Table ch = ''_audit_context'' \<and> RC_Action ch = ''INSERT''
     \<and> RC_AfterImage ch = Some row \<and> map_of row ''user_id'' = Some (GString u) \<and> u \<noteq> []"

text \<open>The first change of a list that names a user.\<close>

definition first_named :: "RowChange list \<Rightarrow> row \<Rightarrow> string \<Rightarrow> bool" where
  "first_named chs row u \<longleftrightarrow> (\<exists>pre ch post. chs = pre @ ch # post \<and> names_user ch row u
     \<and> (\<forall>c \<in> set pre. \<nexists>row' v. names_user c row' v))"

lemma as_string_eq: "as_string v = u \<Longrightarrow> u \<noteq> [] \<Longrightarrow> v = Some (GString u)"
  by (cases v rule: as_string.cases) auto

lemma context_of_None: "context_of ch = None \<longleftrightarrow> (\<nexists>row u. names_user ch row u)"
  using as_string_eq by (fastforce simp: context_of_def names_user_def EventTypeInsert_def Let_def split: option.splits)

lemma context_of_Some:
  assumes "names_user ch row u"
  shows "context_of ch = Some (blank_attribution\<lparr>AA_ActorUserID := Some u,
    AA_ActorType := (if as_string (map_of row ''actor_type'') = [] then ''USER'' else as_string (map_of row ''actor_type'')),
    AA_RequestID := as_string (map_of row ''request_id'')\<rparr>)"
  using assms by (simp add: context_of_def names_user_def EventTypeInsert_def Let_def)

lemma find_context_first:
  "first_named (ch # chs) row u \<longleftrightarrow> (if context_of ch = None then first_named chs row u else names_user ch row u)"
proof (cases "context_of ch = None")
  case True
  then have no: "\<not> names_user ch row' v" for row' v by (simp add: context_of_None)
  have "first_named chs row u" if "ch # chs = pre @ c # post" "names_user c row u" "\<forall>c \<in> set pre. \<nexists>row' v. names_user c row' v" for pre c post
    using that no by (cases pre) (auto simp: first_named_def)
  moreover have "first_named (ch # chs) row u" if "first_named chs row u"
    using that no unfolding first_named_def by (metis append_Cons set_ConsD)
  ultimately show ?thesis using True unfolding first_named_def [of "ch # chs"] by auto
next
  case False
  then obtain row' v where "names_user ch row' v" by (auto simp: context_of_None)
  then have "first_named (ch # chs) row u \<longleftrightarrow> names_user ch row u"
    unfolding first_named_def by (fastforce simp: Cons_eq_append_conv)
  with False show ?thesis by (simp only: if_False)
qed

lemma find_context_Some: "first_named chs row u \<Longrightarrow> \<exists>ch. names_user ch row u \<and> find_context chs = context_of ch"
  by (induction chs) (auto simp: find_context_first first_named_def [of "[]"] split: if_splits option.splits)

lemma find_context_unnamed: "find_context chs = None \<longleftrightarrow> (\<nexists>row u. first_named chs row u)"
proof (induction chs)
  case (Cons ch chs)
  then show ?case using context_of_None [of ch] by (auto simp: find_context_first split: option.splits)
qed (simp add: first_named_def)

lemma find_context_None: "find_context chs = None \<longleftrightarrow> (\<forall>ch\<in>set chs. context_of ch = None)"
  by (induction chs) (auto split: option.splits)

lemma CorrelateTransaction_policy:
  assumes "find_context (Tx_Changes tx) = None"
  shows "AA_ActorUserID (CorrelateTransaction m tx t) = None"
  using assms by (cases "GetTableConfig m t") (simp add: CorrelateTransaction_def blank_attribution_def Let_def)

text \<open>
  C26: A change is attributed to the user \<open>u\<close> exactly when \<open>u\<close> is the \<open>user_id\<close> of the first row that the
  transaction inserted into \<open>_audit_context\<close> with a non-empty string there; type and request are
  then those of the same row (the type \<open>USER\<close> if it has none), and no alert is raised. If no
  such row exists, a table that is not configured or has the policy \<open>tolerate\<close> gives the actor
  type \<open>SYSTEM\<close> and no alert, and any other table \<open>UNATTRIBUTED\<close> and an alert with the severity of the
  table, \<open>normal\<close> if it has none.
\<close>

theorem CorrelateTransaction_spec:
  "(case CorrelateTransaction m tx t of a \<Rightarrow>
      (\<forall>u. AA_ActorUserID a = Some u \<longleftrightarrow> (\<exists>row. first_named (Tx_Changes tx) row u))
      \<and> (\<forall>row u. first_named (Tx_Changes tx) row u \<longrightarrow> \<not> AA_TriggerAlert a
           \<and> AA_ActorType a = (case map_of row ''actor_type'' of Some (GString ty) \<Rightarrow> if ty = [] then ''USER'' else ty | _ \<Rightarrow> ''USER'')
           \<and> AA_RequestID a = (case map_of row ''request_id'' of Some (GString q) \<Rightarrow> q | _ \<Rightarrow> []))
      \<and> (AA_ActorUserID a = None \<longrightarrow>
           (if snd (GetTableConfig m t) \<and> TC_UnattributedPolicy (fst (GetTableConfig m t)) \<noteq> ''tolerate''
            then AA_ActorType a = ''UNATTRIBUTED'' \<and> AA_TriggerAlert a
              \<and> AA_SeverityTier a = (case TC_SeverityTier (fst (GetTableConfig m t)) of [] \<Rightarrow> ''normal'' | s \<Rightarrow> s)
            else AA_ActorType a = ''SYSTEM'' \<and> \<not> AA_TriggerAlert a)))"
proof (cases "find_context (Tx_Changes tx)")
  case None
  then have "\<nexists>row u. first_named (Tx_Changes tx) row u" by (simp add: find_context_unnamed)
  with None show ?thesis
    by (cases "GetTableConfig m t") (auto simp: CorrelateTransaction_def blank_attribution_def Let_def split: list.splits)
next
  case (Some a)
  then obtain row u where f: "first_named (Tx_Changes tx) row u" using find_context_unnamed by (metis option.distinct(1))
  have str: "as_string v = (case v of Some (GString q) \<Rightarrow> q | _ \<Rightarrow> [])" for v
    by (cases v rule: as_string.cases) auto
  have eq: "CorrelateTransaction m tx t = blank_attribution\<lparr>AA_ActorUserID := Some u',
      AA_ActorType := (if as_string (map_of row' ''actor_type'') = [] then ''USER'' else as_string (map_of row' ''actor_type'')),
      AA_RequestID := as_string (map_of row' ''request_id'')\<rparr>" if "first_named (Tx_Changes tx) row' u'" for row' u'
    using find_context_Some [OF that] context_of_Some by (auto simp: CorrelateTransaction_def)
  have "AA_ActorUserID (CorrelateTransaction m tx t) = Some u'' \<longleftrightarrow> (\<exists>row'. first_named (Tx_Changes tx) row' u'')" for u''
    using eq [OF f] eq [of _ u''] f by (auto simp: blank_attribution_def)
  moreover have "AA_ActorUserID (CorrelateTransaction m tx t) \<noteq> None" using eq [OF f] by simp
  moreover have "\<not> AA_TriggerAlert (CorrelateTransaction m tx t)
      \<and> AA_ActorType (CorrelateTransaction m tx t)
          = (case map_of row' ''actor_type'' of Some (GString ty) \<Rightarrow> if ty = [] then ''USER'' else ty | _ \<Rightarrow> ''USER'')
      \<and> AA_RequestID (CorrelateTransaction m tx t) = (case map_of row' ''request_id'' of Some (GString q) \<Rightarrow> q | _ \<Rightarrow> [])"
    if "first_named (Tx_Changes tx) row' u'" for row' u'
    using eq [OF that] by (simp add: str blank_attribution_def split: option.splits gval.splits)
  ultimately show ?thesis by blast
qed

text \<open>Two context rows, the first without a user, the second with a user and no type.\<close>

definition context_change :: "row \<Rightarrow> RowChange" where
  "context_change row = \<lparr>RC_Schema = [], RC_Table = ''_audit_context'', RC_Action = EventTypeInsert,
     RC_BeforeImage = None, RC_AfterImage = Some row\<rparr>"

definition context_tx :: Transaction where
  "context_tx = \<lparr>Tx_TransactionID = ''tx'', Tx_Position = \<lparr>Pos_File = [], Pos_Position = 0, Pos_GTID = []\<rparr>, Tx_CommittedAt = 0,
     Tx_Changes = [context_change [(''actor_type'', GString ''ADMIN'')], context_change [(''user_id'', GString ''u7''), (''request_id'', GString ''q1'')]],
     Tx_DDLStatement = []\<rparr>"

theorem CorrelateTransaction_spec_witness:
  "AA_ActorUserID (CorrelateTransaction NewManager context_tx ''accounts'') = Some ''u7''
   \<and> AA_ActorType (CorrelateTransaction NewManager context_tx ''accounts'') = ''USER''
   \<and> AA_RequestID (CorrelateTransaction NewManager context_tx ''accounts'') = ''q1''"
proof -
  let ?row = "[(''user_id'', GString ''u7''), (''request_id'', GString ''q1'')]"
  have "names_user (context_change ?row) ?row ''u7''" "\<nexists>row v. names_user (context_change [(''actor_type'', GString ''ADMIN'')]) row v"
    by (auto simp: names_user_def context_change_def EventTypeInsert_def)
  then have f: "first_named (Tx_Changes context_tx) ?row ''u7''"
    unfolding first_named_def context_tx_def
    by (intro exI [of _ "[context_change [(''actor_type'', GString ''ADMIN'')]]"] exI [of _ "context_change ?row"] exI [of _ "[]"]) simp
  from CorrelateTransaction_spec [of NewManager context_tx "''accounts''"] have
    "\<forall>u. AA_ActorUserID (CorrelateTransaction NewManager context_tx ''accounts'') = Some u \<longleftrightarrow> (\<exists>row. first_named (Tx_Changes context_tx) row u)"
    "\<forall>row u. first_named (Tx_Changes context_tx) row u \<longrightarrow> \<not> AA_TriggerAlert (CorrelateTransaction NewManager context_tx ''accounts'')
       \<and> AA_ActorType (CorrelateTransaction NewManager context_tx ''accounts'')
           = (case map_of row ''actor_type'' of Some (GString ty) \<Rightarrow> if ty = [] then ''USER'' else ty | _ \<Rightarrow> ''USER'')
       \<and> AA_RequestID (CorrelateTransaction NewManager context_tx ''accounts'')
           = (case map_of row ''request_id'' of Some (GString q) \<Rightarrow> q | _ \<Rightarrow> [])"
    by blast+
  with f show ?thesis by fastforce
qed

end
