(* ===== verification/Snapshot.thy ===== *)
theory Snapshot
  imports Attribution Store JsonValid
begin

text \<open>
  The snapshot builder, \<open>internal/snapshot/snapshot.go\<close>: row images with encrypted columns, the
  primary key, the schema version and the audit record.

  The encryptor is an optional function; the randomness it draws for a column of an image is an
  argument, and so is the identifier of the record.
\<close>

section \<open>Model\<close>

type_synonym 'r encryptor = "'r \<Rightarrow> bytes \<Rightarrow> (bytes \<times> string) result"

definition enc_text :: "string \<Rightarrow> bytes \<Rightarrow> string" where
  "enc_text ver ciphertext = ''enc:'' @ ver @ '':'' @ b64_encode ciphertext"

definition process_column :: "'r encryptor option \<Rightarrow> string list \<Rightarrow> (string \<Rightarrow> 'r) \<Rightarrow> string \<times> gval \<Rightarrow> (string \<times> gval) result" where
  "process_column encryptor encColumns rnd kv =
     (case kv of (k, v) \<Rightarrow>
        (case encryptor of
           Some enc \<Rightarrow>
             if k \<in> set encColumns \<and> v \<noteq> GNil then
               result_bind (wrap_err (''failed to marshal column '' @ k @ '' for encryption'') (marshal v)) (\<lambda>valText.
               result_bind (wrap_err (''failed to encrypt column '' @ k) (enc (rnd k) (bytes_of valText)))
                 (\<lambda>(ciphertext, ver). Inr (k, GString (enc_text ver ciphertext))))
             else Inr (k, v)
         | None \<Rightarrow> Inr (k, v)))"

definition processRow :: "'r encryptor option \<Rightarrow> row \<Rightarrow> string list \<Rightarrow> (string \<Rightarrow> 'r) \<Rightarrow> row result" where
  "processRow encryptor row encColumns rnd = traverse (process_column encryptor encColumns rnd) row"

definition has_id_suffix :: "string \<Rightarrow> bool" where
  "has_id_suffix k \<longleftrightarrow> length k \<ge> 3 \<and> drop (length k - 3) k = ''_id''"

definition extractPrimaryKey :: "row option \<Rightarrow> row option \<Rightarrow> string result" where
  "extractPrimaryKey before after =
     (case (case after of Some r \<Rightarrow> Some r | None \<Rightarrow> before) of
        None \<Rightarrow> marshal (GMap [(''id'', GString ''unknown'')])
      | Some source \<Rightarrow>
          (case find (\<lambda>candidate. map_of source candidate \<noteq> None) [''id'', ''ID'', ''uuid'', ''pk''] of
             Some candidate \<Rightarrow> marshal (GMap [(candidate, the (map_of source candidate))])
           | None \<Rightarrow>
               (case find (\<lambda>(k, v). has_id_suffix k) source of
                  Some (k, v) \<Rightarrow> marshal (GMap [(k, v)])
                | None \<Rightarrow>
                    (case sort (map fst source) of
                       k # _ \<Rightarrow> marshal (GMap [(k, the (map_of source k))])
                     | [] \<Rightarrow> marshal (GMap [(''row'', GString ''unknown'')])))))"

definition computeSchemaVersion :: "row option \<Rightarrow> row option \<Rightarrow> string" where
  "computeSchemaVersion before after =
     (case (case after of Some r \<Rightarrow> Some r | None \<Rightarrow> before) of
        None \<Rightarrow> ''v0''
      | Some source \<Rightarrow>
          take 16 (hex_encode (sha256 (concat (map (\<lambda>k. bytes_of k @ bytes_of '';'') (sort (map fst source)))))))"

text \<open>What building a record draws: its identifier and the randomness for both images.\<close>

record 'r snapshot_env =
  se_uuid :: string
  se_before :: "string \<Rightarrow> 'r"
  se_after :: "string \<Rightarrow> 'r"

definition image_text ::
  "string \<Rightarrow> 'r encryptor option \<Rightarrow> bool \<Rightarrow> row option \<Rightarrow> string list \<Rightarrow> (string \<Rightarrow> 'r) \<Rightarrow> string result" where
  "image_text which encryptor wanted img encColumns rnd =
     (case img of
        Some row \<Rightarrow>
          if wanted then
            result_bind (wrap_err (''failed to process '' @ which @ '' image'')
                (processRow encryptor row encColumns rnd)) (\<lambda>processed.
              wrap_err (''failed to marshal '' @ which @ '' image'') (marshal (GMap processed)))
          else Inr []
      | None \<Rightarrow> Inr [])"

definition BuildRecord ::
  "'r encryptor option \<Rightarrow> 'r snapshot_env \<Rightarrow> RowChange \<Rightarrow> TableConfig \<Rightarrow> ActorAttribution \<Rightarrow> string \<Rightarrow> time \<Rightarrow> int
     \<Rightarrow> Record result" where
  "BuildRecord encryptor env change tableCfg attr txID committedAt leafIndex =
     result_bind (image_text ''before'' encryptor
         (RC_Action change = EventTypeUpdate \<or> RC_Action change = EventTypeDelete)
         (RC_BeforeImage change) (TC_EncryptedColumns tableCfg) (se_before env)) (\<lambda>beforeBytes.
     result_bind (image_text ''after'' encryptor
         (RC_Action change = EventTypeInsert \<or> RC_Action change = EventTypeUpdate)
         (RC_AfterImage change) (TC_EncryptedColumns tableCfg) (se_after env)) (\<lambda>afterBytes.
     result_bind (wrap_err ''failed to extract primary key''
         (extractPrimaryKey (RC_BeforeImage change) (RC_AfterImage change))) (\<lambda>pkBytes.
       Inr \<lparr>R_ID = se_uuid env, R_BatchID = [], R_TableName = RC_Table change, R_PrimaryKey = pkBytes,
            R_EventType = RC_Action change, R_BeforeImage = beforeBytes, R_AfterImage = afterBytes,
            R_ActorUserID = AA_ActorUserID attr, R_ActorType = AA_ActorType attr, R_TransactionID = txID,
            R_SchemaVersion = computeSchemaVersion (RC_BeforeImage change) (RC_AfterImage change),
            R_CommittedAt = committedAt, R_MerkleLeafIndex = leafIndex\<rparr>)))"

section \<open>Encrypted columns\<close>

lemma process_column_key: "process_column enc cols rnd (k, v) = Inr kv \<Longrightarrow> fst kv = k"
  by (auto simp: process_column_def split: option.splits if_splits)

lemma process_column_plain:
  "process_column enc cols rnd (k, v) = Inr kv \<Longrightarrow> k \<notin> set cols \<or> v = GNil \<or> enc = None \<Longrightarrow> kv = (k, v)"
  by (auto simp: process_column_def split: option.splits if_splits)

lemma processRow_keys: "processRow enc row cols rnd = Inr out \<Longrightarrow> map fst out = map fst row"
proof -
  assume "processRow enc row cols rnd = Inr out"
  then have "list_all2 (\<lambda>kv kv'. process_column enc cols rnd kv = Inr kv') row out"
    by (simp add: processRow_def traverse_Inr_iff)
  then show ?thesis by (induction rule: list_all2_induct) (auto dest: process_column_key)
qed

text \<open>
  C27: Columns listed for encryption never reach the record in the clear, and can be recovered: in
  the processed row every other column is as it was, and a listed column with a value is the
  text \<open>enc:<version>:<base64>\<close> of a ciphertext that the key manager decrypts, under that
  version, to the JSON of the original value.
\<close>

theorem processRow_encrypts:
  assumes "processRow (Some (Encrypt c m)) row cols rnd = Inr out" "gcm_ok c" "\<And>k. nonce_ok (rnd k)"
  shows "map fst out = map fst row \<and> list_all2 (\<lambda>(k, v) (k', v').
     if k \<in> set cols \<and> v \<noteq> GNil
     then \<exists>t ct ver. marshal v = Inr t \<and> v' = GString (enc_text ver ct) \<and> Decrypt c m ct ver = Inr (bytes_of t)
     else v' = v) row out"
proof -
  have "list_all2 (\<lambda>kv kv'. process_column (Some (Encrypt c m)) cols rnd kv = Inr kv') row out"
    using assms(1) by (simp add: processRow_def traverse_Inr_iff)
  then have "list_all2 (\<lambda>(k, v) (k', v').
     if k \<in> set cols \<and> v \<noteq> GNil
     then \<exists>t ct ver. marshal v = Inr t \<and> v' = GString (enc_text ver ct) \<and> Decrypt c m ct ver = Inr (bytes_of t)
     else v' = v) row out"
  proof (rule list_all2_mono)
    fix kv kv' assume p: "process_column (Some (Encrypt c m)) cols rnd kv = Inr kv'"
    obtain k v k' v' where kv: "kv = (k, v)" "kv' = (k', v')" by (cases kv; cases kv')
    show "(\<lambda>(k, v) (k', v'). if k \<in> set cols \<and> v \<noteq> GNil
       then \<exists>t ct ver. marshal v = Inr t \<and> v' = GString (enc_text ver ct) \<and> Decrypt c m ct ver = Inr (bytes_of t)
       else v' = v) kv kv'"
    proof (cases "k \<in> set cols \<and> v \<noteq> GNil")
      case True
      then obtain t ct ver where t: "marshal v = Inr t" "Encrypt c m (rnd k) (bytes_of t) = Inr (ct, ver)"
          "v' = GString (enc_text ver ct)"
        using p kv by (auto simp: process_column_def)
      with lke.decrypt_encrypt [of c "rnd k" m "bytes_of t" ct ver] assms(2,3) True kv show ?thesis by auto
    next
      case False
      then have "kv' = (k, v)" using process_column_plain p kv by blast
      with False kv show ?thesis by auto
    qed
  qed
  with processRow_keys assms(1) show ?thesis by blast
qed

theorem processRow_encrypts_witness:
  "\<exists>ct. processRow (Some (Encrypt toy_crypto (toy_keys ''v1'' [])))
       [(''id'', GInt KInt64 7), (''ssn'', GString ''x'')] [''ssn''] (\<lambda>_. Inr (replicate 12 3))
     = Inr [(''id'', GInt KInt64 7), (''ssn'', GString (enc_text ''v1'' ct))]
   \<and> Decrypt toy_crypto (toy_keys ''v1'' []) ct ''v1'' = Inr (bytes_of (quote ''x''))"
proof -
  let ?ct = "replicate 12 3 @ 0xA5 # bytes_of (quote ''x'')"
  have p: "processRow (Some (Encrypt toy_crypto (toy_keys ''v1'' [])))
       [(''id'', GInt KInt64 7), (''ssn'', GString ''x'')] [''ssn''] (\<lambda>_. Inr (replicate 12 3))
     = Inr [(''id'', GInt KInt64 7), (''ssn'', GString (enc_text ''v1'' ?ct))]"
    by (simp add: processRow_def process_column_def Encrypt_def toy_crypto_def toy_keys_def aes_NewCipher_def)
  have n: "nonce_ok (Inr (replicate 12 3))" by (simp add: nonce_ok_def NonceSize_def)
  from processRow_encrypts [OF p toy_good(2) n] obtain t ct ver where
    "quote ''x'' = t" "enc_text ''v1'' ?ct = enc_text ver ct"
    "Decrypt toy_crypto (toy_keys ''v1'' []) ct ver = Inr (bytes_of t)" by auto
  have "Decrypt toy_crypto (toy_keys ''v1'' []) ?ct ''v1'' = Inr (bytes_of (quote ''x''))"
    by (simp add: Decrypt_def toy_crypto_def toy_keys_def aes_NewCipher_def NonceSize_def)
  with p show ?thesis by blast
qed

section \<open>Every built record can be hashed\<close>

text \<open>Rows as the driver delivers them: literals of floats are numbers, values nest little.\<close>

definition row_ok :: "row \<Rightarrow> bool" where
  "row_ok row \<longleftrightarrow> list_all (\<lambda>(k, v). floats_ok v \<and> nesting v < max_nesting) row"

lemma fold_max_le:
  fixes f :: "'a \<Rightarrow> nat"
  shows "(\<And>x. x \<in> set xs \<Longrightarrow> f x \<le> N) \<Longrightarrow> n \<le> N \<Longrightarrow> fold (\<lambda>v. max (f v)) xs n \<le> N"
  by (induction xs arbitrary: n) auto

lemma row_ok_map:
  assumes "row_ok row"
  shows "floats_ok (GMap row)" "nesting (GMap row) \<le> max_nesting"
proof -
  show "floats_ok (GMap row)" using assms by (auto simp: row_ok_def list_all_iff)
  have "fold (\<lambda>kv. max ((\<lambda>(k, v). nesting v) kv)) row 0 \<le> max_nesting - 1"
    using assms by (intro fold_max_le) (auto simp: row_ok_def list_all_iff)
  then show "nesting (GMap row) \<le> max_nesting" by (simp add: case_prod_unfold max_nesting_def)
qed

lemma row_ok_processed:
  assumes "processRow enc row cols rnd = Inr out" "row_ok row"
  shows "row_ok out"
proof -
  have "list_all2 (\<lambda>kv kv'. process_column enc cols rnd kv = Inr kv') row out"
    using assms(1) by (simp add: processRow_def traverse_Inr_iff)
  then show ?thesis using assms(2)
  proof (induction rule: list_all2_induct)
    case (Cons kv row kv' out)
    obtain k v where kv: "kv = (k, v)" by (cases kv)
    have "kv' = (k, v) \<or> (\<exists>t. kv' = (k, GString t))"
      using Cons.hyps(1) kv by (auto simp: process_column_def split: option.splits if_splits)
    with Cons kv show ?case by (auto simp: row_ok_def max_nesting_def)
  qed (simp add: row_ok_def)
qed

lemma image_text_raw:
  assumes "image_text which enc wanted img cols rnd = Inr t" "\<And>row. img = Some row \<Longrightarrow> row_ok row"
  shows "\<exists>f. raw_field name t = Inr f"
proof (cases "t = []")
  case False
  with assms(1) obtain row out where out: "img = Some row" "processRow enc row cols rnd = Inr out"
      "marshal (GMap out) = Inr t"
    by (auto simp: image_text_def split: option.splits if_splits)
  have "row_ok out" using row_ok_processed [OF out(2)] assms(2) out(1) by blast
  then obtain u where "compact t = Inr u" using marshal_compact [OF out(3) row_ok_map] by blast
  with False show ?thesis by (simp add: raw_field_def)
qed (simp add: raw_field_def)

lemma extractPrimaryKey_value:
  assumes "extractPrimaryKey before after = Inr t"
  shows "\<exists>k v. marshal (GMap [(k, v)]) = Inr t
    \<and> (v = GString ''unknown'' \<or> (\<exists>row. (before = Some row \<or> after = Some row) \<and> (k, v) \<in> set row))"
proof (cases "case after of Some r \<Rightarrow> Some r | None \<Rightarrow> before")
  case None
  with assms show ?thesis by (auto simp: extractPrimaryKey_def simp del: marshal.simps)
next
  case (Some source)
  then have src: "before = Some source \<or> after = Some source" by (auto split: option.splits)
  have mem: "(k, the (map_of source k)) \<in> set source" if "map_of source k \<noteq> None" for k
    using that by (auto dest: map_of_SomeD)
  have key: "map_of source k \<noteq> None" if "sort (map fst source) = k # ks" for k ks
    using that by (metis list.set_intros(1) map_of_eq_None_iff set_map set_sort)
  have *: "?thesis" if "marshal (GMap [(k, v)]) = Inr t" "(k, v) \<in> set source \<or> v = GString ''unknown''" for k v
    using that src by blast
  note def = assms [unfolded extractPrimaryKey_def Some option.case]
  show ?thesis
  proof (cases "find (\<lambda>c. map_of source c \<noteq> None) [''id'', ''ID'', ''uuid'', ''pk'']")
    case (Some c)
    then have "map_of source c \<noteq> None" unfolding find_Some_iff by blast
    with mem def [unfolded Some option.case] show ?thesis by (intro *) auto
  next
    case none: None
    show ?thesis
    proof (cases "find (\<lambda>(k, v). has_id_suffix k) source")
      case (Some kv)
      obtain k v where kv: "kv = (k, v)" by (cases kv)
      then have "(k, v) \<in> set source" using Some by (auto simp: find_Some_iff in_set_conv_nth)
      with def [unfolded none Some option.case kv prod.case] show ?thesis by (intro *) auto
    next
      case None
      show ?thesis
      proof (cases "sort (map fst source)")
        case Nil
        with def [unfolded none None option.case] show ?thesis by (intro *) auto
      next
        case (Cons k ks)
        with def [unfolded none None option.case] mem [OF key [OF Cons]] show ?thesis by (intro *) auto
      qed
    qed
  qed
qed

lemma BuildRecord_leaf:
  assumes "BuildRecord enc env change cfg attr txID t i = Inr r"
    and "\<And>row. RC_BeforeImage change = Some row \<or> RC_AfterImage change = Some row \<Longrightarrow> row_ok row"
  shows "(\<exists>h. record_leaf (r\<lparr>R_BatchID := bid, R_MerkleLeafIndex := n\<rparr>) = Inr h)
    \<and> (RC_Action change = EventTypeInsert \<longrightarrow> R_BeforeImage r = [])
    \<and> (RC_Action change = EventTypeDelete \<longrightarrow> R_AfterImage r = [])"
proof -
  let ?p = "record_payload (r\<lparr>R_BatchID := bid, R_MerkleLeafIndex := n\<rparr>)"
  have fields: "P_PrimaryKey (normalize_payload ?p) = R_PrimaryKey r" "P_BeforeImage (normalize_payload ?p) = R_BeforeImage r"
    "P_AfterImage (normalize_payload ?p) = R_AfterImage r"
    by (simp_all add: normalize_payload_def record_payload_def split: option.splits)
  obtain w1 w2 where img: "image_text ''before'' enc w1 (RC_BeforeImage change) (TC_EncryptedColumns cfg) (se_before env)
        = Inr (R_BeforeImage r)"
      "image_text ''after'' enc w2 (RC_AfterImage change) (TC_EncryptedColumns cfg) (se_after env) = Inr (R_AfterImage r)"
      "extractPrimaryKey (RC_BeforeImage change) (RC_AfterImage change) = Inr (R_PrimaryKey r)"
      "w1 = (RC_Action change = EventTypeUpdate \<or> RC_Action change = EventTypeDelete)"
      "w2 = (RC_Action change = EventTypeInsert \<or> RC_Action change = EventTypeUpdate)"
    using assms(1) by (auto simp: BuildRecord_def)
  obtain k v where pk: "marshal (GMap [(k, v)]) = Inr (R_PrimaryKey r)"
      "v = GString ''unknown'' \<or> (\<exists>row. (RC_BeforeImage change = Some row \<or> RC_AfterImage change = Some row) \<and> (k, v) \<in> set row)"
    using extractPrimaryKey_value [OF img(3)] by blast
  have "row_ok [(k, v)]"
    using pk(2) assms(2) by (fastforce simp: row_ok_def list_all_iff max_nesting_def)
  then obtain u where "compact (R_PrimaryKey r) = Inr u" "R_PrimaryKey r \<noteq> []"
    using marshal_compact [OF pk(1)] marshal_not_Nil [OF pk(1)] row_ok_map by blast
  moreover obtain f g where "raw_field ''before_image'' (R_BeforeImage r) = Inr f" "raw_field ''after_image'' (R_AfterImage r) = Inr g"
    using image_text_raw [OF img(1)] image_text_raw [OF img(2)] assms(2) by blast
  ultimately have "\<exists>h. ComputeRecordLeafHash ?p = Inr h"
    by (simp add: ComputeRecordLeafHash_def canonical_bytes_def marshal_payload_def marshal_raw_def fields)
  moreover have "RC_Action change = EventTypeInsert \<longrightarrow> R_BeforeImage r = []"
      "RC_Action change = EventTypeDelete \<longrightarrow> R_AfterImage r = []"
    using img by (auto simp: image_text_def event_types split: option.splits)
  ultimately show ?thesis by (simp add: record_leaf_def)
qed

text \<open>
  C28: Every record \<open>BuildRecord\<close> returns can be hashed: if the row images hold ordinary values,
  the leaf hash of the record can be computed for whatever batch and position it is given, so
  closing the batch does not fail on it. The record has a before image only for an update or
  a delete, and an after image only for an insert or an update.
\<close>

theorem BuildRecord_hashable:
  assumes "BuildRecord enc env change cfg attr txID t i = Inr r"
    and "\<And>row. RC_BeforeImage change = Some row \<or> RC_AfterImage change = Some row \<Longrightarrow> row_ok row"
  shows "(\<exists>h. record_leaf (r\<lparr>R_BatchID := bid, R_MerkleLeafIndex := n\<rparr>) = Inr h)
    \<and> (RC_Action change = EventTypeInsert \<longrightarrow> R_BeforeImage r = [])
    \<and> (RC_Action change = EventTypeDelete \<longrightarrow> R_AfterImage r = [])"
  using assms by (rule BuildRecord_leaf)

section \<open>Independence of the iteration order\<close>

lemma perm_map_of:
  assumes "mset xs = mset ys" "distinct (map fst xs)"
  shows "map_of xs = map_of ys"
proof -
  have "distinct (map fst ys)" using assms by (metis mset_eq_imp_distinct_iff mset_map)
  moreover have "set xs = set ys" using assms(1) by (rule mset_eq_setD)
  ultimately show ?thesis using assms(2) by (simp add: map_of_inject_set)
qed

lemma perm_sort_keys: "mset xs = mset ys \<Longrightarrow> sort (map fst xs) = sort (map fst ys)"
  by (metis mset_map properties_for_sort sorted_sort mset_sort)

lemma short_perm:
  assumes "length xs \<le> 1" "mset xs = mset ys"
  shows "xs = ys"
proof -
  have "length ys \<le> 1" using assms mset_eq_length by metis
  with assms show ?thesis by (cases xs; cases ys) auto
qed

lemma find_filter: "find P xs = (case filter P xs of [] \<Rightarrow> None | x # _ \<Rightarrow> Some x)"
  by (induction xs) auto

text \<open>
  The schema version depends only on the column names: two rows with the same columns have the
  same version, whatever their values and the order in which Go visits the map, and a version
  other than \<open>v0\<close> is sixteen hexadecimal digits.
\<close>

theorem computeSchemaVersion_columns:
  assumes "distinct (map fst xs)" "distinct (map fst ys)" "fst ` set xs = fst ` set ys"
  shows "computeSchemaVersion b (Some xs) = computeSchemaVersion b' (Some ys)
    \<and> length (computeSchemaVersion b (Some xs)) = 16"
proof -
  have "mset (map fst xs) = mset (map fst ys)"
    using assms by (metis set_eq_iff_mset_eq_distinct set_map)
  then have "sort (map fst xs) = sort (map fst ys)"
    by (metis mset_sort properties_for_sort sorted_sort)
  then show ?thesis by (simp add: computeSchemaVersion_def)
qed

theorem computeSchemaVersion_columns_witness:
  "computeSchemaVersion None (Some [(''b'', GNil), (''a'', GBool True)])
     = computeSchemaVersion None (Some [(''a'', GNil), (''b'', GNil)])"
  using computeSchemaVersion_columns [of "[(''b'', GNil), (''a'', GBool True)]" "[(''a'', GNil), (''b'', GNil)]" None None]
  by auto

text \<open>
  The primary key of a row does not depend on the order in which Go visits the map, provided
  the row has one of the columns \<open>id\<close>, \<open>ID\<close>, \<open>uuid\<close>, \<open>pk\<close>, or at most one column
  whose name ends in \<open>_id\<close>.
\<close>

theorem extractPrimaryKey_deterministic:
  assumes "mset xs = mset ys" "distinct (map fst xs)"
    and "list_ex (\<lambda>k. map_of xs k \<noteq> None) [''id'', ''ID'', ''uuid'', ''pk'']
      \<or> length (filter (\<lambda>(k, v). has_id_suffix k) xs) \<le> 1"
  shows "extractPrimaryKey b (Some xs) = extractPrimaryKey b (Some ys)"
proof (cases "find (\<lambda>c. map_of xs c \<noteq> None) [''id'', ''ID'', ''uuid'', ''pk'']")
  case (Some c)
  with perm_map_of [OF assms(1,2)] show ?thesis by (simp add: extractPrimaryKey_def)
next
  case None
  then have one: "length (filter (\<lambda>(k, v). has_id_suffix k) xs) \<le> 1"
    using assms(3) unfolding find_None_iff list_ex_iff by blast
  have "mset (filter (\<lambda>(k, v). has_id_suffix k) xs) = mset (filter (\<lambda>(k, v). has_id_suffix k) ys)"
    using assms(1) by (simp add: mset_filter)
  then have "filter (\<lambda>(k, v). has_id_suffix k) xs = filter (\<lambda>(k, v). has_id_suffix k) ys"
    using one short_perm by blast
  then have f: "find (\<lambda>(k, v). has_id_suffix k) xs = find (\<lambda>(k, v). has_id_suffix k) ys"
    by (simp add: find_filter)
  show ?thesis
    unfolding extractPrimaryKey_def option.case f perm_map_of [OF assms(1,2)] perm_sort_keys [OF assms(1)] ..
qed

theorem extractPrimaryKey_deterministic_witness:
  "extractPrimaryKey None (Some [(''order_id'', GInt KInt64 1), (''name'', GNil)])
     = extractPrimaryKey None (Some [(''name'', GNil), (''order_id'', GInt KInt64 1)])"
  by (rule extractPrimaryKey_deterministic) (simp_all add: has_id_suffix_def)

text \<open>
  With two columns that end in \<open>_id\<close> and no standard key the primary key of a row depends on
  the order in which Go happens to visit the map, so two changes of the same row can be filed
  under different keys.
\<close>

theorem extractPrimaryKey_order_dependent:
  "extractPrimaryKey b (Some [(''a_id'', GInt KInt64 1), (''b_id'', GInt KInt64 2)])
     \<noteq> extractPrimaryKey b (Some [(''b_id'', GInt KInt64 2), (''a_id'', GInt KInt64 1)])"
  by (simp add: extractPrimaryKey_def has_id_suffix_def quote_def quote_body_Cons escape_ascii_def html_special_def)

definition sample_insert :: RowChange where
  "sample_insert = \<lparr>RC_Schema = ''app'', RC_Table = ''accounts'', RC_Action = EventTypeInsert,
     RC_BeforeImage = None, RC_AfterImage = Some [(''id'', GInt KInt64 7), (''rate'', GFloat (Some ''1.5''))]\<rparr>"

definition sample_snapshot_env :: "bytes result snapshot_env" where
  "sample_snapshot_env = \<lparr>se_uuid = ''r1'', se_before = (\<lambda>_. Inr (replicate 12 3)), se_after = (\<lambda>_. Inr (replicate 12 3))\<rparr>"

lemma sample_build:
  "\<exists>r. BuildRecord None sample_snapshot_env sample_insert zero_config blank_attribution ''tx'' 0 0 = Inr r"
  by (simp add: BuildRecord_def image_text_def sample_insert_def processRow_def process_column_def
      extractPrimaryKey_def)

theorem BuildRecord_hashable_witness:
  "\<exists>r h. BuildRecord None sample_snapshot_env sample_insert zero_config blank_attribution ''tx'' 0 0 = Inr r
     \<and> record_leaf (r\<lparr>R_BatchID := ''b1'', R_MerkleLeafIndex := 5\<rparr>) = Inr h \<and> R_BeforeImage r = []"
proof -
  obtain r where r: "BuildRecord None sample_snapshot_env sample_insert zero_config blank_attribution ''tx'' 0 0 = Inr r"
    using sample_build by blast
  have "row_ok row" if "RC_BeforeImage sample_insert = Some row \<or> RC_AfterImage sample_insert = Some row" for row
    using that by (auto simp: sample_insert_def row_ok_def max_nesting_def num_start_def is_digit_def)
  from BuildRecord_hashable [OF r this, where bid = "''b1''" and n = 5] r show ?thesis
    by (auto simp: sample_insert_def)
qed

end
