(* ===== verification/Batching.thy ===== *)
theory Batching
  imports Store Archive Alerting Source
begin

text \<open>
  The batcher of \<open>internal/batch/batcher.go\<close>: buffering of records, closing of a batch
  (hash, sign, persist, checkpoint, alert, reset) and the timer.

  The store, the archive and the dispatcher the batcher shares with the rest of the program are
  the \<open>World\<close>; the implementations it was constructed with are the \<open>Deps\<close>. The clock
  readings and identifiers one call draws are its argument \<open>close_env\<close>. The timer is its
  deadline. A registered callback is the list of the batches it was called with.

  \<open>batcher_reach\<close> is every state some interleaving of the batcher's operations leads to, with
  every outcome of the store, the archive and the signer. The invariants over it say that no
  record is lost, duplicated or reordered, and that every closed batch is sealed by a signature
  over the root of exactly its records.
\<close>

section \<open>Model\<close>

record Config =
  Cfg_MaxInterval :: duration
  Cfg_MaxEvents :: int

record CheckpointObject =
  CO_BatchID :: string
  CO_StartedAt :: time
  CO_ClosedAt :: time
  CO_EventCount :: int
  CO_MerkleRoot :: string
  CO_Signature :: string
  CO_KeyVersion :: string
  CO_BinlogFile :: string
  CO_BinlogPosition :: "32 word"
  CO_IsBootstrap :: bool
  CO_BootstrapTable :: string

record Batcher =
  BT_cfg :: Config
  BT_currentBatchID :: string
  BT_startedAt :: time
  BT_records :: "Record list"
  BT_alertsQueue :: "Alert list"
  BT_lastPosition :: Position
  BT_timer :: "time option"
  BT_isBootstrap :: bool
  BT_bootstrapTable :: string
  BT_onBatchClosed :: "Batch list option"

record ('s, 'a) Deps =
  dp_store :: "'s StoreI"
  dp_archive :: "'a ArchiveI"
  dp_sign :: "bytes \<Rightarrow> (bytes \<times> string) result"
  dp_http :: http_api

record ('s, 'a) World =
  W_store :: 's
  W_archive :: 'a
  W_dispatcher :: "Dispatcher option"

text \<open>
  What closing a batch draws: the closing time, the identifier and the starting time of the next
  batch, the time at which the timer is set, and what each triggered alert draws.
\<close>

record close_env =
  ce_closedAt :: time
  ce_newID :: string
  ce_startedAt :: time
  ce_timerNow :: time
  ce_alerts :: "nat \<Rightarrow> trigger_env"

abbreviation zero_position :: Position where
  "zero_position \<equiv> \<lparr>Pos_File = [], Pos_Position = 0, Pos_GTID = []\<rparr>"

text \<open>\<open>resetTimer\<close> stops the timer and starts it anew.\<close>

definition resetTimer :: "time \<Rightarrow> Batcher \<Rightarrow> Batcher" where
  "resetTimer now b = b\<lparr>BT_timer := Some (now + Cfg_MaxInterval (BT_cfg b))\<rparr>"

definition NewBatcher :: "Config \<Rightarrow> string \<Rightarrow> time \<Rightarrow> time \<Rightarrow> Batcher" where
  "NewBatcher cfg uuid startedAt timerNow =
     (let cfg = (if Cfg_MaxInterval cfg \<le> 0 then cfg\<lparr>Cfg_MaxInterval := 60 * 1000000000\<rparr> else cfg);
          cfg = (if Cfg_MaxEvents cfg \<le> 0 then cfg\<lparr>Cfg_MaxEvents := 5000\<rparr> else cfg)
      in resetTimer timerNow
           \<lparr>BT_cfg = cfg, BT_currentBatchID = uuid, BT_startedAt = startedAt, BT_records = [],
            BT_alertsQueue = [], BT_lastPosition = zero_position, BT_timer = None,
            BT_isBootstrap = False, BT_bootstrapTable = [], BT_onBatchClosed = None\<rparr>)"

definition SetBatchClosedCallback :: "Batcher \<Rightarrow> Batcher" where
  "SetBatchClosedCallback b = b\<lparr>BT_onBatchClosed := Some []\<rparr>"

definition SetBootstrapMode :: "bool \<Rightarrow> string \<Rightarrow> Batcher \<Rightarrow> Batcher" where
  "SetBootstrapMode isBootstrap tableName b =
     b\<lparr>BT_isBootstrap := isBootstrap, BT_bootstrapTable := tableName\<rparr>"

definition QueueAlert :: "Alert \<Rightarrow> Batcher \<Rightarrow> Batcher" where
  "QueueAlert alert b = b\<lparr>BT_alertsQueue := BT_alertsQueue b @ [alert]\<rparr>"

definition CurrentEventCount :: "Batcher \<Rightarrow> int" where
  "CurrentEventCount b = int (length (BT_records b))"

text \<open>Steps 1 and 2 of \<open>CloseCurrentBatch\<close>: the tree over the records and the signed batch row.\<close>

definition seal_batch :: "('s, 'a) Deps \<Rightarrow> time \<Rightarrow> Batcher \<Rightarrow> Batch result" where
  "seal_batch dp closedAt b =
     result_bind (wrap_err ''failed to compute record leaf hash'' (traverse record_leaf (BT_records b))) (\<lambda>leafHashes.
     result_bind (wrap_err ''failed to build merkle tree'' (BuildTree leafHashes)) (\<lambda>tree.
     result_bind (wrap_err ''failed to sign merkle root'' (dp_sign dp (Root tree))) (\<lambda>(sig, keyVer).
       Inr \<lparr>B_ID = BT_currentBatchID b, B_StartedAt = BT_startedAt b, B_ClosedAt = closedAt,
            B_EventCount = int (length (BT_records b)), B_MerkleRoot = Root tree, B_Signature = sig,
            B_KeyVersion = keyVer, B_BinlogFile = Pos_File (BT_lastPosition b),
            B_BinlogPosition = Pos_Position (BT_lastPosition b), B_Status = ''signed'',
            B_WORMObjectKey = Some (checkpoint_key (BT_currentBatchID b)),
            B_IsBootstrap = BT_isBootstrap b,
            B_BootstrapTableName = (if BT_bootstrapTable b \<noteq> [] then Some (BT_bootstrapTable b) else None)\<rparr>)))"

definition marshal_bool :: "bool \<Rightarrow> string" where
  "marshal_bool v = (if v then ''true'' else ''false'')"

definition marshal_checkpoint :: "CheckpointObject \<Rightarrow> string result" where
  "marshal_checkpoint c =
     result_bind (marshal_time (CO_StartedAt c)) (\<lambda>started.
     result_bind (marshal_time (CO_ClosedAt c)) (\<lambda>closed.
       Inr (indent_fields
         ([(''batch_id'', quote (CO_BatchID c)), (''started_at'', started), (''closed_at'', closed),
           (''event_count'', show_int (CO_EventCount c)), (''merkle_root'', quote (CO_MerkleRoot c)),
           (''signature'', quote (CO_Signature c)), (''key_version'', quote (CO_KeyVersion c)),
           (''binlog_file'', quote (CO_BinlogFile c)),
           (''binlog_position'', show_nat (unat (CO_BinlogPosition c))),
           (''is_bootstrap'', marshal_bool (CO_IsBootstrap c))]
          @ (if CO_BootstrapTable c = [] then [] else [(''bootstrap_table'', quote (CO_BootstrapTable c))])))))"

definition checkpoint_object :: "Batcher \<Rightarrow> Batch \<Rightarrow> CheckpointObject" where
  "checkpoint_object b bt =
     \<lparr>CO_BatchID = B_ID bt, CO_StartedAt = B_StartedAt bt, CO_ClosedAt = B_ClosedAt bt,
      CO_EventCount = B_EventCount bt, CO_MerkleRoot = hex_encode (B_MerkleRoot bt),
      CO_Signature = hex_encode (B_Signature bt), CO_KeyVersion = B_KeyVersion bt,
      CO_BinlogFile = B_BinlogFile bt, CO_BinlogPosition = B_BinlogPosition bt,
      CO_IsBootstrap = B_IsBootstrap bt, CO_BootstrapTable = BT_bootstrapTable b\<rparr>"

text \<open>Step 5: the queued alerts are triggered; the results are ignored.\<close>

definition alert_args :: "Alert \<Rightarrow> trigger_args" where
  "alert_args a = \<lparr>ta_trigger = A_Trigger a, ta_severity = A_Severity a, ta_tableName = A_TableName a,
     ta_recordID = A_RecordID a, ta_txID = A_TransactionID a, ta_message = A_Message a\<rparr>"

definition fire_alerts :: "http_api \<Rightarrow> (nat \<Rightarrow> trigger_env) \<Rightarrow> Alert list \<Rightarrow> Dispatcher option \<Rightarrow> Dispatcher option" where
  "fire_alerts h envs alerts disp =
     map_option (\<lambda>d. snd (trigger_all h d (map (\<lambda>(i, a). (envs i, alert_args a)) (enumerate 0 alerts)))) disp"

definition reset_batch :: "close_env \<Rightarrow> Batcher \<Rightarrow> Batcher" where
  "reset_batch env b =
     resetTimer (ce_timerNow env)
       (b\<lparr>BT_currentBatchID := ce_newID env, BT_startedAt := ce_startedAt env, BT_records := [],
          BT_alertsQueue := [], BT_isBootstrap := False, BT_bootstrapTable := []\<rparr>)"

definition CloseCurrentBatch ::
  "('s, 'a) Deps \<Rightarrow> close_env \<Rightarrow> Batcher \<Rightarrow> ('s, 'a) World \<Rightarrow> go_error option \<times> Batcher \<times> ('s, 'a) World" where
  "CloseCurrentBatch dp env b w =
     (if BT_records b = [] then
        (None, resetTimer (ce_timerNow env) (b\<lparr>BT_startedAt := ce_startedAt env\<rparr>), w)
      else case seal_batch dp (ce_closedAt env) b of
        Inl err \<Rightarrow> (Some err, b, w)
      | Inr batchRecord \<Rightarrow>
          (case st_CreateBatch (dp_store dp) (W_store w) batchRecord (BT_records b) of
             (Some err, s) \<Rightarrow> (Some (Wrapf ''failed to persist batch in store'' err), b, w\<lparr>W_store := s\<rparr>)
           | (None, s) \<Rightarrow>
               let w = w\<lparr>W_store := s\<rparr> in
               (case marshal_checkpoint (checkpoint_object b batchRecord) of
                  Inl err \<Rightarrow> (Some (Wrapf ''failed to marshal checkpoint object'' err), b, w)
                | Inr chk \<Rightarrow>
                    (case ar_PutCheckpoint (dp_archive dp) (W_archive w) (B_ID batchRecord) (bytes_of chk) of
                       (Some err, a) \<Rightarrow>
                         (Some (Wrapf ''failed to write checkpoint to WORM storage'' err), b, w\<lparr>W_archive := a\<rparr>)
                     | (None, a) \<Rightarrow>
                         let w = w\<lparr>W_archive := a,
                                   W_dispatcher := fire_alerts (dp_http dp) (ce_alerts env)
                                     (BT_alertsQueue b) (W_dispatcher w)\<rparr>;
                             b = b\<lparr>BT_onBatchClosed := map_option (\<lambda>bs. bs @ [batchRecord]) (BT_onBatchClosed b)\<rparr>
                         in (None, reset_batch env b, w)))))"

definition append_record :: "Batcher \<Rightarrow> Record \<Rightarrow> Position \<Rightarrow> Batcher" where
  "append_record b record pos =
     b\<lparr>BT_records := BT_records b @
         [record\<lparr>R_BatchID := BT_currentBatchID b, R_MerkleLeafIndex := int (length (BT_records b))\<rparr>],
       BT_lastPosition := pos\<rparr>"

definition AddRecord ::
  "('s, 'a) Deps \<Rightarrow> close_env \<Rightarrow> Record \<Rightarrow> Position \<Rightarrow> Batcher \<Rightarrow> ('s, 'a) World
     \<Rightarrow> go_error option \<times> Batcher \<times> ('s, 'a) World" where
  "AddRecord dp env record pos b w =
     (let b = append_record b record pos in
      if int (length (BT_records b)) \<ge> Cfg_MaxEvents (BT_cfg b)
      then CloseCurrentBatch dp env b w else (None, b, w))"

definition Flush ::
  "('s, 'a) Deps \<Rightarrow> close_env \<Rightarrow> Batcher \<Rightarrow> ('s, 'a) World \<Rightarrow> go_error option \<times> Batcher \<times> ('s, 'a) World" where
  "Flush dp env b w = CloseCurrentBatch dp env b w"

definition Close ::
  "('s, 'a) Deps \<Rightarrow> close_env \<Rightarrow> Batcher \<Rightarrow> ('s, 'a) World \<Rightarrow> go_error option \<times> Batcher \<times> ('s, 'a) World" where
  "Close dp env b w = CloseCurrentBatch dp env (b\<lparr>BT_timer := None\<rparr>) w"

text \<open>The timer goes off: the function of \<open>time.AfterFunc\<close> runs and its error is dropped.\<close>

definition timer_fires ::
  "('s, 'a) Deps \<Rightarrow> close_env \<Rightarrow> Batcher \<Rightarrow> ('s, 'a) World \<Rightarrow> Batcher \<times> ('s, 'a) World" where
  "timer_fires dp env b w = snd (CloseCurrentBatch dp env (b\<lparr>BT_timer := None\<rparr>) w)"

section \<open>Closing a batch\<close>

lemma resetTimer_simps [simp]:
  "BT_records (resetTimer t b) = BT_records b" "BT_currentBatchID (resetTimer t b) = BT_currentBatchID b"
  "BT_cfg (resetTimer t b) = BT_cfg b" "BT_onBatchClosed (resetTimer t b) = BT_onBatchClosed b"
  "BT_isBootstrap (resetTimer t b) = BT_isBootstrap b" "BT_bootstrapTable (resetTimer t b) = BT_bootstrapTable b"
  "BT_alertsQueue (resetTimer t b) = BT_alertsQueue b" "BT_lastPosition (resetTimer t b) = BT_lastPosition b"
  by (simp_all add: resetTimer_def)

lemma reset_batch_simps [simp]:
  "BT_records (reset_batch env b) = []" "BT_currentBatchID (reset_batch env b) = ce_newID env"
  "BT_cfg (reset_batch env b) = BT_cfg b"
  by (simp_all add: reset_batch_def)

lemma append_record_simps [simp]:
  "BT_records (append_record b r pos) = BT_records b @
     [r\<lparr>R_BatchID := BT_currentBatchID b, R_MerkleLeafIndex := int (length (BT_records b))\<rparr>]"
  "BT_currentBatchID (append_record b r pos) = BT_currentBatchID b"
  "BT_cfg (append_record b r pos) = BT_cfg b"
  by (simp_all add: append_record_def)

lemma NewBatcher_simps [simp]:
  "BT_records (NewBatcher cfg u t n) = []" "BT_currentBatchID (NewBatcher cfg u t n) = u"
  "0 < Cfg_MaxEvents (BT_cfg (NewBatcher cfg u t n))"
  by (simp_all add: NewBatcher_def Let_def)

text \<open>The three ways \<open>CloseCurrentBatch\<close> ends.\<close>

lemma CloseCurrentBatch_cases [consumes 1, case_names empty error ok]:
  assumes "CloseCurrentBatch dp env b w = (e, b', w')"
  obtains "BT_records b = []" "e = None" "w' = w"
      "b' = resetTimer (ce_timerNow env) (b\<lparr>BT_startedAt := ce_startedAt env\<rparr>)"
  | err where "BT_records b \<noteq> []" "e = Some err" "b' = b" "W_dispatcher w' = W_dispatcher w"
  | bt s chk a where "BT_records b \<noteq> []" "e = None" "seal_batch dp (ce_closedAt env) b = Inr bt"
      "st_CreateBatch (dp_store dp) (W_store w) bt (BT_records b) = (None, s)"
      "marshal_checkpoint (checkpoint_object b bt) = Inr chk"
      "ar_PutCheckpoint (dp_archive dp) (W_archive w) (B_ID bt) (bytes_of chk) = (None, a)"
      "W_store w' = s" "W_archive w' = a"
      "W_dispatcher w' = fire_alerts (dp_http dp) (ce_alerts env) (BT_alertsQueue b) (W_dispatcher w)"
      "b' = reset_batch env (b\<lparr>BT_onBatchClosed := map_option (\<lambda>bs. bs @ [bt]) (BT_onBatchClosed b)\<rparr>)"
proof (cases "BT_records b = []")
  case True
  with assms show ?thesis by (intro that(1)) (simp_all add: CloseCurrentBatch_def)
next
  case False
  note close = assms [unfolded CloseCurrentBatch_def, simplified False if_False]
  show ?thesis
  proof (cases "seal_batch dp (ce_closedAt env) b")
    case (Inl err)
    with close False show ?thesis by (intro that(2)) auto
  next
    case (Inr bt)
    obtain r s where st: "st_CreateBatch (dp_store dp) (W_store w) bt (BT_records b) = (r, s)" by fastforce
    show ?thesis
    proof (cases r)
      case (Some err)
      with close False Inr st show ?thesis by (intro that(2)) auto
    next
      case None
      show ?thesis
      proof (cases "marshal_checkpoint (checkpoint_object b bt)")
        case (Inl err)
        with close False Inr st None show ?thesis by (intro that(2)) (auto simp: Let_def)
      next
        case chk: (Inr chk)
        obtain r' a where ar: "ar_PutCheckpoint (dp_archive dp) (W_archive w) (B_ID bt) (bytes_of chk) = (r', a)"
          by fastforce
        show ?thesis
        proof (cases r')
          case (Some err)
          with close False Inr st None chk ar show ?thesis by (intro that(2)) (auto simp: Let_def)
        next
          case r': None
          with close False Inr st None chk ar show ?thesis by (intro that(3)) (auto simp: Let_def)
        qed
      qed
    qed
  qed
qed

text \<open>What a batch row promises about the records it was made for.\<close>

definition sealed :: "('s, 'a) Deps \<Rightarrow> Batch \<times> Record list \<Rightarrow> bool" where
  "sealed dp br \<longleftrightarrow> (case br of (bt, rs) \<Rightarrow>
     rs \<noteq> [] \<and> numbered (B_ID bt) rs \<and> B_EventCount bt = int (length rs) \<and> B_Status bt = ''signed''
     \<and> (\<exists>leaves t. traverse record_leaf rs = Inr leaves \<and> BuildTree leaves = Inr t
          \<and> B_MerkleRoot bt = Root t \<and> dp_sign dp (Root t) = Inr (B_Signature bt, B_KeyVersion bt)))"

lemma seal_batch_sealed:
  assumes "seal_batch dp t b = Inr bt" "numbered (BT_currentBatchID b) (BT_records b)" "BT_records b \<noteq> []"
  shows "sealed dp (bt, BT_records b)" and "B_ID bt = BT_currentBatchID b"
  using assms by (auto simp: seal_batch_def sealed_def split: prod.splits)

section \<open>Reachable states\<close>

text \<open>
  The operations of the batcher in any order. The first list holds every record added so far, as
  the batcher stamped it; the second the batches closed so far. Between two steps alerts may be
  raised, and other processes may change the world as far as the relation \<open>R\<close> allows: everything said
  below of an arbitrary \<open>R\<close> holds whatever they do, and with nothing allowed it is about the
  batcher alone. \<open>append\<close> and \<open>close\<close> are separate steps, as
  \<open>AddRecord\<close> gives up the lock between them.
\<close>

inductive batcher_reach ::
  "('s, 'a) Deps \<Rightarrow> (('s, 'a) World \<Rightarrow> ('s, 'a) World \<Rightarrow> bool) \<Rightarrow> Record list \<Rightarrow> (Batch \<times> Record list) list \<Rightarrow> Batcher \<Rightarrow> ('s, 'a) World \<Rightarrow> bool"
  for dp :: "('s, 'a) Deps" and R :: "('s, 'a) World \<Rightarrow> ('s, 'a) World \<Rightarrow> bool" where
  start: "batcher_reach dp R [] [] (NewBatcher cfg uuid t0 t1) w"
| append: "batcher_reach dp R hist closed b w \<Longrightarrow> b' = append_record b r pos \<Longrightarrow>
    batcher_reach dp R (hist @ [last (BT_records b')]) closed b' w"
| close_ok: "batcher_reach dp R hist closed b w \<Longrightarrow> CloseCurrentBatch dp env b w = (None, b', w') \<Longrightarrow>
    BT_records b \<noteq> [] \<Longrightarrow> seal_batch dp (ce_closedAt env) b = Inr bt \<Longrightarrow>
    batcher_reach dp R hist (closed @ [(bt, BT_records b)]) b' w'"
| close_empty: "batcher_reach dp R hist closed b w \<Longrightarrow> CloseCurrentBatch dp env b w = (None, b', w') \<Longrightarrow>
    BT_records b = [] \<Longrightarrow> batcher_reach dp R hist closed b' w'"
| close_error: "batcher_reach dp R hist closed b w \<Longrightarrow> CloseCurrentBatch dp env b w = (Some err, b', w') \<Longrightarrow>
    batcher_reach dp R hist closed b' w'"
| bootstrap: "batcher_reach dp R hist closed b w \<Longrightarrow> batcher_reach dp R hist closed (SetBootstrapMode f tab b) w"
| alert: "batcher_reach dp R hist closed b w \<Longrightarrow> batcher_reach dp R hist closed (QueueAlert al b) w"
| callback: "batcher_reach dp R hist closed b w \<Longrightarrow> batcher_reach dp R hist closed (SetBatchClosedCallback b) w"
| timer: "batcher_reach dp R hist closed b w \<Longrightarrow> batcher_reach dp R hist closed (b\<lparr>BT_timer := None\<rparr>) w"
| alerted: "batcher_reach dp R hist closed b w \<Longrightarrow> batcher_reach dp R hist closed b (w\<lparr>W_dispatcher := d\<rparr>)"
| others: "batcher_reach dp R hist closed b w \<Longrightarrow> R w w' \<Longrightarrow> batcher_reach dp R hist closed b w'"

lemma reach_dispatcher [simp]:
  "batcher_reach dp R hist closed b (w\<lparr>W_dispatcher := d\<rparr>) \<longleftrightarrow> batcher_reach dp R hist closed b w"
proof
  assume "batcher_reach dp R hist closed b (w\<lparr>W_dispatcher := d\<rparr>)"
  from batcher_reach.alerted [OF this, of "W_dispatcher w"] show "batcher_reach dp R hist closed b w" by simp
qed (rule batcher_reach.alerted)

lemma batcher_reach_inv:
  assumes "batcher_reach dp R hist closed b w"
  shows "hist = concat (map snd closed) @ BT_records b
    \<and> numbered (BT_currentBatchID b) (BT_records b) \<and> list_all (sealed dp) closed
    \<and> 0 < Cfg_MaxEvents (BT_cfg b)"
  using assms
proof induction
  case (close_ok hist closed b w env b' w' bt)
  from close_ok(2) show ?case
  proof (cases rule: CloseCurrentBatch_cases)
    case (ok bt' s chk a)
    with close_ok seal_batch_sealed(1) [OF close_ok(4)] show ?thesis by auto
  qed (use close_ok in auto)
next
  case (close_empty hist closed b w env b' w')
  from close_empty(2) show ?case
    by (cases rule: CloseCurrentBatch_cases) (use close_empty in auto)
next
  case (close_error hist closed b w env err b' w')
  from close_error(2) show ?case
    by (cases rule: CloseCurrentBatch_cases) (use close_error in auto)
qed (auto simp: SetBootstrapMode_def QueueAlert_def SetBatchClosedCallback_def)

text \<open>
  C2: No record is lost, duplicated or reordered by the batcher. In every state some interleaving
  of its operations leads to (with any failures of store, archive and signer in between, and
  whatever other processes do to store and archive), the
  records ever added are exactly those of the closed batches followed by those still buffered,
  each stamped with its batch and position, and every closed batch is sealed: its row carries
  the count, the Merkle root of exactly its records and the signature over that root.
\<close>

theorem batcher_loses_nothing:
  assumes "batcher_reach dp R hist closed b w"
  shows "hist = concat (map snd closed) @ BT_records b
    \<and> numbered (BT_currentBatchID b) (BT_records b) \<and> list_all (sealed dp) closed"
  using batcher_reach_inv [OF assms] by blast

text \<open>
  A failed close loses nothing: when \<open>CloseCurrentBatch\<close> returns an error, the batcher is
  unchanged (records, alerts, identifier and mode are all kept for the next attempt) and no
  alert was fired; if the store refused the batch atomically, it is unchanged too.
\<close>

theorem CloseCurrentBatch_error:
  assumes "CloseCurrentBatch dp env b w = (Some err, b', w')"
  shows "b' = b \<and> W_dispatcher w' = W_dispatcher w
    \<and> (\<forall>e. err = Wrapf ''failed to persist batch in store'' e \<longrightarrow> W_archive w' = W_archive w)
    \<and> (isl (seal_batch dp (ce_closedAt env) b) \<longrightarrow> w' = w)"
  using assms unfolding CloseCurrentBatch_def
  by (auto simp: Let_def split: if_splits sum.splits prod.splits option.splits)

text \<open>
  The count threshold bounds a batch. An \<open>AddRecord\<close> that starts below the threshold and
  succeeds ends below it again (the batch was closed when it was reached); one that fails has
  kept the record, and the buffer holds exactly the threshold.
\<close>

theorem AddRecord_bounded:
  assumes "AddRecord dp env r pos b w = (e, b', w')"
    and "int (length (BT_records b)) < Cfg_MaxEvents (BT_cfg b)"
  shows "BT_cfg b' = BT_cfg b
    \<and> (if e = None then int (length (BT_records b')) < Cfg_MaxEvents (BT_cfg b')
       else b' = append_record b r pos \<and> int (length (BT_records b')) = Cfg_MaxEvents (BT_cfg b'))"
proof (cases "int (length (BT_records (append_record b r pos))) \<ge> Cfg_MaxEvents (BT_cfg b)")
  case True
  then have "CloseCurrentBatch dp env (append_record b r pos) w = (e, b', w')"
    using assms(1) by (simp add: AddRecord_def Let_def)
  then show ?thesis
    by (cases rule: CloseCurrentBatch_cases) (use True assms(2) in auto)
next
  case False
  with assms show ?thesis by (auto simp: AddRecord_def Let_def)
qed

section \<open>Closed batches in the store\<close>

text \<open>
  What ties the closed batches to the store: \<open>holds s (bt, rs)\<close> says that the store has the batch and its
  records. A successful \<open>CreateBatch\<close> establishes it and none, successful or not, undoes it, as
  long as the identifiers of batches and records can be told apart as \<open>uniq\<close> demands.
\<close>

locale durable_store =
  fixes S :: "'s StoreI" and holds :: "'s \<Rightarrow> Batch \<times> Record list \<Rightarrow> bool"
    and uniq :: "string list \<Rightarrow> Record list \<Rightarrow> bool"
  assumes create_holds:
      "uniq (ids @ [B_ID bt]) (rs @ rs') \<Longrightarrow> st_CreateBatch S s bt rs' = (None, s') \<Longrightarrow> holds s' (bt, rs')"
    and create_keeps:
      "uniq (ids @ [B_ID bt]) (rs @ rs') \<Longrightarrow> B_ID (fst br) \<in> set ids \<Longrightarrow> set (snd br) \<subseteq> set rs \<Longrightarrow> holds s br \<Longrightarrow>
         st_CreateBatch S s bt rs' = (e, s') \<Longrightarrow> holds s' br"
    and uniq_less: "uniq (ids @ ids') (rs @ rs') \<Longrightarrow> uniq ids rs"

abbreviation closed_ids :: "(Batch \<times> Record list) list \<Rightarrow> string list" where
  "closed_ids closed \<equiv> map (\<lambda>br. B_ID (fst br)) closed"

lemma CloseCurrentBatch_store:
  assumes "CloseCurrentBatch dp env b w = (e, b', w')"
  shows "W_store w' = W_store w \<or> (\<exists>bt e'. B_ID bt = BT_currentBatchID b
    \<and> st_CreateBatch (dp_store dp) (W_store w) bt (BT_records b) = (e', W_store w'))"
proof (cases "BT_records b = [] \<or> isl (seal_batch dp (ce_closedAt env) b)")
  case True
  with assms show ?thesis by (cases "BT_records b = []") (auto simp: CloseCurrentBatch_def split: sum.splits)
next
  case False
  then obtain bt where bt: "seal_batch dp (ce_closedAt env) b = Inr bt" by (cases "seal_batch dp (ce_closedAt env) b") auto
  then have "B_ID bt = BT_currentBatchID b" by (auto simp: seal_batch_def split: prod.splits)
  moreover obtain e' s where "st_CreateBatch (dp_store dp) (W_store w) bt (BT_records b) = (e', s)" by fastforce
  moreover from this have "W_store w' = s" using assms False bt
    by (cases e') (auto simp: CloseCurrentBatch_def Let_def split: sum.splits prod.splits option.splits)
  ultimately show ?thesis by blast
qed

context durable_store
begin

lemma close_keeps:
  assumes "CloseCurrentBatch dp env b w = (e, b', w')" "dp_store dp = S" "hist = concat (map snd closed) @ BT_records b"
    "uniq (closed_ids closed @ [BT_currentBatchID b]) hist" "list_all (holds (W_store w)) closed"
  shows "list_all (holds (W_store w')) closed"
proof -
  have "holds (W_store w') br" if "br \<in> set closed" for br
    using CloseCurrentBatch_store [OF assms(1)]
  proof
    assume "W_store w' = W_store w"
    with assms(5) that show ?thesis by (simp add: list_all_iff)
  next
    assume "\<exists>bt e'. B_ID bt = BT_currentBatchID b \<and> st_CreateBatch (dp_store dp) (W_store w) bt (BT_records b) = (e', W_store w')"
    then obtain bt e' where bt: "B_ID bt = BT_currentBatchID b" "st_CreateBatch S (W_store w) bt (BT_records b) = (e', W_store w')"
      using assms(2) by auto
    have "set (snd br) \<subseteq> set (concat (map snd closed))" using that by auto
    moreover have "uniq (closed_ids closed @ [B_ID bt]) (concat (map snd closed) @ BT_records b)" using assms(3,4) bt(1) by simp
    moreover have "holds (W_store w) br" "B_ID (fst br) \<in> set (closed_ids closed)" using assms(5) that by (auto simp: list_all_iff)
    ultimately show ?thesis using create_keeps bt(2) by blast
  qed
  then show ?thesis by (simp add: list_all_iff)
qed

lemma reach_holds:
  assumes "batcher_reach dp R hist closed b w" "dp_store dp = S" "uniq (closed_ids closed @ [BT_currentBatchID b]) hist"
    "\<And>w w' br. R w w' \<Longrightarrow> holds (W_store w) br \<Longrightarrow> holds (W_store w') br"
  shows "list_all (holds (W_store w)) closed"
  using assms(1,3)
proof induction
  case (append hist closed b w b' r pos)
  have "uniq (closed_ids closed @ [BT_currentBatchID b]) hist"
    using uniq_less [of "closed_ids closed @ [BT_currentBatchID b]" "[]" hist] append(2,4) by simp
  with append show ?case by blast
next
  case (close_ok hist closed b w env b' w' bt)
  have hist: "hist = concat (map snd closed) @ BT_records b" using batcher_reach_inv [OF close_ok(1)] by blast
  from close_ok(2) show ?case
  proof (cases rule: CloseCurrentBatch_cases)
    case (ok bt' s chk a)
    then have bt: "bt' = bt" using close_ok(4) by simp
    have id: "B_ID bt = BT_currentBatchID b" using close_ok(4) by (auto simp: seal_batch_def split: prod.splits)
    have u: "uniq (closed_ids closed @ [BT_currentBatchID b]) hist"
      using uniq_less [of "closed_ids closed @ [B_ID bt]" "[BT_currentBatchID b']" hist "[]"] close_ok(6) id by simp
    have "holds (W_store w') (bt, BT_records b)"
      using create_holds [of "closed_ids closed" bt "concat (map snd closed)" "BT_records b"] u hist id ok(4,7) assms(2) bt by simp
    with close_keeps [OF close_ok(2) assms(2) hist u] close_ok(5) u show ?thesis by simp
  qed (use close_ok in auto)
next
  case (close_empty hist closed b w env b' w')
  from close_empty(2) show ?case by (cases rule: CloseCurrentBatch_cases) (use close_empty in auto)
next
  case (close_error hist closed b w env err b' w')
  have hist: "hist = concat (map snd closed) @ BT_records b" using batcher_reach_inv [OF close_error(1)] by blast
  have "b' = b" using close_error(2) by (cases rule: CloseCurrentBatch_cases) auto
  with close_keeps [OF close_error(2) assms(2) hist] close_error show ?case by simp
next
  case (others hist closed b w w')
  with assms(4) show ?case by (simp add: list_all_iff)
qed (simp_all add: SetBootstrapMode_def QueueAlert_def SetBatchClosedCallback_def)

end

text \<open>The in-memory store overwrites under a known identifier, so that it needs distinct ones.\<close>

definition ms_holds :: "MemoryStore \<Rightarrow> Batch \<times> Record list \<Rightarrow> bool" where
  "ms_holds m br \<longleftrightarrow> ms_GetBatch m (B_ID (fst br)) = Inr (fst br) \<and> list_all (\<lambda>r. ms_GetRecord m (R_ID r) = Inr r) (snd br)"

lemma ms_created_batch:
  "ms_GetBatch (snd (ms_CreateBatch m bt rs)) i = (if i = B_ID bt then Inr bt else ms_GetBatch m i)"
  by (simp add: ms_GetBatch_def ms_CreateBatch_def update_conv')

lemma ms_created_other:
  assumes "i \<notin> R_ID ` set rs"
  shows "ms_GetRecord (snd (ms_CreateBatch m bt rs)) i = ms_GetRecord m i"
proof -
  have "map_of (fold (\<lambda>r. AList.update (R_ID r) r) rs al) i = map_of al i" for al
    using assms by (induction rs arbitrary: al) (auto simp: update_conv')
  then show ?thesis by (simp add: ms_GetRecord_def ms_CreateBatch_def)
qed

lemma ms_created_record:
  assumes "distinct (map R_ID rs)" "r \<in> set rs"
  shows "ms_GetRecord (snd (ms_CreateBatch m bt rs)) (R_ID r) = Inr r"
proof -
  have "map_of (fold (\<lambda>r. AList.update (R_ID r) r) rs al) (R_ID r) = Some r" for al
    using assms
  proof (induction rs arbitrary: al)
    case (Cons x rs)
    have "map_of (fold (\<lambda>r. AList.update (R_ID r) r) rs bl) i = map_of bl i" if "i \<notin> R_ID ` set rs" for bl i
      using that by (induction rs arbitrary: bl) (auto simp: update_conv')
    with Cons show ?case by (cases "x = r") (auto simp: update_conv')
  qed simp
  then show ?thesis by (simp add: ms_GetRecord_def ms_CreateBatch_def)
qed

interpretation ms_durable: durable_store memory_store ms_holds "\<lambda>ids rs. distinct ids \<and> distinct (map R_ID rs)"
proof unfold_locales
  fix ids bt rs rs' s s'
  assume "distinct (ids @ [B_ID bt]) \<and> distinct (map R_ID (rs @ rs'))" "st_CreateBatch memory_store s bt rs' = (None, s')"
  then show "ms_holds s' (bt, rs')"
    using ms_created_batch [of s bt rs'] ms_created_record [of rs' _ s bt] by (auto simp: ms_holds_def memory_store_def list_all_iff)
next
  fix ids bt rs rs' br s e s'
  assume u: "distinct (ids @ [B_ID bt]) \<and> distinct (map R_ID (rs @ rs'))" "B_ID (fst br) \<in> set ids" "set (snd br) \<subseteq> set rs"
    and h: "ms_holds s br" "st_CreateBatch memory_store s bt rs' = (e, s')"
  have s': "s' = snd (ms_CreateBatch s bt rs')" using h(2) by (simp add: memory_store_def)
  have "ms_GetRecord s' (R_ID r) = Inr r" if "r \<in> set (snd br)" for r
  proof -
    have "R_ID r \<notin> R_ID ` set rs'" using u(1,3) that by auto
    with ms_created_other h(1) that s' show ?thesis by (simp add: ms_holds_def list_all_iff)
  qed
  moreover have "B_ID (fst br) \<noteq> B_ID bt" using u by auto
  ultimately show "ms_holds s' br" using h(1) ms_created_batch s' by (simp add: ms_holds_def list_all_iff)
qed auto

section \<open>The batcher with its store, archive and signer\<close>

text \<open>
  The contracts of the three interfaces together: what a successful close gives to the verifier
  and to the holder of the archive.
\<close>

locale audit_system =
  store_contract S s_inv storable sealable + archive_contract A a_inv + signer_contract sign verify good
  for S :: "'s StoreI" and s_inv :: "'s \<Rightarrow> bool" and storable :: "Record \<Rightarrow> bool" and sealable :: "Batch \<Rightarrow> bool"
    and A :: "'a ArchiveI" and a_inv :: "'a \<Rightarrow> bool"
    and sign :: "'m \<Rightarrow> bytes \<Rightarrow> (bytes \<times> string) result"
    and verify :: "'m \<Rightarrow> bytes \<Rightarrow> bytes \<Rightarrow> string \<Rightarrow> bool result"
    and good :: "'m \<Rightarrow> bool"
begin

lemma closed_batch_verifies:
  assumes dp: "dp_store dp = S" "dp_archive dp = A" "dp_sign dp = sign m"
    and close: "CloseCurrentBatch dp env b w = (None, b', w')" "BT_records b \<noteq> []"
    and inv: "s_inv (W_store w)" "good m"
    and recs: "numbered (BT_currentBatchID b) (BT_records b)" "distinct (map R_ID (BT_records b))"
      "list_all storable (BT_records b)" "unseen S (W_store w) (BT_currentBatchID b) (BT_records b)"
    and seal: "\<And>bt. seal_batch dp (ce_closedAt env) b = Inr bt \<Longrightarrow> sealable bt"
    and r: "r \<in> set (BT_records b)"
  shows "VR_Valid (fst (VerifyRecord (st_GetRecordForVerification S (W_store w')) (verify m) now (R_ID r)))"
  using close(1)
proof (cases rule: CloseCurrentBatch_cases)
  case (ok bt s chk a)
  have "sealed dp (bt, BT_records b)" and bid: "B_ID bt = BT_currentBatchID b"
    using seal_batch_sealed [OF ok(3)] recs(1) close(2) by blast+
  then obtain leaves t where t: "traverse record_leaf (BT_records b) = Inr leaves" "BuildTree leaves = Inr t"
      "B_MerkleRoot bt = Root t" "sign m (Root t) = Inr (B_Signature bt, B_KeyVersion bt)"
    using dp(3) by (auto simp: sealed_def)
  from created_record_valid [OF inv(1), of bt "BT_records b" s leaves t "verify m" r now]
    ok dp recs bid t r verify_sign [OF inv(2) t(4)] seal [OF ok(3)] show ?thesis by simp
qed (use close in auto)

lemma closed_batch_checkpoint:
  assumes "dp_archive dp = A" "CloseCurrentBatch dp env b w = (None, b', w')" "BT_records b \<noteq> []"
    "a_inv (W_archive w)" "safe_id (BT_currentBatchID b)"
  shows "\<exists>bt chk. seal_batch dp (ce_closedAt env) b = Inr bt
    \<and> marshal_checkpoint (checkpoint_object b bt) = Inr chk
    \<and> ar_Get A (put_all A ps (W_archive w')) (checkpoint_key (BT_currentBatchID b)) = Inr (bytes_of chk)"
  using assms(2)
proof (cases rule: CloseCurrentBatch_cases)
  case (ok bt s chk a)
  have "B_ID bt = BT_currentBatchID b"
    using ok(3) by (auto simp: seal_batch_def split: prod.splits)
  then have put: "ar_PutCheckpoint A (W_archive w) (BT_currentBatchID b) (bytes_of chk) = (None, W_archive w')"
    using ok assms(1) by simp
  have "ar_Get A (put_all A ps (W_archive w')) (checkpoint_key (BT_currentBatchID b)) = Inr (bytes_of chk)"
    using put_all_keeps put_checkpoint_inv put_checkpoint_get put assms(4,5) by blast
  with ok show ?thesis by blast
qed (use assms in auto)

lemma stuck_once_written:
  assumes "dp_archive dp = A" "CloseCurrentBatch dp env b w = (e, b', w')" "BT_records b \<noteq> []"
    "a_inv (W_archive w)" "safe_id (BT_currentBatchID b)"
    "ar_Get A (W_archive w) (checkpoint_key (BT_currentBatchID b)) = Inr c"
  shows "e \<noteq> None"
  using assms(2)
proof (cases rule: CloseCurrentBatch_cases)
  case (ok bt s chk a)
  have "B_ID bt = BT_currentBatchID b"
    using ok(3) by (auto simp: seal_batch_def split: prod.splits)
  then have "ar_PutCheckpoint A (W_archive w) (BT_currentBatchID b) (bytes_of chk) = (None, a)"
    using ok(6) assms(1) by simp
  from put_checkpoint_refused [OF assms(4,5,6) this] show ?thesis by blast
qed (use assms in auto)

end

interpretation memory_system: audit_system memory_store ms_inv "\<lambda>_. True" "\<lambda>_. True" local_dir_archive ld_inv
  "Sign c" "Verify c" "km_good c" for c
  by unfold_locales

section \<open>Properties of the whole\<close>

text \<open>
  C12: Every record of a closed batch verifies. With the in-memory store, the directory archive and
  the local key manager: if \<open>CloseCurrentBatch\<close> succeeds on buffered records the store has not
  seen, the verifier then reports each of them valid, at any later time.
\<close>

theorem closed_records_verify:
  assumes "dp = \<lparr>dp_store = memory_store, dp_archive = local_dir_archive, dp_sign = Sign c m, dp_http = h\<rparr>"
    and "CloseCurrentBatch dp env b w = (None, b', w')"
    and "numbered (BT_currentBatchID b) (BT_records b)" "distinct (map R_ID (BT_records b))"
    and "ms_inv (W_store w)" "unseen memory_store (W_store w) (BT_currentBatchID b) (BT_records b)"
    and "km_good c m" "r \<in> set (BT_records b)"
  shows "VR_Valid (fst (VerifyRecord (ms_GetRecordForVerification (W_store w')) (Verify c m) now (R_ID r)))"
proof -
  have "BT_records b \<noteq> []" using assms(8) by auto
  then show ?thesis
    using memory_system.closed_batch_verifies [of dp c m env b w b' w' r now] assms
    by (simp add: memory_store_def list_all_iff)
qed

text \<open>
  C23: The signed checkpoint of a closed batch is durable as long as \<open>Stat\<close> does not fail: if no \<open>Stat\<close> of any
  write fails and files can be read (\<open>ld_inv\<close>), then after \<open>CloseCurrentBatch\<close> succeeds, the archive
  returns the checkpoint text of the sealed batch under its key, also after any further writes to
  the archive, successful or failed at any other system call.
\<close>

theorem closed_checkpoint_durable:
  assumes "dp_archive dp = local_dir_archive" "CloseCurrentBatch dp env b w = (None, b', w')"
    and "BT_records b \<noteq> []" "ld_inv (W_archive w)" "safe_id (BT_currentBatchID b)"
  shows "\<exists>bt chk. seal_batch dp (ce_closedAt env) b = Inr bt
    \<and> marshal_checkpoint (checkpoint_object b bt) = Inr chk
    \<and> Get (put_all local_dir_archive ps (W_archive w')) (checkpoint_key (BT_currentBatchID b)) = Inr (bytes_of chk)"
  using memory_system.closed_batch_checkpoint [OF assms, of ps]
  by (simp add: local_dir_archive_def)

text \<open>
  A batch whose checkpoint object is already in the archive can never be closed: every attempt
  fails, with whatever store, signer and clock, and leaves batcher and object as they are.
  This is where a failing \<open>Chmod\<close> of \<open>writeImmutable\<close> leads: the object is in place, the
  batcher keeps the identifier, and no retry succeeds.
\<close>

theorem close_stuck_forever:
  assumes "dp_archive dp = local_dir_archive" "BT_records b \<noteq> []" "ld_inv (W_archive w)"
    and "safe_id (BT_currentBatchID b)" "Get (W_archive w) (checkpoint_key (BT_currentBatchID b)) = Inr c"
    and "CloseCurrentBatch dp env b w = (e, b', w')"
  shows "e \<noteq> None \<and> b' = b \<and> ld_inv (W_archive w')
    \<and> Get (W_archive w') (checkpoint_key (BT_currentBatchID b)) = Inr c"
proof -
  have get: "ar_Get local_dir_archive (W_archive w) (checkpoint_key (BT_currentBatchID b)) = Inr c"
    using assms(5) by (simp add: local_dir_archive_def)
  have e: "e \<noteq> None" using memory_system.stuck_once_written [OF assms(1,6,2,3,4) get] .
  from assms(6) have b: "b' = b"
    by (cases rule: CloseCurrentBatch_cases) (use e assms(2) in auto)
  have "W_archive w' = W_archive w \<or>
      (\<exists>i d r. ar_PutCheckpoint local_dir_archive (W_archive w) i d = (r, W_archive w'))"
    using assms(1,6) unfolding CloseCurrentBatch_def
    by (auto simp: Let_def split: if_splits sum.splits prod.splits option.splits)
  then have "ld_inv (W_archive w') \<and>
      ar_Get local_dir_archive (W_archive w') (checkpoint_key (BT_currentBatchID b)) = Inr c"
    using assms(3) get lda.put_checkpoint_inv lda.put_checkpoint_keeps by metis
  with e b show ?thesis by (simp add: local_dir_archive_def)
qed

section \<open>A concrete run\<close>

definition sample_record :: "string \<Rightarrow> Record" where
  "sample_record i = \<lparr>R_ID = i, R_BatchID = [], R_TableName = ''accounts'', R_PrimaryKey = sample_key,
     R_EventType = ''INSERT'', R_BeforeImage = [], R_AfterImage = sample_key, R_ActorUserID = None,
     R_ActorType = ''SYSTEM'', R_TransactionID = ''tx1'', R_SchemaVersion = ''v1'', R_CommittedAt = 0,
     R_MerkleLeafIndex = 0\<rparr>"

definition sample_close_env :: close_env where
  "sample_close_env = \<lparr>ce_closedAt = 0, ce_newID = ''b2'', ce_startedAt = 0, ce_timerNow = 0,
     ce_alerts = (\<lambda>_. sample_env 0)\<rparr>"

definition sample_deps :: "(MemoryStore, LocalDirArchiveStore) Deps" where
  "sample_deps = \<lparr>dp_store = memory_store, dp_archive = local_dir_archive,
     dp_sign = Sign toy_crypto (toy_keys ''v1'' []), dp_http = no_http\<rparr>"

definition sample_world :: "write_io list \<Rightarrow> (MemoryStore, LocalDirArchiveStore) World" where
  "sample_world plan = \<lparr>W_store = NewMemoryStore, W_archive = empty_archive plan, W_dispatcher = None\<rparr>"

definition sample_batcher :: Batcher where
  "sample_batcher = append_record (NewBatcher \<lparr>Cfg_MaxInterval = 0, Cfg_MaxEvents = 2\<rparr> ''b1'' 0 0)
     (sample_record ''r1'') zero_position"

lemma year_ok_0 [simp]: "year_ok 0"
  by (simp add: year_ok_def civil_from_days_def era_split_def Let_def)

lemma sample_leaf:
  "\<exists>h. record_leaf ((sample_record i)\<lparr>R_BatchID := bid, R_MerkleLeafIndex := n\<rparr>) = Inr h"
proof -
  let ?p = "record_payload ((sample_record i)\<lparr>R_BatchID := bid, R_MerkleLeafIndex := n\<rparr>)"
  have "normalize_payload ?p = ?p"
    by (rule normalize_format [OF year_ok_0]) (simp add: record_payload_def sample_record_def)
  then have "\<exists>t. canonical_bytes ?p = Inr t"
    by (simp add: canonical_bytes_def marshal_payload_def marshal_raw_def raw_field_def sample_raw
        record_payload_def sample_record_def)
  then show ?thesis by (auto simp: record_leaf_def ComputeRecordLeafHash_def)
qed

lemma sample_records: "BT_records sample_batcher = [(sample_record ''r1'')\<lparr>R_BatchID := ''b1'', R_MerkleLeafIndex := 0\<rparr>]"
  "BT_currentBatchID sample_batcher = ''b1''"
  by (simp_all add: sample_batcher_def)

lemma seal_one:
  assumes "BT_records b = [r]" "record_leaf r = Inr h"
  shows "\<exists>bt. seal_batch sample_deps t b = Inr bt \<and> B_ID bt = BT_currentBatchID b
    \<and> B_StartedAt bt = BT_startedAt b \<and> B_ClosedAt bt = t"
proof -
  obtain tr where "BuildTree [h] = Inr tr" using BuildTree_total by blast
  moreover have "dp_sign sample_deps d = Inr (replicate 32 9 @ d, ''v1'')" for d
    using Sign_good [OF toy_good(1)] by (simp add: sample_deps_def toy_keys_def toy_crypto_def)
  ultimately show ?thesis using assms by (simp add: seal_batch_def)
qed

lemma marshal_checkpoint_total:
  "year_ok (CO_StartedAt c) \<Longrightarrow> year_ok (CO_ClosedAt c) \<Longrightarrow> \<exists>t. marshal_checkpoint c = Inr t"
  by (simp add: marshal_checkpoint_def marshal_time_def)

lemma put_b1: "\<exists>a. PutCheckpoint (empty_archive []) ''b1'' d = (None, a)"
  by (simp add: archive_eval Let_def)

lemma close_one:
  assumes "BT_records b = [r]" "record_leaf r = Inr h" "BT_currentBatchID b = ''b1''" "BT_startedAt b = 0"
  shows "\<exists>b' w'. CloseCurrentBatch sample_deps sample_close_env b (sample_world []) = (None, b', w')"
proof -
  obtain bt where bt: "seal_batch sample_deps 0 b = Inr bt" "B_ID bt = ''b1''"
      "B_StartedAt bt = 0" "B_ClosedAt bt = 0" using seal_one [OF assms(1,2)] assms(3,4) by metis
  obtain chk where chk: "marshal_checkpoint (checkpoint_object b bt) = Inr chk"
    using marshal_checkpoint_total [of "checkpoint_object b bt"] bt by (auto simp: checkpoint_object_def)
  obtain a where "PutCheckpoint (empty_archive []) ''b1'' (bytes_of chk) = (None, a)" using put_b1 by blast
  moreover have "dp_store sample_deps = memory_store" "dp_archive sample_deps = local_dir_archive"
    "ce_closedAt sample_close_env = 0" "W_archive (sample_world []) = empty_archive []"
    by (simp_all add: sample_deps_def sample_close_env_def sample_world_def)
  moreover have "st_CreateBatch memory_store s x rs = (None, snd (ms_CreateBatch s x rs))" for s x rs
    by (simp add: memory_store_def ms_CreateBatch_def)
  moreover have "ar_PutCheckpoint local_dir_archive = PutCheckpoint" by (simp add: local_dir_archive_def)
  ultimately show ?thesis using bt chk assms(1) by (simp add: CloseCurrentBatch_def Let_def)
qed

lemma sample_seal:
  "\<exists>bt. seal_batch sample_deps 0 sample_batcher = Inr bt \<and> B_ID bt = ''b1'' \<and> B_StartedAt bt = 0 \<and> B_ClosedAt bt = 0"
  and sample_close:
  "\<exists>b' w'. CloseCurrentBatch sample_deps sample_close_env sample_batcher (sample_world []) = (None, b', w')"
proof -
  obtain h where h: "record_leaf ((sample_record ''r1'')\<lparr>R_BatchID := ''b1'', R_MerkleLeafIndex := 0\<rparr>) = Inr h"
    using sample_leaf by blast
  have s: "BT_startedAt sample_batcher = 0" by (simp add: sample_batcher_def append_record_def NewBatcher_def resetTimer_def Let_def)
  show "\<exists>bt. seal_batch sample_deps 0 sample_batcher = Inr bt \<and> B_ID bt = ''b1'' \<and> B_StartedAt bt = 0 \<and> B_ClosedAt bt = 0"
    using seal_one [OF sample_records(1) h, of 0] s sample_records(2) by simp
  show "\<exists>b' w'. CloseCurrentBatch sample_deps sample_close_env sample_batcher (sample_world []) = (None, b', w')"
    using close_one [OF sample_records(1) h sample_records(2) s] .
qed

lemma sample_state:
  "numbered ''b1'' (BT_records sample_batcher)" "ms_inv NewMemoryStore"
  "unseen memory_store NewMemoryStore ''b1'' rs" "ld_inv (empty_archive [])" "safe_id ''b1''"
  by (simp_all add: sample_records numbered_def ms_inv_def NewMemoryStore_def unseen_def memory_store_def
      ms_GetRecordsByBatchID_def ms_GetRecord_def list_all_iff ld_inv_def empty_archive_def safe_id_def)

theorem closed_records_verify_witness:
  "\<exists>b' w'. CloseCurrentBatch sample_deps sample_close_env sample_batcher (sample_world []) = (None, b', w')
     \<and> VR_Valid (fst (VerifyRecord (ms_GetRecordForVerification (W_store w'))
          (Verify toy_crypto (toy_keys ''v1'' [])) 99 ''r1''))"
proof -
  obtain b' w' where c: "CloseCurrentBatch sample_deps sample_close_env sample_batcher (sample_world []) = (None, b', w')"
    using sample_close by blast
  have "VR_Valid (fst (VerifyRecord (ms_GetRecordForVerification (W_store w'))
      (Verify toy_crypto (toy_keys ''v1'' [])) 99 (R_ID (hd (BT_records sample_batcher)))))"
    by (rule closed_records_verify [OF sample_deps_def c])
      (use sample_state toy_good in \<open>simp_all add: sample_records sample_world_def\<close>)
  with c show ?thesis by (auto simp: sample_records sample_record_def)
qed

theorem closed_checkpoint_durable_witness:
  "\<exists>b' w' bt chk. CloseCurrentBatch sample_deps sample_close_env sample_batcher (sample_world []) = (None, b', w')
     \<and> seal_batch sample_deps 0 sample_batcher = Inr bt
     \<and> marshal_checkpoint (checkpoint_object sample_batcher bt) = Inr chk
     \<and> Get (put_all local_dir_archive [(True, ''b1'', [])] (W_archive w')) (checkpoint_key ''b1'') = Inr (bytes_of chk)"
proof -
  obtain b' w' where c: "CloseCurrentBatch sample_deps sample_close_env sample_batcher (sample_world []) = (None, b', w')"
    using sample_close by blast
  have a: "dp_archive sample_deps = local_dir_archive" "BT_records sample_batcher \<noteq> []"
    "ld_inv (W_archive (sample_world []))" "safe_id (BT_currentBatchID sample_batcher)"
    using sample_state by (simp_all add: sample_deps_def sample_records sample_world_def)
  from closed_checkpoint_durable [OF a(1) c a(2-4), of "[(True, ''b1'', [])]"] c show ?thesis
    by (simp add: sample_records sample_close_env_def)
qed

lemma sample_reach:
  "batcher_reach sample_deps (\<lambda>_ _. False) [last (BT_records sample_batcher)] [] sample_batcher w"
  using batcher_reach.append [OF batcher_reach.start sample_batcher_def] by simp

theorem batcher_loses_nothing_witness:
  "\<exists>b' w' bt. batcher_reach sample_deps (\<lambda>_ _. False) [last (BT_records sample_batcher)] [(bt, BT_records sample_batcher)] b' w'
     \<and> [last (BT_records sample_batcher)] = BT_records sample_batcher @ BT_records b'
     \<and> sealed sample_deps (bt, BT_records sample_batcher)"
proof -
  obtain b' w' where c: "CloseCurrentBatch sample_deps sample_close_env sample_batcher (sample_world []) = (None, b', w')"
    using sample_close by blast
  obtain bt where bt: "seal_batch sample_deps (ce_closedAt sample_close_env) sample_batcher = Inr bt"
    using sample_seal by (auto simp: sample_close_env_def)
  have r: "batcher_reach sample_deps (\<lambda>_ _. False) [last (BT_records sample_batcher)] ([] @ [(bt, BT_records sample_batcher)]) b' w'"
    by (rule batcher_reach.close_ok [OF sample_reach c _ bt]) (simp add: sample_records)
  from batcher_loses_nothing [OF r] r show ?thesis by auto
qed

text \<open>The same run with an archive whose first \<open>Chmod\<close> fails.\<close>

definition chmod_fails :: "write_io list" where
  "chmod_fails = [(io_ok ''0'')\<lparr>io_chmod := Some (NewErr ''EPERM'')\<rparr>]"

lemma put_b1_chmod:
  "\<exists>e a. PutCheckpoint (empty_archive chmod_fails) ''b1'' d = (Some e, a) \<and> ld_inv a
     \<and> map_of (LD_files a) (target_of a (checkpoint_key ''b1'')) = Some (d, mode_0600)"
  by (simp add: archive_eval Let_def chmod_fails_def ld_inv_def target_of_def checkpoint_key_def)

lemma sample_close_chmod:
  "\<exists>err b' w' chk. CloseCurrentBatch sample_deps sample_close_env sample_batcher (sample_world chmod_fails)
       = (Some err, b', w') \<and> ld_inv (W_archive w')
     \<and> Get (W_archive w') (checkpoint_key ''b1'') = Inr (bytes_of chk)"
proof -
  obtain bt where bt: "seal_batch sample_deps 0 sample_batcher = Inr bt" "B_ID bt = ''b1''"
      "B_StartedAt bt = 0" "B_ClosedAt bt = 0" using sample_seal by blast
  obtain chk where chk: "marshal_checkpoint (checkpoint_object sample_batcher bt) = Inr chk"
    using marshal_checkpoint_total [of "checkpoint_object sample_batcher bt"] bt
    by (auto simp: checkpoint_object_def)
  obtain e a where a: "PutCheckpoint (empty_archive chmod_fails) ''b1'' (bytes_of chk) = (Some e, a)"
      "ld_inv a" "map_of (LD_files a) (target_of a (checkpoint_key ''b1'')) = Some (bytes_of chk, mode_0600)"
    using put_b1_chmod by blast
  then have "Get a (checkpoint_key ''b1'') = Inr (bytes_of chk)"
    using put_safe(3) [OF sample_state(5), of a] by blast
  moreover have "dp_store sample_deps = memory_store" "dp_archive sample_deps = local_dir_archive"
    "ce_closedAt sample_close_env = 0" "W_archive (sample_world chmod_fails) = empty_archive chmod_fails"
    by (simp_all add: sample_deps_def sample_close_env_def sample_world_def)
  moreover have "st_CreateBatch memory_store s x rs = (None, snd (ms_CreateBatch s x rs))" for s x rs
    by (simp add: memory_store_def ms_CreateBatch_def)
  moreover have "ar_PutCheckpoint local_dir_archive = PutCheckpoint" by (simp add: local_dir_archive_def)
  ultimately show ?thesis using bt chk a
    by (simp add: CloseCurrentBatch_def sample_records Let_def)
qed

theorem CloseCurrentBatch_error_witness:
  "\<exists>err w'. CloseCurrentBatch sample_deps sample_close_env sample_batcher (sample_world chmod_fails)
      = (Some err, sample_batcher, w')"
proof -
  obtain err b' w' where c: "CloseCurrentBatch sample_deps sample_close_env sample_batcher (sample_world chmod_fails)
      = (Some err, b', w')" using sample_close_chmod by blast
  from CloseCurrentBatch_error [OF c] c show ?thesis by auto
qed

theorem close_stuck_forever_witness:
  "\<exists>err w'. CloseCurrentBatch sample_deps sample_close_env sample_batcher (sample_world chmod_fails)
       = (Some err, sample_batcher, w')
     \<and> fst (CloseCurrentBatch sample_deps sample_close_env sample_batcher w') \<noteq> None"
proof -
  obtain err b' w' chk where c: "CloseCurrentBatch sample_deps sample_close_env sample_batcher (sample_world chmod_fails)
      = (Some err, b', w')" "ld_inv (W_archive w')" "Get (W_archive w') (checkpoint_key ''b1'') = Inr (bytes_of chk)"
    using sample_close_chmod by blast
  from c(1) have b: "b' = sample_batcher" by (cases rule: CloseCurrentBatch_cases) auto
  obtain e b2 w2 where "CloseCurrentBatch sample_deps sample_close_env sample_batcher w' = (e, b2, w2)"
    using prod_cases3 by blast
  with close_stuck_forever [OF _ _ c(2) _ _ this, of "bytes_of chk"] c b sample_state(5) show ?thesis
    by (auto simp: sample_records sample_deps_def)
qed

theorem AddRecord_bounded_witness:
  "\<exists>e b' w'. AddRecord sample_deps sample_close_env (sample_record ''r2'') zero_position sample_batcher (sample_world [])
       = (e, b', w')
     \<and> (if e = None then int (length (BT_records b')) < Cfg_MaxEvents (BT_cfg b')
        else int (length (BT_records b')) = Cfg_MaxEvents (BT_cfg b'))"
proof -
  obtain e b' w' where a: "AddRecord sample_deps sample_close_env (sample_record ''r2'') zero_position
      sample_batcher (sample_world []) = (e, b', w')" using prod_cases3 by blast
  have "int (length (BT_records sample_batcher)) < Cfg_MaxEvents (BT_cfg sample_batcher)"
    by (simp add: sample_batcher_def NewBatcher_def Let_def)
  from AddRecord_bounded [OF a this] a show ?thesis by (auto split: if_splits)
qed

end
