(* ===== verification/Pipeline.thy ===== *)
theory Pipeline
  imports Snapshot Batching
begin

text \<open>
  The pipeline, \<open>internal/pipeline/pipeline.go\<close>: configuration changes first, then every row
  change of an audited table through attribution, snapshot, alert and batcher.

  The lemmas follow the records into the batcher's reachable states, so that what the batcher
  guarantees (no record lost, duplicated or reordered) extends to whole streams of transactions.
\<close>

section \<open>Model\<close>

record ('s, 'a) PState =
  PS_config :: Manager
  PS_batcher :: Batcher
  PS_world :: "('s, 'a) World"

text \<open>
  What processing one change draws, and how often the batcher's timer goes off before the record
  is added. The timer runs in a goroutine of its own; batcher operations exclude each
  other, so that this is the only place where its turn makes a difference.
\<close>

record 'r change_env =
  chg_snapshot :: "'r snapshot_env"
  chg_trigger :: trigger_env
  chg_ticks :: "close_env list"
  chg_close :: close_env

fun run_ticks :: "('s, 'a) Deps \<Rightarrow> close_env list \<Rightarrow> Batcher \<times> ('s, 'a) World \<Rightarrow> Batcher \<times> ('s, 'a) World" where
  "run_ticks dp [] bw = bw"
| "run_ticks dp (env # envs) bw = run_ticks dp envs (timer_fires dp env (fst bw) (snd bw))"

fun apply_config_changes :: "RowChange list \<Rightarrow> Manager \<Rightarrow> Manager" where
  "apply_config_changes [] m = m"
| "apply_config_changes (ch # chs) m =
     apply_config_changes chs (if RC_Table ch = ''_audit_config'' then HandleBinlogEvent m ch else m)"

definition audited :: "Manager \<Rightarrow> RowChange \<Rightarrow> bool" where
  "audited m change \<longleftrightarrow>
     RC_Table change \<noteq> ''_audit_config'' \<and> RC_Table change \<noteq> ''_audit_context''
     \<and> (case GetTableConfig m (RC_Table change) of (cfg, found) \<Rightarrow> found \<and> TC_Enabled cfg)"

definition raise_unattributed ::
  "http_api \<Rightarrow> trigger_env \<Rightarrow> ActorAttribution \<Rightarrow> string \<Rightarrow> string \<Rightarrow> string \<Rightarrow> ('s, 'a) World \<Rightarrow> ('s, 'a) World" where
  "raise_unattributed h env attr table recordID txID w =
     (if AA_TriggerAlert attr then
        w\<lparr>W_dispatcher := map_option (\<lambda>d. snd (Trigger h d env
            \<lparr>ta_trigger = ''unattributed_change'', ta_severity = AA_SeverityTier attr, ta_tableName = table,
             ta_recordID = recordID, ta_txID = txID, ta_message = AA_Reason attr\<rparr>)) (W_dispatcher w)\<rparr>
      else w)"

text \<open>The body of the second loop, for a change of an audited table.\<close>

definition process_change ::
  "'r encryptor option \<Rightarrow> ('s, 'a) Deps \<Rightarrow> 'r change_env \<Rightarrow> Transaction \<Rightarrow> RowChange \<Rightarrow> ('s, 'a) PState
     \<Rightarrow> go_error option \<times> ('s, 'a) PState" where
  "process_change encryptor dp env tx change st =
     (let tableCfg = fst (GetTableConfig (PS_config st) (RC_Table change));
          attr = CorrelateTransaction (PS_config st) tx (RC_Table change) in
      case BuildRecord encryptor (chg_snapshot env) change tableCfg attr (Tx_TransactionID tx)
             (Tx_CommittedAt tx) (CurrentEventCount (PS_batcher st)) of
        Inl err \<Rightarrow> (Some (Wrapf ''failed to build snapshot record'' err), st)
      | Inr rec \<Rightarrow>
          let w = raise_unattributed (dp_http dp) (chg_trigger env) attr (RC_Table change) (R_ID rec)
                    (Tx_TransactionID tx) (PS_world st);
              (b, w) = run_ticks dp (chg_ticks env) (PS_batcher st, w) in
          case AddRecord dp (chg_close env) rec (Tx_Position tx) b w of
            (Some err, b, w) \<Rightarrow>
              (Some (Wrapf ''failed to add record to batch'' err), st\<lparr>PS_batcher := b, PS_world := w\<rparr>)
          | (None, b, w) \<Rightarrow> (None, st\<lparr>PS_batcher := b, PS_world := w\<rparr>))"

fun process_changes ::
  "'r encryptor option \<Rightarrow> ('s, 'a) Deps \<Rightarrow> Transaction \<Rightarrow> ('r change_env \<times> RowChange) list \<Rightarrow> ('s, 'a) PState
     \<Rightarrow> go_error option \<times> ('s, 'a) PState" where
  "process_changes encryptor dp tx [] st = (None, st)"
| "process_changes encryptor dp tx ((env, change) # rest) st =
     (if \<not> audited (PS_config st) change then process_changes encryptor dp tx rest st
      else case process_change encryptor dp env tx change st of
        (Some err, st') \<Rightarrow> (Some err, st')
      | (None, st') \<Rightarrow> process_changes encryptor dp tx rest st')"

definition ProcessTransaction ::
  "'r encryptor option \<Rightarrow> ('s, 'a) Deps \<Rightarrow> (nat \<Rightarrow> 'r change_env) \<Rightarrow> Transaction \<Rightarrow> ('s, 'a) PState
     \<Rightarrow> go_error option \<times> ('s, 'a) PState" where
  "ProcessTransaction encryptor dp envs tx st =
     process_changes encryptor dp tx (map (\<lambda>(i, ch). (envs i, ch)) (enumerate 0 (Tx_Changes tx)))
       (st\<lparr>PS_config := apply_config_changes (Tx_Changes tx) (PS_config st)\<rparr>)"

text \<open>
  \<open>Run\<close> on the transactions received until the context is cancelled or the stream ends. An
  error of a transaction is logged and the next one is taken.
\<close>

fun run_stream ::
  "'r encryptor option \<Rightarrow> ('s, 'a) Deps \<Rightarrow> ((nat \<Rightarrow> 'r change_env) \<times> Transaction) list \<Rightarrow> ('s, 'a) PState
     \<Rightarrow> ('s, 'a) PState" where
  "run_stream encryptor dp [] st = st"
| "run_stream encryptor dp ((envs, tx) # rest) st =
     run_stream encryptor dp rest (snd (ProcessTransaction encryptor dp envs tx st))"

definition Run ::
  "'r encryptor option \<Rightarrow> ('s, 'a) Deps \<Rightarrow> ((nat \<Rightarrow> 'r change_env) \<times> Transaction) list result
     \<Rightarrow> close_env list \<Rightarrow> close_env \<Rightarrow> ('s, 'a) PState \<Rightarrow> go_error option \<times> ('s, 'a) PState" where
  "Run encryptor dp stream ticks env st =
     (case stream of
        Inl err \<Rightarrow> (Some (Wrapf ''failed to start change source stream'' err), st)
      | Inr received \<Rightarrow>
          let st = run_stream encryptor dp received st;
              (b, w) = run_ticks dp ticks (PS_batcher st, PS_world st) in
          case Close dp env b w of
            (e, b, w) \<Rightarrow> (e, st\<lparr>PS_batcher := b, PS_world := w\<rparr>))"

section \<open>Records on their way into the batcher\<close>

lemma CloseCurrentBatch_reach:
  assumes "batcher_reach dp R hist closed b w" "CloseCurrentBatch dp env b w = (e, b', w')"
  shows "\<exists>closed'. batcher_reach dp R hist closed' b' w' \<and> (e = None \<longrightarrow> BT_records b' = [])"
  using assms(2)
proof (cases rule: CloseCurrentBatch_cases)
  case empty
  with batcher_reach.close_empty [OF assms(1)] assms(2) show ?thesis by auto
next
  case (error err)
  with assms(2) have "CloseCurrentBatch dp env b w = (Some err, b', w')" by simp
  from batcher_reach.close_error [OF assms(1) this] error show ?thesis by auto
next
  case (ok bt s chk a)
  with assms(2) have "CloseCurrentBatch dp env b w = (None, b', w')" by simp
  from batcher_reach.close_ok [OF assms(1) this ok(1,3)] ok show ?thesis by auto
qed

lemma run_ticks_reach:
  assumes "batcher_reach dp R hist closed (fst bw) (snd bw)"
  shows "\<exists>closed'. batcher_reach dp R hist closed' (fst (run_ticks dp envs bw)) (snd (run_ticks dp envs bw))"
  using assms
proof (induction envs arbitrary: closed bw)
  case (Cons env envs)
  obtain e b w where c: "CloseCurrentBatch dp env ((fst bw)\<lparr>BT_timer := None\<rparr>) (snd bw) = (e, b, w)" using prod_cases3 by blast
  from CloseCurrentBatch_reach [OF batcher_reach.timer [OF Cons.prems] c] obtain closed' where
    "batcher_reach dp R hist closed' (fst (b, w)) (snd (b, w))" by auto
  from Cons.IH [OF this] c show ?case by (simp add: timer_fires_def)
qed auto

lemma AddRecord_reach:
  assumes "batcher_reach dp R hist closed b w" "AddRecord dp env r pos b w = (e, b', w')"
  shows "\<exists>closed'. batcher_reach dp R
    (hist @ [r\<lparr>R_BatchID := BT_currentBatchID b, R_MerkleLeafIndex := int (length (BT_records b))\<rparr>]) closed' b' w'"
proof -
  let ?b = "append_record b r pos"
  have r: "batcher_reach dp R (hist @ [last (BT_records ?b)]) closed ?b w"
    using batcher_reach.append [OF assms(1) refl] .
  then show ?thesis using assms(2) CloseCurrentBatch_reach [OF r, of env e b' w']
    by (auto simp: AddRecord_def Let_def split: if_splits)
qed

lemma BuildRecord_fields:
  "BuildRecord enc env change cfg attr txID t i = Inr r \<Longrightarrow>
     R_ID r = se_uuid env \<and> R_TableName r = RC_Table change \<and> R_EventType r = RC_Action change \<and> R_TransactionID r = txID
     \<and> R_ActorUserID r = AA_ActorUserID attr \<and> R_ActorType r = AA_ActorType attr \<and> R_CommittedAt r = t"
  by (auto simp: BuildRecord_def)

text \<open>The record of a change: its table, event, transaction, time and actor are those of the change.\<close>

definition records_change :: "Manager \<Rightarrow> Transaction \<Rightarrow> Record \<Rightarrow> RowChange \<Rightarrow> bool" where
  "records_change m tx r change \<longleftrightarrow>
     R_TableName r = RC_Table change \<and> R_EventType r = RC_Action change
     \<and> R_TransactionID r = Tx_TransactionID tx \<and> R_CommittedAt r = Tx_CommittedAt tx
     \<and> R_ActorUserID r = AA_ActorUserID (CorrelateTransaction m tx (RC_Table change))
     \<and> R_ActorType r = AA_ActorType (CorrelateTransaction m tx (RC_Table change))"

lemma raise_reach:
  "batcher_reach dp R hist closed b w \<Longrightarrow> batcher_reach dp R hist closed b (raise_unattributed h env attr table recordID txID w)"
  by (simp add: raise_unattributed_def batcher_reach.alerted)

lemma process_change_reach:
  assumes "batcher_reach dp R hist closed (PS_batcher st) (PS_world st)"
    "process_change enc dp env tx change st = (e, st')"
  shows "PS_config st' = PS_config st \<and> (\<exists>recs closed'. batcher_reach dp R (hist @ recs) closed' (PS_batcher st') (PS_world st')
    \<and> length recs \<le> 1 \<and> list_all (\<lambda>r. records_change (PS_config st) tx r change) recs \<and> (e = None \<longrightarrow> length recs = 1))"
proof -
  let ?attr = "CorrelateTransaction (PS_config st) tx (RC_Table change)"
  let ?build = "BuildRecord enc (chg_snapshot env) change (fst (GetTableConfig (PS_config st) (RC_Table change)))
      ?attr (Tx_TransactionID tx) (Tx_CommittedAt tx) (CurrentEventCount (PS_batcher st))"
  show ?thesis
  proof (cases ?build)
    case (Inl err)
    then have "st' = st \<and> e \<noteq> None" using assms(2) by (auto simp: process_change_def Let_def)
    with assms(1) show ?thesis by (auto intro!: exI [of _ "[] :: Record list"] exI [of _ closed])
  next
    case (Inr r)
    let ?w = "raise_unattributed (dp_http dp) (chg_trigger env) ?attr (RC_Table change) (R_ID r)
        (Tx_TransactionID tx) (PS_world st)"
    obtain b0 w0 where ticks: "run_ticks dp (chg_ticks env) (PS_batcher st, ?w) = (b0, w0)" by fastforce
    obtain closed0 where reach: "batcher_reach dp R hist closed0 b0 w0"
      using run_ticks_reach [of dp R hist closed "(PS_batcher st, ?w)" "chg_ticks env"] raise_reach [OF assms(1)] ticks by auto
    obtain e' b w where add: "AddRecord dp (chg_close env) r (Tx_Position tx) b0 w0 = (e', b, w)"
      using prod_cases3 by blast
    have st': "st' = st\<lparr>PS_batcher := b, PS_world := w\<rparr>" "e = None \<longrightarrow> e' = None"
      using assms(2) Inr ticks add by (auto simp: process_change_def Let_def split: option.splits)
    obtain closed' where "batcher_reach dp R (hist @ [r\<lparr>R_BatchID := BT_currentBatchID b0,
        R_MerkleLeafIndex := int (length (BT_records b0))\<rparr>]) closed' b w"
      using AddRecord_reach [OF reach add] by blast
    with st' BuildRecord_fields [OF Inr] show ?thesis by (fastforce simp: records_change_def)
  qed
qed

lemma process_changes_reach:
  assumes "batcher_reach dp R hist closed (PS_batcher st) (PS_world st)"
    "process_changes enc dp tx evs st = (e, st')"
  shows "PS_config st' = PS_config st \<and> (\<exists>recs closed' n.
    batcher_reach dp R (hist @ recs) closed' (PS_batcher st') (PS_world st')
    \<and> list_all2 (records_change (PS_config st) tx) recs (take n (filter (audited (PS_config st)) (map snd evs)))
    \<and> (e = None \<longrightarrow> n = length (filter (audited (PS_config st)) (map snd evs))))"
  using assms
proof (induction evs arbitrary: hist closed st)
  case Nil
  then show ?case by (auto intro!: exI [of _ "[] :: Record list"] exI [of _ closed])
next
  case (Cons ev evs)
  obtain env ch where ev: "ev = (env, ch)" by (cases ev)
  show ?case
  proof (cases "audited (PS_config st) ch")
    case False
    with Cons ev show ?thesis by simp
  next
    case True
    obtain e1 st1 where p: "process_change enc dp env tx ch st = (e1, st1)" by fastforce
    obtain recs1 closed1 where r1: "PS_config st1 = PS_config st"
        "batcher_reach dp R (hist @ recs1) closed1 (PS_batcher st1) (PS_world st1)" "length recs1 \<le> 1"
        "list_all (\<lambda>r. records_change (PS_config st) tx r ch) recs1" "e1 = None \<longrightarrow> length recs1 = 1"
      using process_change_reach [OF Cons.prems(1) p] by blast
    show ?thesis
    proof (cases e1)
      case (Some err)
      then have "e = e1" "st' = st1" using Cons.prems(2) ev True p by auto
      moreover have "list_all2 (records_change (PS_config st) tx) recs1
          (take (length recs1) (filter (audited (PS_config st)) (map snd (ev # evs))))"
        using r1(3,4) ev True by (cases recs1) (auto simp: le_Suc_eq)
      ultimately show ?thesis using r1(1,2) Some
        by (intro conjI exI [of _ recs1] exI [of _ closed1] exI [of _ "length recs1"]) simp_all
    next
      case None
      then have "process_changes enc dp tx evs st1 = (e, st')" using Cons.prems(2) ev True p by simp
      from Cons.IH [OF r1(2) this] obtain recs closed' n where
        "PS_config st' = PS_config st1" "batcher_reach dp R ((hist @ recs1) @ recs) closed' (PS_batcher st') (PS_world st')"
        "list_all2 (records_change (PS_config st) tx) recs (take n (filter (audited (PS_config st)) (map snd evs)))"
        "e = None \<longrightarrow> n = length (filter (audited (PS_config st)) (map snd evs))"
        unfolding r1(1) by blast
      moreover obtain r where "recs1 = [r]" "records_change (PS_config st) tx r ch"
        using r1(4,5) None by (cases recs1) auto
      ultimately show ?thesis using r1(1) ev True
        by (intro conjI exI [of _ "recs1 @ recs"] exI [of _ closed'] exI [of _ "Suc n"]) auto
    qed
  qed
qed

lemma ProcessTransaction_reach:
  assumes "batcher_reach dp R hist closed (PS_batcher st) (PS_world st)"
    "ProcessTransaction enc dp envs tx st = (e, st')"
    "m = apply_config_changes (Tx_Changes tx) (PS_config st)"
  shows "PS_config st' = m \<and> (\<exists>recs closed' n. batcher_reach dp R (hist @ recs) closed' (PS_batcher st') (PS_world st')
    \<and> list_all2 (records_change m tx) recs (take n (filter (audited m) (Tx_Changes tx)))
    \<and> (e = None \<longrightarrow> n = length (filter (audited m) (Tx_Changes tx))))"
proof -
  define evs where "evs = map (\<lambda>(i, ch). (envs i, ch)) (enumerate 0 (Tx_Changes tx))"
  have snd: "map snd evs = Tx_Changes tx"
    using map_snd_enumerate [of 0 "Tx_Changes tx"] by (simp add: evs_def comp_def case_prod_unfold)
  have "process_changes enc dp tx evs (st\<lparr>PS_config := m\<rparr>) = (e, st')"
    using assms(2,3) by (simp add: ProcessTransaction_def evs_def)
  from process_changes_reach [OF _ this] assms(1) show ?thesis by (simp add: snd)
qed

text \<open>
  C11: The pipeline records exactly the audited changes. Processing a transaction first applies its
  configuration changes; then the records handed to the batcher are, in order and each with the
  table, event, transaction, time and actor of its change, those of the changes of tables that
  are registered and enabled (never of the two internal tables): all of them if no error is
  returned, a first part of them otherwise.
\<close>

theorem ProcessTransaction_records_audited:
  assumes "batcher_reach dp R hist closed (PS_batcher st) (PS_world st)"
    and "ProcessTransaction enc dp envs tx st = (e, st')"
    and "m = apply_config_changes (Tx_Changes tx) (PS_config st)"
  shows "PS_config st' = m \<and> (\<exists>recs closed' n. batcher_reach dp R (hist @ recs) closed' (PS_batcher st') (PS_world st')
    \<and> list_all2 (records_change m tx) recs (take n (filter (audited m) (Tx_Changes tx)))
    \<and> (e = None \<longrightarrow> n = length (filter (audited m) (Tx_Changes tx))))"
  using assms by (rule ProcessTransaction_reach)

section \<open>Whole streams\<close>

text \<open>The configuration and the outcome of every transaction along a stream.\<close>

fun stream_ok ::
  "'r encryptor option \<Rightarrow> ('s, 'a) Deps \<Rightarrow> ((nat \<Rightarrow> 'r change_env) \<times> Transaction) list \<Rightarrow> ('s, 'a) PState \<Rightarrow> bool" where
  "stream_ok enc dp [] st \<longleftrightarrow> True"
| "stream_ok enc dp ((envs, tx) # rest) st \<longleftrightarrow>
     (case ProcessTransaction enc dp envs tx st of (e, st') \<Rightarrow> e = None \<and> stream_ok enc dp rest st')"

fun audited_stream :: "Manager \<Rightarrow> Transaction list \<Rightarrow> (Manager \<times> Transaction \<times> RowChange) list" where
  "audited_stream m [] = []"
| "audited_stream m (tx # txs) =
     (let m' = apply_config_changes (Tx_Changes tx) m in
      map (\<lambda>ch. (m', tx, ch)) (filter (audited m') (Tx_Changes tx)) @ audited_stream m' txs)"

text \<open>The errors of the transactions, which \<open>Run\<close> logs and drops.\<close>

fun stream_outcomes ::
  "'r encryptor option \<Rightarrow> ('s, 'a) Deps \<Rightarrow> ((nat \<Rightarrow> 'r change_env) \<times> Transaction) list \<Rightarrow> ('s, 'a) PState \<Rightarrow> go_error option list" where
  "stream_outcomes enc dp [] st = []"
| "stream_outcomes enc dp ((envs, tx) # rest) st =
     (case ProcessTransaction enc dp envs tx st of (e, st') \<Rightarrow> e # stream_outcomes enc dp rest st')"

lemma stream_ok_outcomes: "stream_ok enc dp evs st \<longleftrightarrow> list_all (\<lambda>e. e = None) (stream_outcomes enc dp evs st)"
  by (induction enc dp evs st rule: stream_ok.induct) (auto split: prod.splits)

lemma length_outcomes [simp]: "length (stream_outcomes enc dp evs st) = length evs"
  by (induction enc dp evs st rule: stream_ok.induct) (auto split: prod.splits)

text \<open>
  What a stream leaves behind when each transaction ends with the given outcome: the records of all
  its audited changes if it was processed without error, of a first part of them otherwise.
\<close>

inductive stream_recorded :: "Manager \<Rightarrow> (Transaction \<times> go_error option) list \<Rightarrow> Record list \<Rightarrow> bool" where
  stream_end: "stream_recorded m [] []"
| stream_tx: "m' = apply_config_changes (Tx_Changes tx) m \<Longrightarrow>
    list_all2 (records_change m' tx) part (take n (filter (audited m') (Tx_Changes tx))) \<Longrightarrow>
    e = None \<longrightarrow> n = length (filter (audited m') (Tx_Changes tx)) \<Longrightarrow>
    stream_recorded m' rest recs \<Longrightarrow> stream_recorded m ((tx, e) # rest) (part @ recs)"

lemma stream_recorded_all:
  assumes "stream_recorded m txs recs" "list_all (\<lambda>(tx, e). e = None) txs"
  shows "list_all2 (\<lambda>r (m, tx, ch). records_change m tx r ch) recs (audited_stream m (map fst txs))"
  using assms
proof induction
  case (stream_tx m' tx m part n e rest recs)
  have "list_all2 (\<lambda>r (m, tx, ch). records_change m tx r ch) part (map (\<lambda>ch. (m', tx, ch)) (filter (audited m') (Tx_Changes tx)))"
    using stream_tx by (simp add: list_all2_map2)
  with stream_tx show ?case by (auto simp: Let_def intro: list_all2_appendI)
qed simp

lemma run_stream_reach:
  assumes "batcher_reach dp R hist closed (PS_batcher st) (PS_world st)"
  shows "\<exists>recs closed'. batcher_reach dp R (hist @ recs) closed' (PS_batcher (run_stream enc dp evs st)) (PS_world (run_stream enc dp evs st))
    \<and> stream_recorded (PS_config st) (zip (map snd evs) (stream_outcomes enc dp evs st)) recs"
  using assms
proof (induction evs arbitrary: hist closed st)
  case Nil
  then show ?case by (auto intro!: exI [of _ "[] :: Record list"] exI [of _ closed] stream_end)
next
  case (Cons ev evs)
  obtain envs tx where ev: "ev = (envs, tx)" by (cases ev)
  obtain e st' where p: "ProcessTransaction enc dp envs tx st = (e, st')" by fastforce
  let ?m = "apply_config_changes (Tx_Changes tx) (PS_config st)"
  obtain recs closed' n where r: "PS_config st' = ?m" "batcher_reach dp R (hist @ recs) closed' (PS_batcher st') (PS_world st')"
      "list_all2 (records_change ?m tx) recs (take n (filter (audited ?m) (Tx_Changes tx)))"
      "e = None \<longrightarrow> n = length (filter (audited ?m) (Tx_Changes tx))"
    using ProcessTransaction_reach [OF Cons.prems p refl] by auto
  obtain recs' closed'' where "batcher_reach dp R ((hist @ recs) @ recs') closed'' (PS_batcher (run_stream enc dp evs st'))
        (PS_world (run_stream enc dp evs st'))"
      "stream_recorded ?m (zip (map snd evs) (stream_outcomes enc dp evs st')) recs'"
    using Cons.IH [OF r(2)] r(1) by auto
  with stream_tx [OF refl r(3,4)] ev p show ?case
    by (intro exI [of _ "recs @ recs'"] exI [of _ closed'']) simp
qed

lemma Run_reach:
  assumes "batcher_reach dp R hist closed (PS_batcher st) (PS_world st)" "Run enc dp (Inr received) ticks env st = (None, st')"
  shows "BT_records (PS_batcher st') = [] \<and> (\<exists>recs closed'.
    batcher_reach dp R (hist @ recs) closed' (PS_batcher st') (PS_world st')
    \<and> concat (map snd closed') = hist @ recs \<and> list_all (sealed dp) closed'
    \<and> stream_recorded (PS_config st) (zip (map snd received) (stream_outcomes enc dp received st)) recs)"
proof -
  let ?st = "run_stream enc dp received st"
  obtain recs closed1 where r: "batcher_reach dp R (hist @ recs) closed1 (PS_batcher ?st) (PS_world ?st)"
      "stream_recorded (PS_config st) (zip (map snd received) (stream_outcomes enc dp received st)) recs"
    using run_stream_reach [OF assms(1)] by blast
  obtain b w where ticks: "run_ticks dp ticks (PS_batcher ?st, PS_world ?st) = (b, w)" by fastforce
  obtain closed2 where t: "batcher_reach dp R (hist @ recs) closed2 (b\<lparr>BT_timer := None\<rparr>) w"
    using run_ticks_reach [of dp R "hist @ recs" closed1 "(PS_batcher ?st, PS_world ?st)" ticks] r(1) ticks batcher_reach.timer
    by fastforce
  have c: "CloseCurrentBatch dp env (b\<lparr>BT_timer := None\<rparr>) w = (None, PS_batcher st', PS_world st')"
    using assms(2) ticks by (auto simp: Run_def Close_def Let_def split: prod.splits)
  from CloseCurrentBatch_reach [OF t c] obtain closed' where e: "BT_records (PS_batcher st') = []"
    "batcher_reach dp R (hist @ recs) closed' (PS_batcher st') (PS_world st')" by blast
  have "concat (map snd closed') = hist @ recs" "list_all (sealed dp) closed'"
    using batcher_reach_inv [OF e(2)] e(1) by simp_all
  with e r(2) show ?thesis by blast
qed

lemma stream_ok_recorded:
  assumes "stream_ok enc dp received st"
    "stream_recorded m (zip (map snd received) (stream_outcomes enc dp received st)) recs"
  shows "list_all2 (\<lambda>r (m, tx, ch). records_change m tx r ch) recs (audited_stream m (map snd received))"
proof -
  have "list_all (\<lambda>(tx, e). e = None) (zip (map snd received) (stream_outcomes enc dp received st))"
    using assms(1) unfolding stream_ok_outcomes list_all_iff by (auto dest: set_zip_rightD)
  from stream_recorded_all [OF assms(2) this] show ?thesis by simp
qed

text \<open>
  Nothing audited is left behind at shutdown. If every transaction of a stream was processed
  without error and \<open>Run\<close> returns nil, the buffer is empty and the sealed batches contain, in
  order, one record for every audited change of the stream, however often the timer went off
  on the way.
\<close>

theorem Run_persists_everything:
  assumes "batcher_reach dp R [] [] (PS_batcher st) (PS_world st)"
    and "stream_ok enc dp received st" "Run enc dp (Inr received) ticks env st = (None, st')"
  shows "BT_records (PS_batcher st') = [] \<and> (\<exists>closed.
    batcher_reach dp R (concat (map snd closed)) closed (PS_batcher st') (PS_world st')
    \<and> list_all (sealed dp) closed
    \<and> list_all2 (\<lambda>r (m, tx, ch). records_change m tx r ch) (concat (map snd closed))
        (audited_stream (PS_config st) (map snd received)))"
  using Run_reach [OF assms(1,3)] stream_ok_recorded [OF assms(2)] by auto

section \<open>A concrete stream\<close>

definition sample_tx :: Transaction where
  "sample_tx = \<lparr>Tx_TransactionID = ''tx'', Tx_Position = zero_position, Tx_CommittedAt = 0,
     Tx_Changes = [sample_change EventTypeInsert (sample_row ''accounts''), sample_insert], Tx_DDLStatement = []\<rparr>"

definition sample_chg_env :: "bytes result change_env" where
  "sample_chg_env = \<lparr>chg_snapshot = sample_snapshot_env, chg_trigger = sample_env 0, chg_ticks = [], chg_close = sample_close_env\<rparr>"

definition sample_pstate :: "(MemoryStore, LocalDirArchiveStore) PState" where
  "sample_pstate = \<lparr>PS_config = NewManager,
     PS_batcher = NewBatcher \<lparr>Cfg_MaxInterval = 0, Cfg_MaxEvents = 2\<rparr> ''b1'' 0 0, PS_world = sample_world []\<rparr>"

lemma sample_config:
  "GetTableConfig (apply_config_changes (Tx_Changes sample_tx) NewManager) ''accounts''
     = (parseConfigFromMap (sample_row ''accounts''), True)"
  "TC_Enabled (parseConfigFromMap (sample_row ''accounts''))"
  by (simp_all add: sample_tx_def sample_change_def sample_insert_def HandleBinlogEvent_def NewManager_def
      GetTableConfig_def sample_row_def parseConfigFromMap_def flag_of_def string_or_def)

text \<open>The stream registers a table and then inserts into it: one record, which can be hashed.\<close>

lemma sample_processed:
  "\<exists>st' r h. ProcessTransaction None sample_deps (\<lambda>_. sample_chg_env) sample_tx sample_pstate = (None, st')
     \<and> BT_records (PS_batcher st') = [r] \<and> record_leaf r = Inr h \<and> BT_currentBatchID (PS_batcher st') = ''b1''
     \<and> BT_startedAt (PS_batcher st') = 0 \<and> PS_world st' = sample_world []"
proof -
  let ?m = "apply_config_changes (Tx_Changes sample_tx) NewManager"
  let ?attr = "CorrelateTransaction ?m sample_tx ''accounts''"
  obtain r where r: "BuildRecord None sample_snapshot_env sample_insert (parseConfigFromMap (sample_row ''accounts''))
      ?attr ''tx'' 0 0 = Inr r"
    by (simp add: BuildRecord_def image_text_def sample_insert_def processRow_def process_column_def
        extractPrimaryKey_def)
  have "row_ok row" if "RC_BeforeImage sample_insert = Some row \<or> RC_AfterImage sample_insert = Some row" for row
    using that by (auto simp: sample_insert_def row_ok_def max_nesting_def num_start_def is_digit_def)
  from BuildRecord_leaf [OF r this, where bid = "''b1''" and n = 0] obtain h where
    h: "record_leaf (r\<lparr>R_BatchID := ''b1'', R_MerkleLeafIndex := 0\<rparr>) = Inr h" by blast
  have t: "Tx_Changes sample_tx = [sample_change EventTypeInsert (sample_row ''accounts''), sample_insert]"
    "Tx_TransactionID sample_tx = ''tx''" "Tx_CommittedAt sample_tx = 0" by (simp_all add: sample_tx_def)
  have a: "\<not> audited ?m (sample_change EventTypeInsert (sample_row ''accounts''))" "audited ?m sample_insert"
    using sample_config by (simp_all add: audited_def sample_change_def sample_insert_def)
  have w: "raise_unattributed h e at tb i x (sample_world []) = sample_world []" for h e at tb i x
    by (simp add: raise_unattributed_def sample_world_def)
  have b: "AddRecord sample_deps e r p (NewBatcher \<lparr>Cfg_MaxInterval = 0, Cfg_MaxEvents = 2\<rparr> ''b1'' 0 0) v
      = (None, append_record (NewBatcher \<lparr>Cfg_MaxInterval = 0, Cfg_MaxEvents = 2\<rparr> ''b1'' 0 0) r p, v)" for e p v
    by (simp add: AddRecord_def Let_def append_record_def NewBatcher_def resetTimer_def)
  have "process_change None sample_deps sample_chg_env sample_tx sample_insert (sample_pstate\<lparr>PS_config := ?m\<rparr>)
      = (None, \<lparr>PS_config = ?m, PS_batcher = append_record (NewBatcher \<lparr>Cfg_MaxInterval = 0, Cfg_MaxEvents = 2\<rparr> ''b1'' 0 0) r
          (Tx_Position sample_tx), PS_world = sample_world []\<rparr>)"
    using r sample_config(1) b w
    by (simp add: process_change_def sample_pstate_def sample_chg_env_def t CurrentEventCount_def Let_def
        sample_insert_def NewBatcher_def resetTimer_def)
  then have "ProcessTransaction None sample_deps (\<lambda>_. sample_chg_env) sample_tx sample_pstate
      = (None, \<lparr>PS_config = ?m, PS_batcher = append_record (NewBatcher \<lparr>Cfg_MaxInterval = 0, Cfg_MaxEvents = 2\<rparr> ''b1'' 0 0) r
          (Tx_Position sample_tx), PS_world = sample_world []\<rparr>)"
    using a by (simp add: ProcessTransaction_def sample_pstate_def t)
  with h show ?thesis by (simp add: append_record_def NewBatcher_def resetTimer_def Let_def)
qed

lemma sample_audited:
  "filter (audited (apply_config_changes (Tx_Changes sample_tx) NewManager)) (Tx_Changes sample_tx) = [sample_insert]"
  "PS_config sample_pstate = NewManager"
  using sample_config by (simp_all add: audited_def sample_change_def sample_insert_def sample_tx_def sample_pstate_def)

lemma concat_singleton_mem:
  assumes "concat (map snd ps) = [x]" shows "\<exists>p. (p, [x]) \<in> set ps"
  using assms by (induction ps) (fastforce simp: append_eq_Cons_conv)+

theorem ProcessTransaction_records_audited_witness:
  "\<exists>st' recs closed'. ProcessTransaction None sample_deps (\<lambda>_. sample_chg_env) sample_tx sample_pstate = (None, st')
     \<and> batcher_reach sample_deps (\<lambda>_ _. False) recs closed' (PS_batcher st') (PS_world st')
     \<and> list_all2 (records_change (apply_config_changes (Tx_Changes sample_tx) NewManager) sample_tx) recs [sample_insert]"
proof -
  obtain st' where p: "ProcessTransaction None sample_deps (\<lambda>_. sample_chg_env) sample_tx sample_pstate = (None, st')"
    using sample_processed by blast
  have "batcher_reach sample_deps (\<lambda>_ _. False) [] [] (PS_batcher sample_pstate) (PS_world sample_pstate)"
    by (simp add: sample_pstate_def batcher_reach.start)
  from ProcessTransaction_records_audited [OF this p refl] p show ?thesis
    by (auto simp: sample_audited)
qed

theorem Run_persists_everything_witness:
  "\<exists>st' r bt. Run None sample_deps (Inr [(\<lambda>_. sample_chg_env, sample_tx)]) [] sample_close_env sample_pstate = (None, st')
     \<and> BT_records (PS_batcher st') = [] \<and> sealed sample_deps (bt, [r])
     \<and> records_change (apply_config_changes (Tx_Changes sample_tx) NewManager) sample_tx r sample_insert"
proof -
  let ?evs = "[(\<lambda>_. sample_chg_env, sample_tx)]"
  obtain st1 r h where p: "ProcessTransaction None sample_deps (\<lambda>_. sample_chg_env) sample_tx sample_pstate = (None, st1)"
    "BT_records (PS_batcher st1) = [r]" "record_leaf r = Inr h" "BT_currentBatchID (PS_batcher st1) = ''b1''"
    "BT_startedAt (PS_batcher st1) = 0" "PS_world st1 = sample_world []"
    using sample_processed by blast
  have "\<exists>b' w'. CloseCurrentBatch sample_deps sample_close_env ((PS_batcher st1)\<lparr>BT_timer := None\<rparr>) (sample_world []) = (None, b', w')"
    using close_one [OF _ p(3), of "(PS_batcher st1)\<lparr>BT_timer := None\<rparr>"] p by simp
  then obtain st' where run: "Run None sample_deps (Inr ?evs) [] sample_close_env sample_pstate = (None, st')"
    using p by (auto simp: Run_def Close_def Let_def)
  have s: "batcher_reach sample_deps (\<lambda>_ _. False) [] [] (PS_batcher sample_pstate) (PS_world sample_pstate)"
    by (simp add: sample_pstate_def batcher_reach.start)
  have "PS_config sample_pstate = NewManager" by (simp add: sample_pstate_def)
  with Run_persists_everything [OF s _ run] p(1) obtain closed where c: "BT_records (PS_batcher st') = []"
      "list_all (sealed sample_deps) closed"
      "list_all2 (\<lambda>r (m, tx, ch). records_change m tx r ch) (concat (map snd closed))
         [(apply_config_changes (Tx_Changes sample_tx) NewManager, sample_tx, sample_insert)]"
    by (auto simp: sample_audited Let_def)
  then obtain r' where r': "concat (map snd closed) = [r']"
      "records_change (apply_config_changes (Tx_Changes sample_tx) NewManager) sample_tx r' sample_insert"
    by (auto simp: list_all2_Cons2)
  obtain bt where "(bt, [r']) \<in> set closed" using concat_singleton_mem [OF r'(1)] by blast
  with c(2) have "sealed sample_deps (bt, [r'])" by (simp only: list_all_iff)
  with run c(1) r'(2) show ?thesis by blast
qed

end
