(* ===== verification/Progress.thy ===== *)
theory Progress
  imports Pipeline
begin

text \<open>
  Progress: while store, archive and signer work and fresh identifiers are fresh, no operation of the
  pipeline fails, so that what the other theories show of runs without errors is what happens.

  Each lemma says of an operation that it succeeds and leaves the next one in the position to succeed.
\<close>

section \<open>Building records\<close>

text \<open>Values JSON can express: no infinite or undefined float, no year beyond four digits.\<close>

fun encodable :: "gval \<Rightarrow> bool" where
  "encodable (GFloat None) = False"
| "encodable (GTime t) = year_ok t"
| "encodable (GList vs) = list_all encodable vs"
| "encodable (GMap kvs) = list_all (\<lambda>(k, v). encodable v) kvs"
| "encodable _ = True"

lemma traverse_total: "(\<And>x. x \<in> set xs \<Longrightarrow> \<exists>y. f x = Inr y) \<Longrightarrow> \<exists>ys. traverse f xs = Inr ys"
  by (induction xs) fastforce+

lemma sequence_total: "(\<And>r. r \<in> set rs \<Longrightarrow> \<exists>y. r = Inr y) \<Longrightarrow> \<exists>ys. sequence rs = Inr ys"
  using traverse_total [of rs id] by simp

lemma marshal_total:
  "encodable v \<Longrightarrow> \<exists>t. marshal v = Inr t"
  "list_all encodable vs \<Longrightarrow> r \<in> set (marshal_items vs) \<Longrightarrow> \<exists>t. r = Inr t"
  "list_all (\<lambda>(k, v). encodable v) kvs \<Longrightarrow> (k, r) \<in> set (marshal_entries kvs) \<Longrightarrow> \<exists>t. r = Inr t"
proof (induction v and vs and kvs arbitrary: and r and k r rule: marshal_marshal_items_marshal_entries.induct)
  case (9 vs)
  then show ?case using sequence_total [of "marshal_items vs"] by auto
next
  case (10 kvs)
  have "\<exists>ts. traverse (\<lambda>(k, r). result_bind r (\<lambda>t. Inr (quote k @ '':'' @ t))) (sort_key fst (marshal_entries kvs)) = Inr ts"
    using 10 by (intro traverse_total) fastforce
  then show ?case by auto
qed (auto simp: marshal_time_def)

definition row_good :: "row \<Rightarrow> bool" where
  "row_good row \<longleftrightarrow> row_ok row \<and> encodable (GMap row)"

text \<open>The encryptor works with the randomness drawn.\<close>

definition encrypts :: "'r encryptor option \<Rightarrow> (string \<Rightarrow> 'r) \<Rightarrow> bool" where
  "encrypts enc rnd \<longleftrightarrow> (case enc of None \<Rightarrow> True | Some e \<Rightarrow> \<forall>k p. \<not> isl (e (rnd k) p))"

lemma process_column_total:
  assumes "encrypts enc rnd" "encodable v"
  shows "\<exists>v'. process_column enc cols rnd (k, v) = Inr (k, v') \<and> encodable v'"
proof (cases enc)
  case (Some e)
  obtain t where t: "marshal v = Inr t" using marshal_total(1) [OF assms(2)] by blast
  have "\<not> isl (e (rnd k) (bytes_of t))" using assms(1) Some by (simp add: encrypts_def)
  then obtain ct ver where "e (rnd k) (bytes_of t) = Inr (ct, ver)" by (cases "e (rnd k) (bytes_of t)") auto
  with t assms(2) Some show ?thesis by (simp add: process_column_def)
qed (use assms(2) in \<open>simp add: process_column_def\<close>)

lemma processRow_total:
  assumes "encrypts enc rnd" "encodable (GMap row)"
  shows "\<exists>out. processRow enc row cols rnd = Inr out \<and> encodable (GMap out)"
  using assms(2)
proof (induction row)
  case (Cons kv row)
  obtain k v where kv: "kv = (k, v)" by (cases kv)
  obtain v' where "process_column enc cols rnd (k, v) = Inr (k, v')" "encodable v'"
    using process_column_total [OF assms(1)] Cons.prems kv by fastforce
  moreover obtain out where "processRow enc row cols rnd = Inr out" "encodable (GMap out)" using Cons by auto
  ultimately show ?case by (simp add: processRow_def kv)
qed (simp add: processRow_def)

lemma image_text_total:
  assumes "encrypts enc rnd" "\<And>row. img = Some row \<Longrightarrow> row_good row"
  shows "\<exists>t. image_text which enc wanted img cols rnd = Inr t"
proof (cases "\<exists>row. img = Some row \<and> wanted")
  case True
  then obtain row where row: "img = Some row" "wanted" by blast
  then obtain out where "processRow enc row cols rnd = Inr out" "encodable (GMap out)"
    using processRow_total [OF assms(1)] assms(2) by (auto simp: row_good_def)
  moreover from this obtain t where "marshal (GMap out) = Inr t" using marshal_total(1) by blast
  ultimately show ?thesis using row by (simp add: image_text_def del: marshal.simps)
qed (auto simp: image_text_def split: option.splits)

lemma extractPrimaryKey_total:
  assumes "\<And>row. before = Some row \<or> after = Some row \<Longrightarrow> row_good row"
  shows "\<exists>t. extractPrimaryKey before after = Inr t"
proof (cases "case after of Some r \<Rightarrow> Some r | None \<Rightarrow> before")
  case None
  then show ?thesis by (simp add: extractPrimaryKey_def)
next
  case (Some source)
  then have "row_good source" using assms by (auto split: option.splits)
  then have enc: "encodable v" if "(k, v) \<in> set source" for k v using that by (auto simp: row_good_def list_all_iff)
  have one: "\<exists>t. marshal (GMap [(k, v)]) = Inr t" if "encodable v" for k v using marshal_total(1) [of "GMap [(k, v)]"] that by simp
  have key: "\<exists>t. marshal (GMap [(k, the (map_of source k))]) = Inr t" if "map_of source k \<noteq> None" for k
  proof -
    from that obtain v where "map_of source k = Some v" by blast
    with enc [OF map_of_SomeD [OF this]] one show ?thesis by simp
  qed
  have first: "map_of source k \<noteq> None" if "sort (map fst source) = k # ks" for k ks
    using that by (metis list.set_intros(1) map_of_eq_None_iff set_map set_sort)
  have id: "encodable v" if "find (\<lambda>(k, v). has_id_suffix k) source = Some (k, v)" for k v
    using that enc unfolding find_Some_iff by (metis nth_mem)
  have name: "map_of source c \<noteq> None" if "find (\<lambda>c. map_of source c \<noteq> None) cs = Some c" for c cs
    using that unfolding find_Some_iff by blast
  show ?thesis
    unfolding extractPrimaryKey_def Some option.case
    using key first one id name
    by (auto simp del: marshal.simps find.simps split: option.splits list.splits)
qed

lemma BuildRecord_total:
  assumes "encrypts enc (se_before env)" "encrypts enc (se_after env)"
    and "\<And>row. RC_BeforeImage ch = Some row \<or> RC_AfterImage ch = Some row \<Longrightarrow> row_good row"
  shows "\<exists>r. BuildRecord enc env ch cfg attr txID t i = Inr r
    \<and> (\<forall>bid n. \<exists>h. record_leaf (r\<lparr>R_BatchID := bid, R_MerkleLeafIndex := n\<rparr>) = Inr h)"
proof -
  let ?img = "\<lambda>which wanted img rnd. image_text which enc wanted img (TC_EncryptedColumns cfg) rnd"
  obtain b a pk where
    "?img ''before'' (RC_Action ch = EventTypeUpdate \<or> RC_Action ch = EventTypeDelete) (RC_BeforeImage ch) (se_before env) = Inr b"
    "?img ''after'' (RC_Action ch = EventTypeInsert \<or> RC_Action ch = EventTypeUpdate) (RC_AfterImage ch) (se_after env) = Inr a"
    "extractPrimaryKey (RC_BeforeImage ch) (RC_AfterImage ch) = Inr pk"
    using image_text_total [OF assms(1)] image_text_total [OF assms(2)] extractPrimaryKey_total assms(3) by metis
  then obtain r where r: "BuildRecord enc env ch cfg attr txID t i = Inr r" by (simp add: BuildRecord_def)
  with BuildRecord_leaf [OF r] assms(3) show ?thesis by (auto simp: row_good_def)
qed

section \<open>Closing batches\<close>

text \<open>
  What progress needs of store, archive and signer. \<open>free a I\<close> says of the archive that a checkpoint
  can be written for every identifier of \<open>I\<close>, in any order.
\<close>

locale store_progress =
  fixes S :: "'s StoreI" and up :: "'s \<Rightarrow> bool"
  assumes create_progress: "up s \<Longrightarrow> \<exists>s'. st_CreateBatch S s bt rs = (None, s') \<and> up s'"

locale archive_progress =
  fixes A :: "'a ArchiveI" and free :: "'a \<Rightarrow> string set \<Rightarrow> bool"
  assumes put_progress: "free a I \<Longrightarrow> i \<in> I \<Longrightarrow> \<exists>a'. ar_PutCheckpoint A a i d = (None, a') \<and> free a' (I - {i})"
    and free_mono: "free a I \<Longrightarrow> J \<subseteq> I \<Longrightarrow> free a J"

text \<open>
  The batcher is in a position to close whatever happens next, and to do so again for every
  identifier in \<open>ids\<close>: these are what closing will draw, in this order. \<open>uuids\<close> are the
  identifiers the records to come will draw. Nobody else works on the store and the archive; \<open>hist\<close> is
  what was added so far and \<open>closed\<close> what was closed.
\<close>

definition progressing ::
  "('s, 'a) Deps \<Rightarrow> ('a \<Rightarrow> string set \<Rightarrow> bool) \<Rightarrow> ('s \<Rightarrow> bool) \<Rightarrow> string list \<Rightarrow> string list \<Rightarrow> Record list
     \<Rightarrow> (Batch \<times> Record list) list \<Rightarrow> Batcher \<Rightarrow> ('s, 'a) World \<Rightarrow> bool" where
  "progressing dp free up ids uuids hist closed b w \<longleftrightarrow>
     batcher_reach dp (\<lambda>_ _. False) hist closed b w
     \<and> distinct (closed_ids closed @ BT_currentBatchID b # ids) \<and> distinct (map R_ID hist @ uuids)
     \<and> free (W_archive w) (set (BT_currentBatchID b # ids)) \<and> up (W_store w)
     \<and> year_ok (BT_startedAt b) \<and> (\<forall>r \<in> set (BT_records b). \<not> isl (record_leaf r))"

definition close_good :: "close_env \<Rightarrow> bool" where
  "close_good env \<longleftrightarrow> year_ok (ce_closedAt env) \<and> year_ok (ce_startedAt env)"

definition change_ids :: "'r change_env \<Rightarrow> string list" where
  "change_ids env = map ce_newID (chg_ticks env) @ [ce_newID (chg_close env)]"

definition change_good :: "'r encryptor option \<Rightarrow> 'r change_env \<Rightarrow> RowChange \<Rightarrow> bool" where
  "change_good enc env ch \<longleftrightarrow> encrypts enc (se_before (chg_snapshot env)) \<and> encrypts enc (se_after (chg_snapshot env))
     \<and> list_all close_good (chg_ticks env @ [chg_close env])
     \<and> (case RC_BeforeImage ch of None \<Rightarrow> True | Some row \<Rightarrow> row_good row)
     \<and> (case RC_AfterImage ch of None \<Rightarrow> True | Some row \<Rightarrow> row_good row)"

locale progress_system =
  store_progress S up + archive_progress A free
  for S :: "'s StoreI" and up :: "'s \<Rightarrow> bool" and A :: "'a ArchiveI" and free :: "'a \<Rightarrow> string set \<Rightarrow> bool" +
  fixes works :: "('s, 'a) Deps \<Rightarrow> bool"
  assumes deps: "works dp \<Longrightarrow> dp_store dp = S" "works dp \<Longrightarrow> dp_archive dp = A"
    and signs: "works dp \<Longrightarrow> \<exists>sig v. dp_sign dp d = Inr (sig, v)"
begin

lemma progressing_drop:
  assumes "progressing dp free up (ids @ ids') (us @ us') hist closed b w"
  shows "progressing dp free up ids' us' hist closed b w"
proof -
  have "free (W_archive w) (set (BT_currentBatchID b # ids'))"
    using free_mono [of "W_archive w" "set (BT_currentBatchID b # ids @ ids')"] assms by (auto simp: progressing_def)
  with assms show ?thesis by (auto simp: progressing_def)
qed

lemma progressing_timer: "progressing dp free up ids us hist closed b w \<Longrightarrow> progressing dp free up ids us hist closed (b\<lparr>BT_timer := None\<rparr>) w"
  by (simp add: progressing_def batcher_reach.timer)

lemma seal_progress:
  assumes "\<forall>r \<in> set (BT_records b). \<not> isl (record_leaf r)" "BT_records b \<noteq> []" "works dp"
  shows "\<exists>bt. seal_batch dp t b = Inr bt \<and> B_ID bt = BT_currentBatchID b \<and> B_StartedAt bt = BT_startedAt b \<and> B_ClosedAt bt = t"
proof -
  have "\<exists>h. record_leaf r = Inr h" if "r \<in> set (BT_records b)" for r using assms(1) that by (cases "record_leaf r") auto
  then obtain leaves where l: "traverse record_leaf (BT_records b) = Inr leaves" using traverse_total [of "BT_records b"] by blast
  then have "leaves \<noteq> []" using assms(2) traverse_length by fastforce
  then obtain t where "BuildTree leaves = Inr t" using BuildTree_total by blast
  moreover obtain sig v where "dp_sign dp (Root t) = Inr (sig, v)" using signs [OF assms(3)] by blast
  ultimately show ?thesis using l by (simp add: seal_batch_def)
qed

lemma close_progress:
  assumes "progressing dp free up (ce_newID env # ids) us hist closed b w" "close_good env" "works dp"
  shows "\<exists>b' w' closed'. CloseCurrentBatch dp env b w = (None, b', w') \<and> progressing dp free up ids us hist closed' b' w' \<and> BT_records b' = []"
proof (cases "BT_records b = []")
  case True
  let ?b = "resetTimer (ce_timerNow env) (b\<lparr>BT_startedAt := ce_startedAt env\<rparr>)"
  have c: "CloseCurrentBatch dp env b w = (None, ?b, w)" using True by (simp add: CloseCurrentBatch_def)
  have l: "progressing dp free up ids us hist closed b w" using progressing_drop [of dp "[ce_newID env]" ids "[]"] assms(1) by simp
  then have "batcher_reach dp (\<lambda>_ _. False) hist closed ?b w" using batcher_reach.close_empty [OF _ c True] by (simp add: progressing_def)
  then have "progressing dp free up ids us hist closed ?b w" using l assms(2) True by (simp add: progressing_def close_good_def resetTimer_def)
  with c True show ?thesis by auto
next
  case False
  note ready = assms(1) [unfolded progressing_def]
  obtain bt where bt: "seal_batch dp (ce_closedAt env) b = Inr bt" "B_ID bt = BT_currentBatchID b"
      "B_StartedAt bt = BT_startedAt b" "B_ClosedAt bt = ce_closedAt env"
    using seal_progress [OF _ False assms(3)] ready by blast
  obtain s where s: "st_CreateBatch S (W_store w) bt (BT_records b) = (None, s)" "up s" using create_progress ready by blast
  obtain chk where chk: "marshal_checkpoint (checkpoint_object b bt) = Inr chk"
    using marshal_checkpoint_total [of "checkpoint_object b bt"] bt ready assms(2) by (auto simp: checkpoint_object_def close_good_def)
  let ?I = "set (BT_currentBatchID b # ce_newID env # ids)"
  obtain a where a: "ar_PutCheckpoint A (W_archive w) (B_ID bt) (bytes_of chk) = (None, a)" "free a (?I - {B_ID bt})"
    using put_progress [of "W_archive w" ?I "B_ID bt" "bytes_of chk"] ready bt(2) by auto
  have f: "free a (set (ce_newID env # ids))" using free_mono [OF a(2)] ready bt(2) by auto
  obtain b' w' where c: "CloseCurrentBatch dp env b w = (None, b', w')" "W_archive w' = a" "W_store w' = s"
      "BT_records b' = []" "BT_currentBatchID b' = ce_newID env" "BT_startedAt b' = ce_startedAt env"
    using False bt s chk a deps [OF assms(3)] by (auto simp: CloseCurrentBatch_def Let_def reset_batch_def resetTimer_def)
  have "batcher_reach dp (\<lambda>_ _. False) hist (closed @ [(bt, BT_records b)]) b' w'"
    using batcher_reach.close_ok [OF _ c(1) False bt(1)] ready by blast
  then have "progressing dp free up ids us hist (closed @ [(bt, BT_records b)]) b' w'"
    using c f s(2) ready bt(2) assms(2) by (simp add: progressing_def close_good_def)
  with c show ?thesis by blast
qed

lemma ticks_progress:
  assumes "progressing dp free up (map ce_newID envs @ ids) us hist closed (fst bw) (snd bw)" "list_all close_good envs" "works dp"
  shows "\<exists>closed'. progressing dp free up ids us hist closed' (fst (run_ticks dp envs bw)) (snd (run_ticks dp envs bw))"
  using assms
proof (induction envs arbitrary: bw closed)
  case (Cons env envs)
  have "progressing dp free up (ce_newID env # (map ce_newID envs @ ids)) us hist closed ((fst bw)\<lparr>BT_timer := None\<rparr>) (snd bw)"
    using progressing_timer [OF Cons.prems(1)] by simp
  from close_progress [OF this _ assms(3)] Cons.prems(2) obtain b' w' closed' where
    "CloseCurrentBatch dp env ((fst bw)\<lparr>BT_timer := None\<rparr>) (snd bw) = (None, b', w')"
    "progressing dp free up (map ce_newID envs @ ids) us hist closed' (fst (b', w')) (snd (b', w'))" by auto
  with Cons.IH [OF this(2)] Cons.prems(2,3) show ?case by (simp add: timer_fires_def)
qed auto

lemma add_progress:
  assumes "progressing dp free up (ce_newID env # ids) (R_ID r # us) hist closed b w" "close_good env"
    and "\<And>bid n. \<exists>h. record_leaf (r\<lparr>R_BatchID := bid, R_MerkleLeafIndex := n\<rparr>) = Inr h"
    and "works dp"
    and r': "r' = r\<lparr>R_BatchID := BT_currentBatchID b, R_MerkleLeafIndex := int (length (BT_records b))\<rparr>"
  shows "\<exists>b' w' closed'. AddRecord dp env r pos b w = (None, b', w') \<and> progressing dp free up ids us (hist @ [r']) closed' b' w'"
proof -
  let ?b = "append_record b r pos"
  have "batcher_reach dp (\<lambda>_ _. False) (hist @ [r']) closed ?b w"
    using batcher_reach.append [OF _ refl, of dp _ hist closed b w r pos] assms(1) r' by (simp add: progressing_def)
  moreover obtain h where "record_leaf r' = Inr h" using assms(3) r' by blast
  ultimately have ready: "progressing dp free up (ce_newID env # ids) us (hist @ [r']) closed ?b w"
    using assms(1) r' by (auto simp: progressing_def append_record_def)
  then have "progressing dp free up ids us (hist @ [r']) closed ?b w" using progressing_drop [of dp "[ce_newID env]" ids "[]"] by simp
  with close_progress [OF ready assms(2,4)] show ?thesis by (auto simp: AddRecord_def Let_def simp del: append_record_simps)
qed

end

section \<open>Processing transactions\<close>

definition tx_ids :: "(nat \<Rightarrow> 'r change_env) \<Rightarrow> Transaction \<Rightarrow> string list" where
  "tx_ids envs tx = concat (map (\<lambda>(i, ch). change_ids (envs i)) (enumerate 0 (Tx_Changes tx)))"

text \<open>The identifiers the records of a stream draw.\<close>

definition tx_uuids :: "(nat \<Rightarrow> 'r change_env) \<Rightarrow> Transaction \<Rightarrow> string list" where
  "tx_uuids envs tx = map (\<lambda>(i, ch). se_uuid (chg_snapshot (envs i))) (enumerate 0 (Tx_Changes tx))"

definition stream_uuids :: "((nat \<Rightarrow> 'r change_env) \<times> Transaction) list \<Rightarrow> string list" where
  "stream_uuids received = concat (map (\<lambda>(envs, tx). tx_uuids envs tx) received)"

definition tx_good :: "'r encryptor option \<Rightarrow> (nat \<Rightarrow> 'r change_env) \<Rightarrow> Transaction \<Rightarrow> bool" where
  "tx_good enc envs tx \<longleftrightarrow> list_all (\<lambda>(i, ch). change_good enc (envs i) ch) (enumerate 0 (Tx_Changes tx))"

text \<open>The identifiers a stream draws for its batches, in order.\<close>

definition stream_ids :: "((nat \<Rightarrow> 'r change_env) \<times> Transaction) list \<Rightarrow> string list" where
  "stream_ids received = concat (map (\<lambda>(envs, tx). tx_ids envs tx) received)"

context progress_system
begin

lemma change_progress:
  assumes "progressing dp free up (change_ids env @ ids) (se_uuid (chg_snapshot env) # us) hist closed (PS_batcher st) (PS_world st)"
    "change_good enc env ch" "works dp"
  shows "\<exists>st' r closed'. process_change enc dp env tx ch st = (None, st') \<and> PS_config st' = PS_config st
    \<and> records_change (PS_config st) tx r ch \<and> progressing dp free up ids us (hist @ [r]) closed' (PS_batcher st') (PS_world st')"
proof -
  let ?attr = "CorrelateTransaction (PS_config st) tx (RC_Table ch)"
  obtain r where r: "BuildRecord enc (chg_snapshot env) ch (fst (GetTableConfig (PS_config st) (RC_Table ch))) ?attr
        (Tx_TransactionID tx) (Tx_CommittedAt tx) (CurrentEventCount (PS_batcher st)) = Inr r"
      "\<forall>bid n. \<exists>h. record_leaf (r\<lparr>R_BatchID := bid, R_MerkleLeafIndex := n\<rparr>) = Inr h"
    using BuildRecord_total [of enc "chg_snapshot env" ch] assms(2) by (fastforce simp: change_good_def split: option.splits)
  let ?w = "raise_unattributed (dp_http dp) (chg_trigger env) ?attr (RC_Table ch) (R_ID r) (Tx_TransactionID tx) (PS_world st)"
  obtain b0 w0 where t: "run_ticks dp (chg_ticks env) (PS_batcher st, ?w) = (b0, w0)" by fastforce
  have "W_archive ?w = W_archive (PS_world st)" "W_store ?w = W_store (PS_world st)" by (simp_all add: raise_unattributed_def)
  then have "progressing dp free up (map ce_newID (chg_ticks env) @ (ce_newID (chg_close env) # ids)) (se_uuid (chg_snapshot env) # us)
      hist closed (PS_batcher st) ?w"
    using assms(1) raise_reach [of dp "\<lambda>_ _. False" hist closed "PS_batcher st" "PS_world st"] by (simp add: progressing_def change_ids_def)
  then obtain closed0 where c: "progressing dp free up (ce_newID (chg_close env) # ids) (R_ID r # us) hist closed0 b0 w0"
    using ticks_progress [of dp "chg_ticks env" _ _ hist closed "(PS_batcher st, ?w)"] t assms(2,3) BuildRecord_fields [OF r(1)]
    by (auto simp: change_good_def)
  have g: "close_good (chg_close env)" using assms(2) by (simp add: change_good_def)
  let ?r = "r\<lparr>R_BatchID := BT_currentBatchID b0, R_MerkleLeafIndex := int (length (BT_records b0))\<rparr>"
  obtain b w closed' where "AddRecord dp (chg_close env) r (Tx_Position tx) b0 w0 = (None, b, w)" "progressing dp free up ids us (hist @ [?r]) closed' b w"
    using add_progress [OF c g _ assms(3) refl] r(2) by blast
  moreover have "records_change (PS_config st) tx ?r ch" using BuildRecord_fields [OF r(1)] by (simp add: records_change_def)
  ultimately show ?thesis using r(1) t
    by (intro exI [of _ "st\<lparr>PS_batcher := b, PS_world := w\<rparr>"] exI [of _ ?r] exI [of _ closed']) (simp add: process_change_def Let_def)
qed

lemma changes_progress:
  assumes "progressing dp free up (concat (map (change_ids \<circ> fst) evs) @ ids) (map (se_uuid \<circ> chg_snapshot \<circ> fst) evs @ us) hist closed
      (PS_batcher st) (PS_world st)"
    "list_all (\<lambda>(env, ch). change_good enc env ch) evs" "works dp"
  shows "\<exists>st' recs closed'. process_changes enc dp tx evs st = (None, st') \<and> PS_config st' = PS_config st
    \<and> list_all2 (records_change (PS_config st) tx) recs (filter (audited (PS_config st)) (map snd evs))
    \<and> progressing dp free up ids us (hist @ recs) closed' (PS_batcher st') (PS_world st')"
  using assms
proof (induction evs arbitrary: st hist closed)
  case (Cons ev evs)
  obtain env ch where ev: "ev = (env, ch)" by (cases ev)
  let ?ids = "concat (map (change_ids \<circ> fst) evs) @ ids" and ?us = "map (se_uuid \<circ> chg_snapshot \<circ> fst) evs @ us"
  have c: "progressing dp free up (change_ids env @ ?ids) (se_uuid (chg_snapshot env) # ?us) hist closed (PS_batcher st) (PS_world st)"
    using Cons.prems(1) ev by (simp add: comp_def)
  show ?case
  proof (cases "audited (PS_config st) ch")
    case True
    have "change_good enc env ch" using Cons.prems(2) ev by simp
    with change_progress [OF c _ assms(3)] obtain st1 r closed1 where s1: "process_change enc dp env tx ch st = (None, st1)"
      "PS_config st1 = PS_config st" "records_change (PS_config st) tx r ch"
      "progressing dp free up ?ids ?us (hist @ [r]) closed1 (PS_batcher st1) (PS_world st1)" by blast
    from Cons.IH [OF s1(4)] Cons.prems(2,3) ev obtain st' recs closed' where "process_changes enc dp tx evs st1 = (None, st')"
      "PS_config st' = PS_config st1" "list_all2 (records_change (PS_config st1) tx) recs (filter (audited (PS_config st1)) (map snd evs))"
      "progressing dp free up ids us ((hist @ [r]) @ recs) closed' (PS_batcher st') (PS_world st')" by auto
    with s1 ev True show ?thesis by (intro exI [of _ st'] exI [of _ "r # recs"] exI [of _ closed']) simp
  next
    case False
    have "progressing dp free up ?ids ?us hist closed (PS_batcher st) (PS_world st)"
      using progressing_drop [of dp _ ?ids "[se_uuid (chg_snapshot env)]" ?us] c by simp
    from Cons.IH [OF this] Cons.prems(2,3) ev False show ?thesis by simp
  qed
qed auto

lemma transaction_progress:
  assumes "progressing dp free up (tx_ids envs tx @ ids) (tx_uuids envs tx @ us) hist closed (PS_batcher st) (PS_world st)"
    "tx_good enc envs tx" "works dp" "m = apply_config_changes (Tx_Changes tx) (PS_config st)"
  shows "\<exists>st' recs closed'. ProcessTransaction enc dp envs tx st = (None, st') \<and> PS_config st' = m
    \<and> list_all2 (records_change m tx) recs (filter (audited m) (Tx_Changes tx))
    \<and> progressing dp free up ids us (hist @ recs) closed' (PS_batcher st') (PS_world st')"
proof -
  define evs where "evs = map (\<lambda>(i, ch). (envs i, ch)) (enumerate 0 (Tx_Changes tx))"
  have "concat (map (change_ids \<circ> fst) evs) = tx_ids envs tx" "map (se_uuid \<circ> chg_snapshot \<circ> fst) evs = tx_uuids envs tx"
    by (simp_all add: evs_def tx_ids_def tx_uuids_def comp_def case_prod_unfold)
  moreover have "map snd evs = Tx_Changes tx"
    using map_snd_enumerate [of 0 "Tx_Changes tx"] by (simp add: evs_def comp_def case_prod_unfold)
  moreover have "list_all (\<lambda>(env, ch). change_good enc env ch) evs"
    using assms(2) by (simp add: evs_def tx_good_def list_all_iff case_prod_unfold)
  ultimately show ?thesis using changes_progress [of dp evs ids us hist closed "st\<lparr>PS_config := m\<rparr>" enc tx] assms(1,3,4)
    by (simp add: ProcessTransaction_def evs_def [symmetric])
qed

lemma stream_progress:
  assumes "progressing dp free up (stream_ids received @ ids) (stream_uuids received @ us) hist closed (PS_batcher st) (PS_world st)"
    "list_all (\<lambda>(envs, tx). tx_good enc envs tx) received" "works dp"
  shows "stream_ok enc dp received st \<and> (\<exists>recs closed'.
    list_all2 (\<lambda>r (m, tx, ch). records_change m tx r ch) recs (audited_stream (PS_config st) (map snd received))
    \<and> progressing dp free up ids us (hist @ recs) closed' (PS_batcher (run_stream enc dp received st)) (PS_world (run_stream enc dp received st)))"
  using assms
proof (induction received arbitrary: st hist closed)
  case (Cons ev received)
  obtain envs tx where ev: "ev = (envs, tx)" by (cases ev)
  let ?m = "apply_config_changes (Tx_Changes tx) (PS_config st)"
  have "progressing dp free up (tx_ids envs tx @ (stream_ids received @ ids)) (tx_uuids envs tx @ (stream_uuids received @ us)) hist closed
      (PS_batcher st) (PS_world st)" "tx_good enc envs tx"
    using Cons.prems ev by (simp_all add: stream_ids_def stream_uuids_def)
  from transaction_progress [OF this assms(3) refl] obtain st' recs closed' where
    t: "ProcessTransaction enc dp envs tx st = (None, st')" "PS_config st' = ?m"
      "list_all2 (records_change ?m tx) recs (filter (audited ?m) (Tx_Changes tx))"
      "progressing dp free up (stream_ids received @ ids) (stream_uuids received @ us) (hist @ recs) closed' (PS_batcher st') (PS_world st')" by blast
  from Cons.IH [OF t(4)] Cons.prems(2,3) obtain recs' closed'' where
    "stream_ok enc dp received st'" "list_all2 (\<lambda>r (m, tx, ch). records_change m tx r ch) recs' (audited_stream ?m (map snd received))"
    "progressing dp free up ids us ((hist @ recs) @ recs') closed'' (PS_batcher (run_stream enc dp received st')) (PS_world (run_stream enc dp received st'))"
    unfolding t(2) by auto
  moreover have "list_all2 (\<lambda>r (m, tx, ch). records_change m tx r ch) recs (map (\<lambda>ch. (?m, tx, ch)) (filter (audited ?m) (Tx_Changes tx)))"
    using t(3) by (simp add: list_all2_map2)
  ultimately show ?case using ev t(1)
    by (auto simp: Let_def intro!: exI [of _ "recs @ recs'"] exI [of _ closed''] list_all2_appendI)
qed (auto simp: stream_ids_def stream_uuids_def intro!: exI [of _ "[] :: Record list"])

lemma Run_progress:
  assumes "progressing dp free up (stream_ids received @ map ce_newID ticks @ [ce_newID env]) (stream_uuids received) hist closed
      (PS_batcher st) (PS_world st)"
    "list_all (\<lambda>(envs, tx). tx_good enc envs tx) received" "list_all close_good (ticks @ [env])" "works dp"
  shows "stream_ok enc dp received st \<and> (\<exists>st' recs closed'. Run enc dp (Inr received) ticks env st = (None, st')
    \<and> BT_records (PS_batcher st') = []
    \<and> list_all2 (\<lambda>r (m, tx, ch). records_change m tx r ch) recs (audited_stream (PS_config st) (map snd received))
    \<and> progressing dp free up [] [] (hist @ recs) closed' (PS_batcher st') (PS_world st'))"
proof -
  let ?st = "run_stream enc dp received st"
  obtain b w where t: "run_ticks dp ticks (PS_batcher ?st, PS_world ?st) = (b, w)" by fastforce
  obtain recs closed1 where s: "stream_ok enc dp received st"
      "list_all2 (\<lambda>r (m, tx, ch). records_change m tx r ch) recs (audited_stream (PS_config st) (map snd received))"
      "progressing dp free up (map ce_newID ticks @ [ce_newID env]) [] (hist @ recs) closed1 (PS_batcher ?st) (PS_world ?st)"
    using stream_progress [of dp received "map ce_newID ticks @ [ce_newID env]" "[]" hist closed st enc] assms by auto
  then obtain closed2 where "progressing dp free up [ce_newID env] [] (hist @ recs) closed2 b w"
    using ticks_progress [of dp ticks "[ce_newID env]" "[]" _ closed1 "(PS_batcher ?st, PS_world ?st)"] t assms(3,4) by auto
  from close_progress [OF progressing_timer [OF this] _ assms(4)] assms(3) obtain b' w' closed' where
    "CloseCurrentBatch dp env (b\<lparr>BT_timer := None\<rparr>) w = (None, b', w')" "progressing dp free up [] [] (hist @ recs) closed' b' w'" "BT_records b' = []"
    by auto
  with s t show ?thesis
    by (intro conjI exI [of _ "?st\<lparr>PS_batcher := b', PS_world := w'\<rparr>"] exI [of _ recs] exI [of _ closed']) (simp_all add: Run_def Close_def Let_def)
qed

end

section \<open>A store and an archive that work\<close>

interpretation mp: store_progress memory_store "\<lambda>_. True"
  by unfold_locales (simp add: memory_store_def ms_CreateBatch_def)

text \<open>
  The directory is in place, no system call will fail, the name of the temporary file is not taken,
  and no object exists for the identifiers.
\<close>

definition archive_free :: "LocalDirArchiveStore \<Rightarrow> string set \<Rightarrow> bool" where
  "archive_free a I \<longleftrightarrow> LD_plan a = [] \<and> object_path (LD_baseDir a) [''checkpoints''] \<in> set (LD_dirs a)
     \<and> \<not> exists_at a (object_path (LD_baseDir a) [''checkpoints'', ''worm-tmp-0''])
     \<and> (\<forall>i \<in> I. safe_id i \<and> \<not> exists_at a (object_path (LD_baseDir a) [''checkpoints'', i @ ''.json'']))"

lemma put_free:
  assumes "archive_free a I" "i \<in> I"
  shows "\<exists>a'. PutCheckpoint a i d = (None, a') \<and> archive_free a' (I - {i})"
proof -
  let ?obj = "\<lambda>n. object_path (LD_baseDir a) [''checkpoints'', n]"
  have safe: "safe_id i" using assms by (simp add: archive_free_def)
  have "plain ''checkpoints''" "plain (i @ ''.json'')" using safe by (auto simp: plain_def safe_id_def append_eq_Cons_conv)
  then have target: "filepath_Join [LD_baseDir a, checkpoint_key i] = ?obj (i @ ''.json'')"
    using join_base [of "[''checkpoints'', i @ ''.json'']" "LD_baseDir a"] by (simp add: checkpoint_key_def)
  have temp: "temp_path (object_path (LD_baseDir a) [''checkpoints'']) ''0'' = ?obj ''worm-tmp-0''"
    by (simp add: temp_path_def object_path_def)
  have neq: "x @ ''.json'' \<noteq> ''worm-tmp-0''" for x
  proof
    assume "x @ ''.json'' = ''worm-tmp-0''"
    then have "last (x @ ''.json'') = last ''worm-tmp-0''" by (rule arg_cong)
    then show False by simp
  qed
  have "PutCheckpoint a i d = write_with (io_ok ''0'') (checkpoint_key i) d a"
    using put_safe(1) [OF safe] assms(1) by (simp add: writeImmutable_def archive_free_def)
  moreover have "\<exists>a'. write_with (io_ok ''0'') (checkpoint_key i) d a = (None, a') \<and> archive_free a' (I - {i})"
    using assms neq unfolding write_with_def Let_def target archive_free_def
    by (auto simp: io_ok_def temp fs_simps filepath_Dir_object)
  ultimately show ?thesis by simp
qed

interpretation lp: archive_progress local_dir_archive archive_free
proof unfold_locales
  fix a I i d assume "archive_free a I" "i \<in> I"
  then show "\<exists>a'. ar_PutCheckpoint local_dir_archive a i d = (None, a') \<and> archive_free a' (I - {i})"
    using put_free by (simp add: local_dir_archive_def)
qed (auto simp: archive_free_def)

definition deps_work :: "(MemoryStore, LocalDirArchiveStore) Deps \<Rightarrow> bool" where
  "deps_work dp \<longleftrightarrow> dp_store dp = memory_store \<and> dp_archive dp = local_dir_archive \<and> (\<forall>d. \<exists>sig v. dp_sign dp d = Inr (sig, v))"

interpretation memory_progress: progress_system memory_store "\<lambda>_. True" local_dir_archive archive_free deps_work
  by unfold_locales (auto simp: deps_work_def)

lemma NewBatcher_started: "BT_startedAt (NewBatcher cfg u t0 t1) = t0"
  by (simp add: NewBatcher_def resetTimer_def Let_def)

text \<open>
  C9: The pipeline makes progress. With the in-memory store, which no other process works on, a directory
  archive whose system calls succeed and a key manager in good order, for a new batcher, fresh and
  distinct identifiers of batches and records, and rows JSON can express: \<open>ProcessTransaction\<close> returns
  nil for every transaction of a stream, \<open>Run\<close> returns nil, and the buffer is empty. All that was
  recorded is in sealed batches, which hold in order one record for every audited change of the
  stream; and the store, as \<open>Run\<close> leaves it, has each of these batches and returns each of their
  records under its identifier.
\<close>

theorem Run_live:
  assumes "dp = \<lparr>dp_store = memory_store, dp_archive = local_dir_archive, dp_sign = Sign c m, dp_http = h\<rparr>" "km_good c m"
    and "PS_batcher st = NewBatcher cfg u t0 t1" "year_ok t0"
    and "ids = u # stream_ids received @ map ce_newID ticks @ [ce_newID env]"
    and "distinct ids" "archive_free (W_archive (PS_world st)) (set ids)" "distinct (stream_uuids received)"
    and "list_all (\<lambda>(envs, tx). tx_good enc envs tx) received" "list_all close_good (ticks @ [env])"
  shows "stream_ok enc dp received st
    \<and> (\<exists>st' closed. Run enc dp (Inr received) ticks env st = (None, st') \<and> BT_records (PS_batcher st') = []
         \<and> list_all2 (\<lambda>r (m, tx, ch). records_change m tx r ch) (concat (map snd closed))
             (audited_stream (PS_config st) (map snd received))
         \<and> list_all (sealed dp) closed
         \<and> list_all (\<lambda>(bt, rs). ms_GetBatch (W_store (PS_world st')) (B_ID bt) = Inr bt
             \<and> list_all (\<lambda>r. ms_GetRecord (W_store (PS_world st')) (R_ID r) = Inr r) rs) closed)"
proof -
  have d: "deps_work dp" using assms(1,2) lkm.sign_total by (simp add: deps_work_def)
  have l: "progressing dp archive_free (\<lambda>_. True) (stream_ids received @ map ce_newID ticks @ [ce_newID env]) (stream_uuids received) [] []
      (PS_batcher st) (PS_world st)"
    using assms(3-8) batcher_reach.start [of dp _ cfg u t0 t1] by (simp add: progressing_def NewBatcher_started)
  from memory_progress.Run_progress [OF l assms(9,10) d] obtain st' recs closed where r: "stream_ok enc dp received st" "Run enc dp (Inr received) ticks env st = (None, st')"
      "BT_records (PS_batcher st') = []"
      "list_all2 (\<lambda>r (m, tx, ch). records_change m tx r ch) recs (audited_stream (PS_config st) (map snd received))"
      "progressing dp archive_free (\<lambda>_. True) [] [] recs closed (PS_batcher st') (PS_world st')"
    by auto
  have reach: "batcher_reach dp (\<lambda>_ _. False) recs closed (PS_batcher st') (PS_world st')" using r(5) by (simp add: progressing_def)
  then have "recs = concat (map snd closed)" "list_all (sealed dp) closed" using batcher_reach_inv [OF reach] r(3) by simp_all
  moreover have "list_all (ms_holds (W_store (PS_world st'))) closed"
    using ms_durable.reach_holds [OF reach] r(5) assms(1) by (simp add: progressing_def)
  then have "list_all (\<lambda>(bt, rs). ms_GetBatch (W_store (PS_world st')) (B_ID bt) = Inr bt
      \<and> list_all (\<lambda>r. ms_GetRecord (W_store (PS_world st')) (R_ID r) = Inr r) rs) closed"
    by (simp add: ms_holds_def list_all_iff case_prod_unfold)
  ultimately show ?thesis using r by blast
qed

text \<open>The sample stream, with a timer that goes off before the second change and fresh identifiers.\<close>

definition live_env :: "nat \<Rightarrow> bytes result change_env" where
  "live_env i = sample_chg_env
     \<lparr>chg_ticks := (if i = 1 then [sample_close_env\<lparr>ce_newID := ''b3''\<rparr>] else []),
      chg_close := sample_close_env\<lparr>ce_newID := (if i = 0 then ''b2'' else ''b4'')\<rparr>,
      chg_snapshot := sample_snapshot_env\<lparr>se_uuid := (if i = 0 then ''r0'' else ''r1'')\<rparr>\<rparr>"

lemma live_sample:
  "tx_good None live_env sample_tx" "stream_ids [(live_env, sample_tx)] = [''b2'', ''b3'', ''b4'']"
  "archive_free (empty_archive []) {''b1'', ''b2'', ''b3'', ''b4'', ''b9''}"
proof -
  have "row_good (sample_row ''accounts'')" "row_good [(''id'', GInt KInt64 7), (''rate'', GFloat (Some ''1.5''))]"
    by (simp_all add: row_good_def row_ok_def sample_row_def max_nesting_def num_start_def is_digit_def)
  then show "tx_good None live_env sample_tx"
    by (simp add: tx_good_def sample_tx_def change_good_def sample_change_def sample_insert_def live_env_def sample_chg_env_def
        encrypts_def close_good_def sample_close_env_def)
  show "stream_ids [(live_env, sample_tx)] = [''b2'', ''b3'', ''b4'']"
    by (simp add: stream_ids_def tx_ids_def change_ids_def sample_tx_def live_env_def sample_chg_env_def sample_close_env_def)
  show "archive_free (empty_archive []) {''b1'', ''b2'', ''b3'', ''b4'', ''b9''}"
    by (simp add: archive_free_def archive_eval object_path_def base_path_def safe_id_def)
qed

lemma live_uuids: "distinct (stream_uuids [(live_env, sample_tx)])"
  by (simp add: stream_uuids_def tx_uuids_def sample_tx_def live_env_def)

theorem Run_live_witness:
  "\<exists>st' r. Run None sample_deps (Inr [(live_env, sample_tx)]) [] (sample_close_env\<lparr>ce_newID := ''b9''\<rparr>) sample_pstate = (None, st')
     \<and> R_TableName r = ''accounts'' \<and> ms_GetRecord (W_store (PS_world st')) (R_ID r) = Inr r"
proof -
  have st: "PS_batcher sample_pstate = NewBatcher \<lparr>Cfg_MaxInterval = 0, Cfg_MaxEvents = 2\<rparr> ''b1'' 0 0"
    "W_archive (PS_world sample_pstate) = empty_archive []" by (simp_all add: sample_pstate_def sample_world_def)
  have ids: "[''b1'', ''b2'', ''b3'', ''b4'', ''b9''] = ''b1'' # stream_ids [(live_env, sample_tx)] @ map ce_newID []
      @ [ce_newID (sample_close_env\<lparr>ce_newID := ''b9''\<rparr>)]" by (simp add: live_sample(2))
  have "stream_ok None sample_deps [(live_env, sample_tx)] sample_pstate
    \<and> (\<exists>st' closed. Run None sample_deps (Inr [(live_env, sample_tx)]) [] (sample_close_env\<lparr>ce_newID := ''b9''\<rparr>) sample_pstate = (None, st')
         \<and> BT_records (PS_batcher st') = []
         \<and> list_all2 (\<lambda>r (m, tx, ch). records_change m tx r ch) (concat (map snd closed))
             (audited_stream (PS_config sample_pstate) (map snd [(live_env, sample_tx)]))
         \<and> list_all (sealed sample_deps) closed
         \<and> list_all (\<lambda>(bt, rs). ms_GetBatch (W_store (PS_world st')) (B_ID bt) = Inr bt
             \<and> list_all (\<lambda>r. ms_GetRecord (W_store (PS_world st')) (R_ID r) = Inr r) rs) closed)"
    by (rule Run_live [OF sample_deps_def toy_good(1) st(1) year_ok_0 ids])
      (use live_sample(1,3) live_uuids in \<open>simp_all add: st(2) close_good_def sample_close_env_def\<close>)
  then obtain st' closed where r: "Run None sample_deps (Inr [(live_env, sample_tx)]) [] (sample_close_env\<lparr>ce_newID := ''b9''\<rparr>) sample_pstate = (None, st')"
      "list_all (\<lambda>(bt, rs). ms_GetBatch (W_store (PS_world st')) (B_ID bt) = Inr bt
         \<and> list_all (\<lambda>r. ms_GetRecord (W_store (PS_world st')) (R_ID r) = Inr r) rs) closed"
      "list_all2 (\<lambda>r (m, tx, ch). records_change m tx r ch) (concat (map snd closed))
        [(apply_config_changes (Tx_Changes sample_tx) NewManager, sample_tx, sample_insert)]"
    by (auto simp: sample_audited Let_def)
  from r(3) obtain r where one: "concat (map snd closed) = [r]" "R_TableName r = ''accounts''"
    by (auto simp: list_all2_Cons2 records_change_def sample_insert_def)
  obtain bt where bt: "(bt, [r]) \<in> set closed" using concat_singleton_mem [OF one(1)] by blast
  have "ms_GetRecord (W_store (PS_world st')) (R_ID r) = Inr r"
    using bspec [OF r(2) [unfolded list.pred_set] bt] by simp
  with r(1) one(2) show ?thesis by blast
qed

end
