(* ===== verification/Bootstrap.thy ===== *)
theory Bootstrap
  imports Pipeline
begin

text \<open>
  The bootstrap runner, \<open>internal/bootstrap/bootstrap.go\<close>: a snapshot of the rows a table already
  has when it is registered, recorded through the snapshot builder and the batcher.

  What MySQL answers is an argument of the model. The lemmas follow the rows into the batcher.
\<close>

section \<open>Model\<close>

text \<open>
  What the database does for one run: the outcome of each statement, and what iterating over the
  rows delivers. \<open>rows.Next\<close> returns false after the last row and also when the connection
  breaks; the code does not call \<open>rows.Err\<close>, so in both cases the list of rows just ends.
\<close>

record boot_db =
  bd_inProgress :: "go_error option"
  bd_begin :: "go_error option"
  bd_query :: "go_error option"
  bd_columns :: "string list result"
  bd_rows :: "gval list result list"
  bd_complete :: "go_error option"

text \<open>
  What one row draws, and what the rest of the run draws; in both, the batcher's timer may go off
  before the batcher is called.
\<close>

record 'r boot_row_env =
  br_snapshot :: "'r snapshot_env"
  br_now :: time
  br_ticks :: "close_env list"
  br_close :: close_env

record 'r boot_env =
  bn_row :: "nat \<Rightarrow> 'r boot_row_env"
  bn_ticks :: "close_env list"
  bn_flush :: close_env
  bn_report :: trigger_env

text \<open>The pipeline's state, with the column \<open>bootstrap_status\<close> of \<open>_audit_config\<close>.\<close>

record ('s, 'a) RState = "('s, 'a) PState" +
  RS_status :: "(string, string) gomap"

definition updateBootstrapStatus ::
  "go_error option \<Rightarrow> string \<Rightarrow> string \<Rightarrow> ('s, 'a) RState \<Rightarrow> go_error option \<times> ('s, 'a) RState" where
  "updateBootstrapStatus outcome tableName status st =
     (case outcome of
        Some err \<Rightarrow> (Some err, st)
      | None \<Rightarrow> (None, st\<lparr>RS_status := map (\<lambda>(t, s). (t, if t = tableName then status else s)) (RS_status st)\<rparr>))"

definition boot_reportFailure ::
  "http_api \<Rightarrow> trigger_env \<Rightarrow> string \<Rightarrow> go_error \<Rightarrow> ('s, 'a) RState \<Rightarrow> ('s, 'a) RState" where
  "boot_reportFailure h env tableName err st =
     st\<lparr>PS_world := (PS_world st)\<lparr>W_dispatcher := map_option (\<lambda>d. snd (Trigger h d env
         \<lparr>ta_trigger = ''bootstrap_run_failure'', ta_severity = ''normal'', ta_tableName = tableName,
          ta_recordID = [], ta_txID = [],
          ta_message = ''Bootstrap snapshot failed for table '' @ tableName @ '': '' @ error_text err\<rparr>))
       (W_dispatcher (PS_world st))\<rparr>\<rparr>"

text \<open>A scanned row as a map: text comes as bytes and is turned into a string.\<close>

fun cell :: "gval \<Rightarrow> gval" where
  "cell (GBytes b) = GString (string_of b)"
| "cell v = v"

definition afterMap :: "string list \<Rightarrow> gval list \<Rightarrow> row" where
  "afterMap cols columns = fold (\<lambda>(c, v). AList.update c (cell v)) (zip cols columns) []"

definition boot_change :: "string \<Rightarrow> row \<Rightarrow> RowChange" where
  "boot_change tableName row =
     \<lparr>RC_Schema = [], RC_Table = tableName, RC_Action = EventTypeInsert, RC_BeforeImage = None, RC_AfterImage = Some row\<rparr>"

definition boot_position :: Position where
  "boot_position = \<lparr>Pos_File = ''bootstrap'', Pos_Position = 0, Pos_GTID = []\<rparr>"

definition system_attribution :: ActorAttribution where
  "system_attribution = blank_attribution\<lparr>AA_ActorType := ''SYSTEM''\<rparr>"

text \<open>The loop over the rows.\<close>

fun boot_rows ::
  "'r encryptor option \<Rightarrow> ('s, 'a) Deps \<Rightarrow> 'r boot_env \<Rightarrow> string \<Rightarrow> TableConfig \<Rightarrow> string list
     \<Rightarrow> nat \<Rightarrow> gval list result list \<Rightarrow> ('s, 'a) RState \<Rightarrow> go_error option \<times> ('s, 'a) RState" where
  "boot_rows encryptor dp env tableName tableCfg cols rowCount [] st = (None, st)"
| "boot_rows encryptor dp env tableName tableCfg cols rowCount (scan # rest) st =
     (case scan of
        Inl err \<Rightarrow> (Some (Wrapf ''failed to scan bootstrap row'' err),
                     boot_reportFailure (dp_http dp) (bn_report env) tableName err st)
      | Inr columns \<Rightarrow>
          (let draw = bn_row env rowCount in
           case BuildRecord encryptor (br_snapshot draw) (boot_change tableName (afterMap cols columns)) tableCfg
                  system_attribution (''bootstrap:'' @ tableName) (br_now draw) (int rowCount) of
             Inl err \<Rightarrow> (Some (Wrapf ''failed to build bootstrap record'' err),
                          boot_reportFailure (dp_http dp) (bn_report env) tableName err st)
           | Inr rec \<Rightarrow>
               (case run_ticks dp (br_ticks draw) (PS_batcher st, PS_world st) of (b, w) \<Rightarrow>
                case AddRecord dp (br_close draw) rec boot_position b w of
                  (Some err, b, w) \<Rightarrow> (Some (Wrapf ''failed to add bootstrap record to batcher'' err),
                     boot_reportFailure (dp_http dp) (bn_report env) tableName err (st\<lparr>PS_batcher := b, PS_world := w\<rparr>))
                | (None, b, w) \<Rightarrow>
                    boot_rows encryptor dp env tableName tableCfg cols (rowCount + 1) rest
                      (st\<lparr>PS_batcher := b, PS_world := w\<rparr>))))"

text \<open>Step 2 up to the loop: the consistent read.\<close>

definition boot_read :: "boot_db \<Rightarrow> string \<Rightarrow> (go_error \<times> go_error) + string list" where
  "boot_read db tableName =
     (case bd_begin db of Some err \<Rightarrow> Inl (err, Wrapf ''failed to begin consistent read transaction'' err)
      | None \<Rightarrow>
          (case bd_query db of Some err \<Rightarrow> Inl (err, Wrapf (''failed to query table '' @ tableName @ '' for bootstrap'') err)
           | None \<Rightarrow>
               (case bd_columns db of Inl err \<Rightarrow> Inl (err, Wrapf (''failed to get columns for table '' @ tableName) err)
                | Inr cols \<Rightarrow> Inr cols)))"

text \<open>Steps 3 and 4: flush, mark, and update the configuration in memory.\<close>

definition boot_finish ::
  "('s, 'a) Deps \<Rightarrow> boot_db \<Rightarrow> 'r boot_env \<Rightarrow> string \<Rightarrow> TableConfig \<Rightarrow> ('s, 'a) RState
     \<Rightarrow> go_error option \<times> ('s, 'a) RState" where
  "boot_finish dp db env tableName tableCfg st =
     (case run_ticks dp (bn_ticks env) (PS_batcher st, PS_world st) of (b, w) \<Rightarrow>
      case Flush dp (bn_flush env) b w of
        (Some err, b, w) \<Rightarrow> (Some (Wrapf ''failed to flush bootstrap batch'' err),
           boot_reportFailure (dp_http dp) (bn_report env) tableName err (st\<lparr>PS_batcher := b, PS_world := w\<rparr>))
      | (None, b, w) \<Rightarrow>
          (case updateBootstrapStatus (bd_complete db) tableName ''complete'' (st\<lparr>PS_batcher := b, PS_world := w\<rparr>) of
             (Some err, st) \<Rightarrow> (Some (Wrapf ''failed to update bootstrap status to complete'' err), st)
           | (None, st) \<Rightarrow>
               (None, st\<lparr>PS_config := SetTableConfig (PS_config st) (tableCfg\<lparr>TC_BootstrapStatus := ''complete''\<rparr>)\<rparr>)))"

definition BootstrapTable ::
  "'r encryptor option \<Rightarrow> ('s, 'a) Deps \<Rightarrow> boot_db \<Rightarrow> 'r boot_env \<Rightarrow> string \<Rightarrow> ('s, 'a) RState
     \<Rightarrow> go_error option \<times> ('s, 'a) RState" where
  "BootstrapTable encryptor dp db env tableName st =
     (case GetTableConfig (PS_config st) tableName of (tableCfg, exists) \<Rightarrow>
      if \<not> exists then (Some (NewErr (''table '' @ tableName @ '' not registered in audit config'')), st)
      else case updateBootstrapStatus (bd_inProgress db) tableName ''in_progress'' st of
        (Some err, st) \<Rightarrow> (Some (Wrapf ''failed to update bootstrap status to in_progress'' err), st)
      | (None, st) \<Rightarrow>
          (case boot_read db tableName of
             Inl (err, wrapped) \<Rightarrow> (Some wrapped, boot_reportFailure (dp_http dp) (bn_report env) tableName err st)
           | Inr cols \<Rightarrow>
               (case boot_rows encryptor dp env tableName tableCfg cols 0 (bd_rows db)
                       (st\<lparr>PS_batcher := SetBootstrapMode True tableName (PS_batcher st)\<rparr>) of
                  (Some err, st) \<Rightarrow> (Some err, st)
                | (None, st) \<Rightarrow> boot_finish dp db env tableName tableCfg st)))"

section \<open>Rows on their way into the batcher\<close>

text \<open>The record of a row: an insert by the system, in the bootstrap transaction, of the row as read.\<close>

definition boot_record :: "'r encryptor option \<Rightarrow> string \<Rightarrow> TableConfig \<Rightarrow> string list \<Rightarrow> Record \<Rightarrow> gval list \<Rightarrow> bool" where
  "boot_record enc tableName cfg cols r columns \<longleftrightarrow>
     R_TableName r = tableName \<and> R_EventType r = EventTypeInsert \<and> R_BeforeImage r = []
     \<and> R_ActorUserID r = None \<and> R_ActorType r = ''SYSTEM'' \<and> R_TransactionID r = ''bootstrap:'' @ tableName
     \<and> (\<exists>rnd. image_text ''after'' enc True (Some (afterMap cols columns)) (TC_EncryptedColumns cfg) rnd = Inr (R_AfterImage r))"

lemma image_text_None: "image_text which enc wanted None cols rnd = Inr []"
  by (simp add: image_text_def)

lemma BuildRecord_boot:
  "BuildRecord enc env (boot_change tableName (afterMap cols columns)) cfg system_attribution txID t i = Inr r \<Longrightarrow>
     txID = ''bootstrap:'' @ tableName \<Longrightarrow> boot_record enc tableName cfg cols (r\<lparr>R_BatchID := b, R_MerkleLeafIndex := n\<rparr>) columns"
  by (auto simp: BuildRecord_def boot_record_def boot_change_def system_attribution_def blank_attribution_def
      EventTypeInsert_def EventTypeUpdate_def EventTypeDelete_def image_text_None)

lemma boot_rows_reach:
  assumes "batcher_reach dp R hist closed (PS_batcher st) (PS_world st)"
    "boot_rows enc dp env tableName cfg cols n rows st = (None, st')"
  shows "\<exists>vals recs closed'. rows = map Inr vals \<and> list_all2 (boot_record enc tableName cfg cols) recs vals
    \<and> batcher_reach dp R (hist @ recs) closed' (PS_batcher st') (PS_world st')
    \<and> PS_config st' = PS_config st \<and> RS_status st' = RS_status st"
  using assms
proof (induction rows arbitrary: hist closed st n)
  case Nil
  then show ?case by (auto intro!: exI [of _ "[] :: Record list"] exI [of _ closed])
next
  case (Cons scan rows)
  let ?draw = "bn_row env n"
  obtain columns where scan: "scan = Inr columns" using Cons.prems(2) by (cases scan) auto
  obtain r where r: "BuildRecord enc (br_snapshot ?draw) (boot_change tableName (afterMap cols columns)) cfg
      system_attribution (''bootstrap:'' @ tableName) (br_now ?draw) (int n) = Inr r"
    using Cons.prems(2) scan by (auto simp: Let_def split: sum.splits)
  obtain b0 w0 where ticks: "run_ticks dp (br_ticks ?draw) (PS_batcher st, PS_world st) = (b0, w0)" by fastforce
  obtain closed0 where reach: "batcher_reach dp R hist closed0 b0 w0"
    using run_ticks_reach [of dp R hist closed "(PS_batcher st, PS_world st)" "br_ticks ?draw"] Cons.prems(1) ticks by auto
  obtain e b w where add: "AddRecord dp (br_close ?draw) r boot_position b0 w0 = (e, b, w)"
    using prod_cases3 by blast
  let ?st = "st\<lparr>PS_batcher := b, PS_world := w\<rparr>"
  let ?r = "r\<lparr>R_BatchID := BT_currentBatchID b0, R_MerkleLeafIndex := int (length (BT_records b0))\<rparr>"
  have rest: "boot_rows enc dp env tableName cfg cols (n + 1) rows ?st = (None, st')"
    using Cons.prems(2) scan r ticks add by (auto simp: Let_def split: option.splits)
  obtain closed1 where "batcher_reach dp R (hist @ [?r]) closed1 (PS_batcher ?st) (PS_world ?st)"
    using AddRecord_reach [OF reach add] by auto
  from Cons.IH [OF this rest] obtain vals recs closed' where
    "rows = map Inr vals" "list_all2 (boot_record enc tableName cfg cols) recs vals"
    "batcher_reach dp R ((hist @ [?r]) @ recs) closed' (PS_batcher st') (PS_world st')"
    "PS_config st' = PS_config st" "RS_status st' = RS_status st" by auto
  with scan BuildRecord_boot [OF r refl] show ?case
    by (intro exI [of _ "columns # vals"] exI [of _ "?r # recs"] exI [of _ closed']) simp
qed

text \<open>
  C29: A bootstrap that returns nil recorded every row it was given. Each row that was read, in the
  order read and with the columns of its encryption policy encrypted, became one insert record by
  the system; all of them are in sealed batches and the buffer is empty; and the status of the
  table is \<open>complete\<close> in the database and in memory.
\<close>

theorem BootstrapTable_complete:
  assumes "batcher_reach dp R hist closed (PS_batcher st) (PS_world st)"
    and "BootstrapTable enc dp db env tableName st = (None, st')"
    and "GetTableConfig (PS_config st) tableName = (cfg, found)" "TC_TableName cfg = tableName"
  shows "\<exists>cols vals recs closed'. bd_columns db = Inr cols \<and> bd_rows db = map Inr vals
    \<and> list_all2 (boot_record enc tableName cfg cols) recs vals
    \<and> batcher_reach dp R (hist @ recs) closed' (PS_batcher st') (PS_world st')
    \<and> concat (map snd closed') = hist @ recs \<and> BT_records (PS_batcher st') = []
    \<and> (\<forall>s. (tableName, s) \<in> set (RS_status st') \<longrightarrow> s = ''complete'')
    \<and> GetTableConfig (PS_config st') tableName = (cfg\<lparr>TC_BootstrapStatus := ''complete''\<rparr>, True)"
proof -
  have f: "found" using assms(2,3) by (auto simp: BootstrapTable_def split: if_splits)
  obtain st1 where st1: "updateBootstrapStatus (bd_inProgress db) tableName ''in_progress'' st = (None, st1)"
    using assms(2,3) f by (auto simp: BootstrapTable_def updateBootstrapStatus_def split: option.splits)
  obtain cols where cols: "boot_read db tableName = Inr cols"
    using assms(2,3) f st1 by (auto simp: BootstrapTable_def split: sum.splits)
  let ?st2 = "st1\<lparr>PS_batcher := SetBootstrapMode True tableName (PS_batcher st1)\<rparr>"
  obtain st2 where st2: "boot_rows enc dp env tableName cfg cols 0 (bd_rows db) ?st2 = (None, st2)"
    using assms(2,3) f st1 cols by (auto simp: BootstrapTable_def split: prod.splits option.splits)
  have fin: "boot_finish dp db env tableName cfg st2 = (None, st')"
    using assms(2,3) f st1 cols st2 by (simp add: BootstrapTable_def)
  have "batcher_reach dp R hist closed (PS_batcher ?st2) (PS_world ?st2)"
    using assms(1) st1 batcher_reach.bootstrap by (auto simp: updateBootstrapStatus_def split: option.splits)
  from boot_rows_reach [OF this st2] obtain vals recs closed1 where r: "bd_rows db = map Inr vals"
      "list_all2 (boot_record enc tableName cfg cols) recs vals"
      "batcher_reach dp R (hist @ recs) closed1 (PS_batcher st2) (PS_world st2)" by blast
  obtain b0 w0 where ticks: "run_ticks dp (bn_ticks env) (PS_batcher st2, PS_world st2) = (b0, w0)" by fastforce
  obtain closed2 where reach: "batcher_reach dp R (hist @ recs) closed2 b0 w0"
    using run_ticks_reach [of dp R "hist @ recs" closed1 "(PS_batcher st2, PS_world st2)" "bn_ticks env"] r(3) ticks by auto
  obtain b w where fl: "CloseCurrentBatch dp (bn_flush env) b0 w0 = (None, b, w)"
    using fin ticks by (auto simp: boot_finish_def Flush_def split: prod.splits option.splits)
  then have st': "PS_batcher st' = b" "PS_world st' = w"
      "RS_status st' = map (\<lambda>(t, s). (t, if t = tableName then ''complete'' else s)) (RS_status st2)"
      "PS_config st' = SetTableConfig (PS_config st2) (cfg\<lparr>TC_BootstrapStatus := ''complete''\<rparr>)"
    using fin ticks by (auto simp: boot_finish_def Flush_def updateBootstrapStatus_def split: option.splits)
  obtain closed' where c: "batcher_reach dp R (hist @ recs) closed' b w" "BT_records b = []"
    using CloseCurrentBatch_reach [OF reach fl] by blast
  have "concat (map snd closed') = hist @ recs" using batcher_reach_inv [OF c(1)] c(2) by simp
  moreover have "\<forall>s. (tableName, s) \<in> set (RS_status st') \<longrightarrow> s = ''complete''" by (auto simp: st')
  moreover have "GetTableConfig (PS_config st') tableName = (cfg\<lparr>TC_BootstrapStatus := ''complete''\<rparr>, True)"
    using assms(4) by (simp add: st' GetTableConfig_def SetTableConfig_def update_conv')
  moreover have "bd_columns db = Inr cols"
    using cols by (auto simp: boot_read_def split: option.splits sum.splits)
  ultimately show ?thesis using r c st' by blast
qed

section \<open>A concrete bootstrap\<close>

definition sample_table :: TableConfig where
  "sample_table = zero_config\<lparr>TC_TableName := ''accounts'', TC_Enabled := True\<rparr>"

definition sample_db :: boot_db where
  "sample_db = \<lparr>bd_inProgress = None, bd_begin = None, bd_query = None, bd_columns = Inr [''id''],
     bd_rows = [Inr [GInt KInt64 7]], bd_complete = None\<rparr>"

definition sample_boot_env :: "bytes result boot_env" where
  "sample_boot_env = \<lparr>bn_row = (\<lambda>_. \<lparr>br_snapshot = sample_snapshot_env, br_now = 0, br_ticks = [], br_close = sample_close_env\<rparr>),
     bn_ticks = [], bn_flush = sample_close_env, bn_report = sample_env 0\<rparr>"

definition sample_rstate :: "(MemoryStore, LocalDirArchiveStore) RState" where
  "sample_rstate = \<lparr>PS_config = [(''accounts'', sample_table)],
     PS_batcher = NewBatcher \<lparr>Cfg_MaxInterval = 0, Cfg_MaxEvents = 2\<rparr> ''b1'' 0 0, PS_world = sample_world [],
     RS_status = [(''accounts'', ''not_started'')]\<rparr>"

lemma boot_sample_record:
  "\<exists>r h. BuildRecord None sample_snapshot_env (boot_change ''accounts'' (afterMap [''id''] [GInt KInt64 7])) sample_table
       system_attribution (''bootstrap:'' @ ''accounts'') 0 0 = Inr r
     \<and> record_leaf (r\<lparr>R_BatchID := ''b1'', R_MerkleLeafIndex := 0\<rparr>) = Inr h"
proof -
  let ?ch = "boot_change ''accounts'' (afterMap [''id''] [GInt KInt64 7])"
  obtain r where r: "BuildRecord None sample_snapshot_env ?ch sample_table
      system_attribution (''bootstrap:'' @ ''accounts'') 0 0 = Inr r"
    by (simp add: BuildRecord_def image_text_def boot_change_def afterMap_def processRow_def process_column_def
        extractPrimaryKey_def)
  have "row_ok row" if "RC_BeforeImage ?ch = Some row \<or> RC_AfterImage ?ch = Some row" for row
    using that by (auto simp: boot_change_def afterMap_def row_ok_def max_nesting_def)
  from BuildRecord_leaf [OF r this, where bid = "''b1''" and n = 0] r show ?thesis by blast
qed

lemma boot_sample:
  "\<exists>st'. BootstrapTable None sample_deps sample_db sample_boot_env ''accounts'' sample_rstate = (None, st')"
proof -
  obtain r h where r: "BuildRecord None sample_snapshot_env (boot_change ''accounts'' (afterMap [''id''] [GInt KInt64 7]))
      sample_table system_attribution (''bootstrap:'' @ ''accounts'') 0 0 = Inr r"
      "record_leaf (r\<lparr>R_BatchID := ''b1'', R_MerkleLeafIndex := 0\<rparr>) = Inr h"
    using boot_sample_record by blast
  let ?new = "SetBootstrapMode True ''accounts'' (NewBatcher \<lparr>Cfg_MaxInterval = 0, Cfg_MaxEvents = 2\<rparr> ''b1'' 0 0)"
  let ?b = "append_record ?new r boot_position"
  have add: "AddRecord sample_deps e r boot_position ?new w = (None, ?b, w)" for e w
    by (simp add: AddRecord_def Let_def append_record_def NewBatcher_def resetTimer_def SetBootstrapMode_def)
  have "\<exists>b' w'. CloseCurrentBatch sample_deps sample_close_env ?b (sample_world []) = (None, b', w')"
    using close_one [OF _ r(2), of ?b]
    by (simp add: append_record_def NewBatcher_def resetTimer_def SetBootstrapMode_def Let_def)
  then obtain b' w' where fl: "CloseCurrentBatch sample_deps sample_close_env ?b (sample_world []) = (None, b', w')"
    by blast
  let ?st = "sample_rstate\<lparr>RS_status := [(''accounts'', ''in_progress'')]\<rparr>"
  have rows: "boot_rows None sample_deps sample_boot_env ''accounts'' sample_table [''id''] 0 [Inr [GInt KInt64 7]]
      (?st\<lparr>PS_batcher := ?new\<rparr>) = (None, ?st\<lparr>PS_batcher := ?b\<rparr>)"
    using r(1) add by (simp add: sample_boot_env_def sample_rstate_def)
  have fin: "\<exists>st'. boot_finish sample_deps sample_db sample_boot_env ''accounts'' sample_table (?st\<lparr>PS_batcher := ?b\<rparr>) = (None, st')"
    using fl by (simp add: boot_finish_def Flush_def updateBootstrapStatus_def sample_db_def sample_boot_env_def sample_rstate_def)
  have "GetTableConfig (PS_config sample_rstate) ''accounts'' = (sample_table, True)"
    "updateBootstrapStatus (bd_inProgress sample_db) ''accounts'' ''in_progress'' sample_rstate = (None, ?st)"
    "boot_read sample_db ''accounts'' = Inr [''id'']" "bd_rows sample_db = [Inr [GInt KInt64 7]]"
    "PS_batcher ?st = NewBatcher \<lparr>Cfg_MaxInterval = 0, Cfg_MaxEvents = 2\<rparr> ''b1'' 0 0"
    by (simp_all add: GetTableConfig_def updateBootstrapStatus_def boot_read_def sample_db_def sample_rstate_def)
  with rows fin show ?thesis unfolding BootstrapTable_def by (simp del: boot_rows.simps)
qed

theorem BootstrapTable_complete_witness:
  "\<exists>st' r closed'. BootstrapTable None sample_deps sample_db sample_boot_env ''accounts'' sample_rstate = (None, st')
     \<and> boot_record (None :: bytes result encryptor option) ''accounts'' sample_table [''id''] r [GInt KInt64 7]
     \<and> concat (map snd closed') = [r] \<and> batcher_reach sample_deps (\<lambda>_ _. False) [r] closed' (PS_batcher st') (PS_world st')"
proof -
  obtain st' where b: "BootstrapTable None sample_deps sample_db sample_boot_env ''accounts'' sample_rstate = (None, st')"
    using boot_sample by blast
  have s: "batcher_reach sample_deps (\<lambda>_ _. False) [] [] (PS_batcher sample_rstate) (PS_world sample_rstate)"
    "GetTableConfig (PS_config sample_rstate) ''accounts'' = (sample_table, True)" "TC_TableName sample_table = ''accounts''"
    by (simp_all add: sample_rstate_def batcher_reach.start GetTableConfig_def sample_table_def)
  obtain cols vals recs closed' where c: "bd_columns sample_db = Inr cols" "bd_rows sample_db = map Inr vals"
      "list_all2 (boot_record (None :: bytes result encryptor option) ''accounts'' sample_table cols) recs vals"
      "batcher_reach sample_deps (\<lambda>_ _. False) recs closed' (PS_batcher st') (PS_world st')" "concat (map snd closed') = recs"
    using BootstrapTable_complete [OF s(1) b s(2,3)] unfolding append_Nil by blast
  have "cols = [''id'']" "vals = [[GInt KInt64 7]]" using c(1,2) by (auto simp: sample_db_def)
  then obtain r where "recs = [r]" "boot_record (None :: bytes result encryptor option) ''accounts'' sample_table [''id''] r [GInt KInt64 7]"
    using c(3) by (auto simp: list_all2_Cons2)
  with b c(4,5) show ?thesis by (intro exI [of _ st'] exI [of _ r] exI [of _ closed']) simp
qed

end
