(* ===== verification/Binlog.thy ===== *)
theory Binlog
  imports Attribution GoStrings
begin

text \<open>
  The change source of \<open>internal/binlog/client.go\<close>: it turns the events of a MySQL binary log
  into transactions.

  Connecting and receiving is the replication library's; the model starts from the events it
  delivers. The lemmas show that exactly the committed groups of events come out, in order
  and complete, and what the names of the columns mean for the stages that follow.
\<close>

section \<open>Model\<close>

record BinlogConfig =
  BC_Host :: string
  BC_Port :: "16 word"
  BC_User :: string
  BC_Password :: string
  BC_ServerID :: "32 word"
  BC_Flavor :: string

text \<open>Events as the library delivers them; kinds the code does not look at are \<open>OtherEvent\<close>.\<close>

record EventHeader =
  EH_Timestamp :: "32 word"
  EH_LogPos :: "32 word"

datatype rows_kind = WriteRows | UpdateRows | DeleteRows | OldRows

datatype event =
    RotateEvent string "64 word"
  | QueryEvent string string
  | XIDEvent "64 word"
  | RowsEvent rows_kind string string "gval list list"
  | OtherEvent

record MySQLBinlogSource =
  BS_cfg :: BinlogConfig
  BS_currentPos :: Position
  BS_streaming :: bool
  BS_closed :: bool

definition NewMySQLBinlogSource :: "BinlogConfig \<Rightarrow> MySQLBinlogSource" where
  "NewMySQLBinlogSource cfg =
     (let cfg = (if BC_ServerID cfg = 0 then cfg\<lparr>BC_ServerID := 1001\<rparr> else cfg);
          cfg = (if BC_Flavor cfg = [] then cfg\<lparr>BC_Flavor := ''mysql''\<rparr> else cfg) in
      \<lparr>BS_cfg = cfg, BS_currentPos = \<lparr>Pos_File = [], Pos_Position = 0, Pos_GTID = []\<rparr>,
       BS_streaming = False, BS_closed = False\<rparr>)"

definition Checkpoint :: "MySQLBinlogSource \<Rightarrow> Position" where
  "Checkpoint s = BS_currentPos s"

definition ResumeFrom :: "Position \<Rightarrow> MySQLBinlogSource \<Rightarrow> MySQLBinlogSource" where
  "ResumeFrom pos s = s\<lparr>BS_currentPos := pos\<rparr>"

definition start_position :: "MySQLBinlogSource \<Rightarrow> string \<times> 32 word" where
  "start_position s =
     (if Pos_File (BS_currentPos s) \<noteq> [] \<and> Pos_Position (BS_currentPos s) > 0
      then (Pos_File (BS_currentPos s), Pos_Position (BS_currentPos s)) else ([], 0))"

text \<open>\<open>Stream\<close>, with the outcome of \<open>StartSync\<close>; the position is printed as the library prints it.\<close>

definition Stream :: "go_error option \<Rightarrow> MySQLBinlogSource \<Rightarrow> go_error option \<times> MySQLBinlogSource" where
  "Stream sync s =
     (case sync of
        Some err \<Rightarrow>
          (case start_position s of (file, pos) \<Rightarrow>
             (Some (Wrapf (''failed to start binlog sync at ('' @ file @ '', '' @ show_nat (unat pos) @ '')'') err), s))
      | None \<Rightarrow> (None, s\<lparr>BS_streaming := True, BS_closed := False\<rparr>))"

definition binlog_Close :: "MySQLBinlogSource \<Rightarrow> MySQLBinlogSource" where
  "binlog_Close s = s\<lparr>BS_closed := True\<rparr>"

definition updateCheckpoint :: "Position \<Rightarrow> MySQLBinlogSource \<Rightarrow> MySQLBinlogSource" where
  "updateCheckpoint pos s =
     (let cur = BS_currentPos s;
          cur = (if Pos_File pos \<noteq> [] then cur\<lparr>Pos_File := Pos_File pos\<rparr> else cur) in
      s\<lparr>BS_currentPos := cur\<lparr>Pos_Position := Pos_Position pos\<rparr>\<rparr>)"

definition isDDL :: "string \<Rightarrow> bool" where
  "isDDL query =
     (let q = ToUpper (TrimSpace query) in
      has_prefix q ''ALTER TABLE'' \<or> has_prefix q ''CREATE TABLE'' \<or> has_prefix q ''DROP TABLE''
      \<or> has_prefix q ''RENAME TABLE'')"

text \<open>A row of values as a map; the columns are named by their positions.\<close>

definition col_map :: "gval list \<Rightarrow> row" where
  "col_map vals = map (\<lambda>(i, v). (''col_'' @ show_nat i, v)) (enumerate 0 vals)"

fun row_pairs :: "gval list list \<Rightarrow> (gval list \<times> gval list) list" where
  "row_pairs (b # a # rest) = (b, a) # row_pairs rest"
| "row_pairs _ = []"

definition row_action :: "rows_kind \<Rightarrow> EventType" where
  "row_action k = (case k of WriteRows \<Rightarrow> EventTypeInsert | UpdateRows \<Rightarrow> EventTypeUpdate
     | DeleteRows \<Rightarrow> EventTypeDelete | OldRows \<Rightarrow> [])"

definition parseRowChanges :: "gval list list \<Rightarrow> EventType \<Rightarrow> string \<Rightarrow> string \<Rightarrow> RowChange list" where
  "parseRowChanges rows action schema table =
     (let mk = (\<lambda>b a. \<lparr>RC_Schema = schema, RC_Table = table, RC_Action = action, RC_BeforeImage = b, RC_AfterImage = a\<rparr>) in
      if action = EventTypeInsert then map (\<lambda>row. mk None (Some (col_map row))) rows
      else if action = EventTypeDelete then map (\<lambda>row. mk (Some (col_map row)) None) rows
      else if action = EventTypeUpdate then map (\<lambda>(b, a). mk (Some (col_map b)) (Some (col_map a))) (row_pairs rows)
      else [])"

definition unix_time :: "32 word \<Rightarrow> time" where
  "unix_time ts = int (unat ts) * 1000000000"

definition make_tx :: "string \<Rightarrow> EventHeader \<Rightarrow> RowChange list \<Rightarrow> string \<Rightarrow> Transaction" where
  "make_tx file h changes ddl =
     \<lparr>Tx_TransactionID = file @ '':'' @ show_nat (unat (EH_LogPos h)),
      Tx_Position = \<lparr>Pos_File = file, Pos_Position = EH_LogPos h, Pos_GTID = []\<rparr>,
      Tx_CommittedAt = unix_time (EH_Timestamp h), Tx_Changes = changes, Tx_DDLStatement = ddl\<rparr>"

text \<open>The local state of \<open>readLoop\<close>: the open transaction, if there is one.\<close>

type_synonym loop_state = "MySQLBinlogSource \<times> Transaction option"

definition finish_tx :: "EventHeader \<Rightarrow> Transaction \<Rightarrow> Transaction" where
  "finish_tx h tx = tx\<lparr>Tx_Position := (Tx_Position tx)\<lparr>Pos_Position := EH_LogPos h\<rparr>\<rparr>"

text \<open>The switch over the event, with the transactions sent to the channel.\<close>

definition handle_event :: "EventHeader \<Rightarrow> event \<Rightarrow> loop_state \<Rightarrow> Transaction list \<times> loop_state" where
  "handle_event h ev st =
     (case st of (s, cur) \<Rightarrow>
      let file = Pos_File (BS_currentPos s);
          send = (\<lambda>tx cur. ([tx], (updateCheckpoint (Tx_Position tx) s, cur))) in
      case ev of
        RotateEvent name pos \<Rightarrow>
          ([], (s\<lparr>BS_currentPos := (BS_currentPos s)\<lparr>Pos_File := name, Pos_Position := ucast pos\<rparr>\<rparr>, cur))
      | QueryEvent schema text \<Rightarrow>
          (let query = ToUpper (TrimSpace text) in
           if query = ''BEGIN'' then ([], (s, Some (make_tx file h [] [])))
           else if query = ''COMMIT'' then (case cur of Some tx \<Rightarrow> send (finish_tx h tx) None | None \<Rightarrow> ([], st))
           else if query = ''ROLLBACK'' then ([], (s, None))
           else if isDDL query then
             send (make_tx file h [\<lparr>RC_Schema = schema, RC_Table = [], RC_Action = EventTypeDDL,
                                     RC_BeforeImage = None, RC_AfterImage = None\<rparr>] text) cur
           else ([], st))
      | XIDEvent xid \<Rightarrow>
          (case cur of
             Some tx \<Rightarrow> send ((finish_tx h tx)\<lparr>Tx_TransactionID := ''xid:'' @ show_nat (unat xid)\<rparr>) None
           | None \<Rightarrow> ([], st))
      | RowsEvent kind schema table rows \<Rightarrow>
          (let changes = parseRowChanges rows (row_action kind) schema table in
           case cur of
             Some tx \<Rightarrow> ([], (s, Some (tx\<lparr>Tx_Changes := Tx_Changes tx @ changes\<rparr>)))
           | None \<Rightarrow> send (make_tx file h changes []) None)
      | OtherEvent \<Rightarrow> ([], st))"

text \<open>After the switch: the position follows the header.\<close>

definition after_event :: "EventHeader \<Rightarrow> loop_state \<Rightarrow> loop_state" where
  "after_event h st =
     (if EH_LogPos h > 0
      then ((fst st)\<lparr>BS_currentPos := (BS_currentPos (fst st))\<lparr>Pos_Position := EH_LogPos h\<rparr>\<rparr>, snd st) else st)"

text \<open>
  \<open>readLoop\<close> on the outcomes of \<open>GetEvent\<close> until the context is cancelled: an error is passed
  over after a pause; a closed source ends the loop.
\<close>

fun readLoop :: "(EventHeader \<times> event) result list \<Rightarrow> loop_state \<Rightarrow> Transaction list \<times> loop_state" where
  "readLoop [] st = ([], st)"
| "readLoop (got # rest) st =
     (if BS_closed (fst st) \<or> \<not> BS_streaming (fst st) then ([], st)
      else case got of
        Inl err \<Rightarrow> readLoop rest st
      | Inr (h, ev) \<Rightarrow>
          (case handle_event h ev st of (out, st) \<Rightarrow>
             case readLoop rest (after_event h st) of (outs, st) \<Rightarrow> (out @ outs, st)))"

section \<open>Groups of events\<close>

text \<open>What the binary log of a server consists of, as far as the source looks at it.\<close>

datatype group =
    Committed "EventHeader \<times> event" "(EventHeader \<times> event) list" "EventHeader \<times> event"
  | RolledBack "EventHeader \<times> event" "(EventHeader \<times> event) list" "EventHeader \<times> event"
  | Single "EventHeader \<times> event"

fun is_query :: "string \<Rightarrow> event \<Rightarrow> bool" where
  "is_query q (QueryEvent schema text) = (ToUpper (TrimSpace text) = q)"
| "is_query q _ = False"

text \<open>Inside a transaction: rows, and events that mean nothing to the source (such as a savepoint).\<close>

fun inner :: "event \<Rightarrow> bool" where
  "inner (RowsEvent _ _ _ _) = True"
| "inner OtherEvent = True"
| "inner (QueryEvent schema text) =
     (let q = ToUpper (TrimSpace text) in q \<notin> {''BEGIN'', ''COMMIT'', ''ROLLBACK''} \<and> \<not> isDDL q)"
| "inner _ = False"

definition ends :: "event \<Rightarrow> bool" where
  "ends ev \<longleftrightarrow> is_query ''COMMIT'' ev \<or> (\<exists>x. ev = XIDEvent x)"

fun group_ok :: "group \<Rightarrow> bool" where
  "group_ok (Committed b body e) \<longleftrightarrow> is_query ''BEGIN'' (snd b) \<and> list_all (inner \<circ> snd) body \<and> ends (snd e)"
| "group_ok (RolledBack b body e) \<longleftrightarrow> is_query ''BEGIN'' (snd b) \<and> list_all (inner \<circ> snd) body \<and> is_query ''ROLLBACK'' (snd e)"
| "group_ok (Single e) \<longleftrightarrow> \<not> is_query ''BEGIN'' (snd e)"

fun group_events :: "group \<Rightarrow> (EventHeader \<times> event) list" where
  "group_events (Committed b body e) = b # body @ [e]"
| "group_events (RolledBack b body e) = b # body @ [e]"
| "group_events (Single e) = [e]"

fun changes_of :: "event \<Rightarrow> RowChange list" where
  "changes_of (RowsEvent kind schema table rows) = parseRowChanges rows (row_action kind) schema table"
| "changes_of _ = []"

text \<open>
  The transactions a group stands for, in the log file at hand: a committed group gives one, with
  all its changes, the time of its beginning and the position of its end; a statement outside
  of a transaction gives one of its own.
\<close>

fun committed_id :: "string \<Rightarrow> EventHeader \<Rightarrow> event \<Rightarrow> string" where
  "committed_id file b (XIDEvent xid) = ''xid:'' @ show_nat (unat xid)"
| "committed_id file b _ = file @ '':'' @ show_nat (unat (EH_LogPos b))"

fun single_out :: "string \<Rightarrow> EventHeader \<Rightarrow> event \<Rightarrow> Transaction list" where
  "single_out file h (RowsEvent kind schema table rows) =
     [make_tx file h (changes_of (RowsEvent kind schema table rows)) []]"
| "single_out file h (QueryEvent schema text) =
     (if isDDL (ToUpper (TrimSpace text)) \<and> ToUpper (TrimSpace text) \<notin> {''COMMIT'', ''ROLLBACK''}
      then [make_tx file h [\<lparr>RC_Schema = schema, RC_Table = [], RC_Action = EventTypeDDL,
              RC_BeforeImage = None, RC_AfterImage = None\<rparr>] text]
      else [])"
| "single_out file h _ = []"

fun group_out :: "string \<Rightarrow> group \<Rightarrow> Transaction list" where
  "group_out file (Committed b body e) =
     [\<lparr>Tx_TransactionID = committed_id file (fst b) (snd e),
       Tx_Position = \<lparr>Pos_File = file, Pos_Position = EH_LogPos (fst e), Pos_GTID = []\<rparr>,
       Tx_CommittedAt = unix_time (EH_Timestamp (fst b)), Tx_Changes = concat (map (changes_of \<circ> snd) body),
       Tx_DDLStatement = []\<rparr>]"
| "group_out file (RolledBack b body e) = []"
| "group_out file (Single e) = single_out file (fst e) (snd e)"

fun group_file :: "string \<Rightarrow> group \<Rightarrow> string" where
  "group_file file (Single (h, RotateEvent name pos)) = name"
| "group_file file _ = file"

fun groups_out :: "string \<Rightarrow> group list \<Rightarrow> Transaction list" where
  "groups_out file [] = []"
| "groups_out file (g # gs) = group_out file g @ groups_out (group_file file g) gs"

section \<open>Exactly the committed groups come out\<close>

definition live :: "MySQLBinlogSource \<Rightarrow> bool" where
  "live s \<longleftrightarrow> BS_streaming s \<and> \<not> BS_closed s"

lemma readLoop_append:
  "readLoop (xs @ ys) st = (case readLoop xs st of (o1, st1) \<Rightarrow> case readLoop ys st1 of (o2, st2) \<Rightarrow> (o1 @ o2, st2))"
proof (induction xs arbitrary: st)
  case (Cons x xs)
  show ?case
  proof (cases "BS_closed (fst st) \<or> \<not> BS_streaming (fst st)")
    case True
    then have "readLoop ys st = ([], st)" by (cases ys) auto
    with True show ?thesis by simp
  qed (auto simp: Cons split: sum.splits prod.splits)
qed (simp split: prod.splits)

text \<open>All that the next event depends on: the source is live, the log file, and the open transaction.\<close>

definition at :: "loop_state \<Rightarrow> string \<Rightarrow> Transaction option \<Rightarrow> bool" where
  "at st logf cur \<longleftrightarrow> live (fst st) \<and> Pos_File (BS_currentPos (fst st)) = logf \<and> snd st = cur"

lemma at_after [simp]: "at (after_event h st) logf cur \<longleftrightarrow> at st logf cur"
  by (simp add: at_def after_event_def live_def)

lemma at_update: "at (s, c) logf cur \<Longrightarrow> Pos_File pos = logf \<Longrightarrow> at (updateCheckpoint pos s, cur') logf cur'"
  by (auto simp: at_def live_def updateCheckpoint_def Let_def)

lemma readLoop_cons:
  assumes "at st logf cur" "handle_event h ev st = (out, st')"
  shows "readLoop (Inr (h, ev) # rest) st = (case readLoop rest (after_event h st') of (outs, st'') \<Rightarrow> (out @ outs, st''))"
  using assms by (simp add: at_def live_def)

lemma readLoop_one:
  assumes "at st logf cur" "handle_event h ev st = (out, st')"
  shows "readLoop [Inr (h, ev)] st = (out, after_event h st')"
  using assms by (simp add: at_def live_def)

lemma handle_inner:
  assumes "inner ev" "at st logf (Some tx)"
  shows "\<exists>st'. handle_event h ev st = ([], st') \<and> at st' logf (Some (tx\<lparr>Tx_Changes := Tx_Changes tx @ changes_of ev\<rparr>))"
  using assms by (cases ev; cases st) (auto simp: handle_event_def at_def Let_def split: if_splits)

lemma readLoop_body:
  assumes "list_all (inner \<circ> snd) body" "at st logf (Some tx)"
  shows "\<exists>st'. readLoop (map Inr body) st = ([], st')
    \<and> at st' logf (Some (tx\<lparr>Tx_Changes := Tx_Changes tx @ concat (map (changes_of \<circ> snd) body)\<rparr>))"
  using assms
proof (induction body arbitrary: st tx)
  case (Cons x body)
  obtain h ev where x: "x = (h, ev)" by (cases x)
  obtain st1 where st1: "handle_event h ev st = ([], st1)" "at st1 logf (Some (tx\<lparr>Tx_Changes := Tx_Changes tx @ changes_of ev\<rparr>))"
    using handle_inner [OF _ Cons.prems(2), of ev h] Cons.prems(1) x by auto
  then have "at (after_event h st1) logf (Some (tx\<lparr>Tx_Changes := Tx_Changes tx @ changes_of ev\<rparr>))" by simp
  from Cons.IH [OF _ this] Cons.prems(1) show ?case
    by (auto simp: x readLoop_cons [OF Cons.prems(2) st1(1)] simp del: readLoop.simps)
qed simp

lemma handle_begin:
  assumes "is_query ''BEGIN'' ev" "at st logf cur"
  shows "handle_event h ev st = ([], (fst st, Some (make_tx logf h [] [])))"
  using assms by (cases ev; cases st) (auto simp: handle_event_def at_def Let_def)

lemma handle_end:
  assumes "ends ev" "at st logf (Some tx)" "Pos_File (Tx_Position tx) = logf"
  shows "\<exists>st'. handle_event h ev st = ([(finish_tx h tx)\<lparr>Tx_TransactionID :=
      (case ev of XIDEvent x \<Rightarrow> ''xid:'' @ show_nat (unat x) | _ \<Rightarrow> Tx_TransactionID tx)\<rparr>], st') \<and> at st' logf None"
proof -
  obtain s where st: "st = (s, Some tx)" using assms(2) by (cases st) (auto simp: at_def)
  show ?thesis using assms(1) at_update [of s "Some tx" logf "Some tx" _ None] assms(2,3)
    by (cases ev) (auto simp: ends_def handle_event_def st Let_def finish_tx_def)
qed

lemma handle_rollback:
  assumes "is_query ''ROLLBACK'' ev" "at st logf cur"
  shows "\<exists>st'. handle_event h ev st = ([], st') \<and> at st' logf None"
  using assms by (cases ev; cases st) (auto simp: handle_event_def at_def Let_def)

lemma handle_single:
  assumes "\<not> is_query ''BEGIN'' ev" "at st logf None"
  shows "\<exists>st'. handle_event h ev st = (single_out logf h ev, st') \<and> at st' (group_file logf (Single (h, ev))) None"
proof -
  obtain s where st: "st = (s, None)" using assms(2) by (cases st) (auto simp: at_def)
  show ?thesis using assms at_update [of s None logf None _ None]
    by (cases ev) (auto simp: handle_event_def st Let_def make_tx_def at_def live_def split: if_splits)
qed

lemma readLoop_group:
  assumes "group_ok g" "at st logf None"
  shows "\<exists>st'. readLoop (map Inr (group_events g)) st = (group_out logf g, st') \<and> at st' (group_file logf g) None"
proof (cases g)
  case (Committed b body e)
  obtain hb eb he ee where p: "b = (hb, eb)" "e = (he, ee)" by (cases b; cases e)
  let ?tx = "(make_tx logf hb [] [])\<lparr>Tx_Changes := concat (map (changes_of \<circ> snd) body)\<rparr>"
  have 1: "readLoop [Inr b] st = ([], after_event hb (fst st, Some (make_tx logf hb [] [])))"
    using readLoop_one [OF assms(2) handle_begin] assms Committed p by simp
  have "at (after_event hb (fst st, Some (make_tx logf hb [] []))) logf (Some (make_tx logf hb [] []))"
    using assms(2) by (subst at_after) (simp add: at_def)
  from readLoop_body [OF _ this, of body] obtain st1 where
    2: "readLoop (map Inr body) (after_event hb (fst st, Some (make_tx logf hb [] []))) = ([], st1)" "at st1 logf (Some ?tx)"
    using assms(1) Committed by (auto simp: make_tx_def)
  have e: "ends ee" and f: "Pos_File (Tx_Position ?tx) = logf" using assms(1) Committed p by (simp_all add: make_tx_def)
  obtain st2 where 3: "handle_event he ee st1 = ([(finish_tx he ?tx)\<lparr>Tx_TransactionID :=
      (case ee of XIDEvent x \<Rightarrow> ''xid:'' @ show_nat (unat x) | _ \<Rightarrow> Tx_TransactionID ?tx)\<rparr>], st2)" "at st2 logf None"
    using handle_end [OF e 2(2) f] by blast
  have "(finish_tx he ?tx)\<lparr>Tx_TransactionID :=
      (case ee of XIDEvent x \<Rightarrow> ''xid:'' @ show_nat (unat x) | _ \<Rightarrow> Tx_TransactionID ?tx)\<rparr> = hd (group_out logf g)"
    using Committed p by (cases ee) (auto simp: finish_tx_def make_tx_def)
  with 3 readLoop_one [OF 2(2) 3(1)] have "readLoop [Inr e] st1 = (group_out logf g, after_event he st2)"
    using Committed p by simp
  with 1 2 3(2) Committed show ?thesis
    using readLoop_append [of "[Inr b]" "map Inr body @ [Inr e]" st] readLoop_append [of "map Inr body" "[Inr e]"]
    by (simp del: group_out.simps)
next
  case (RolledBack b body e)
  obtain hb eb he ee where p: "b = (hb, eb)" "e = (he, ee)" by (cases b; cases e)
  have 1: "readLoop [Inr b] st = ([], after_event hb (fst st, Some (make_tx logf hb [] [])))"
    using readLoop_one [OF assms(2) handle_begin] assms RolledBack p by simp
  have "at (after_event hb (fst st, Some (make_tx logf hb [] []))) logf (Some (make_tx logf hb [] []))"
    using assms(2) by (subst at_after) (simp add: at_def)
  from readLoop_body [OF _ this, of body] obtain st1 tx where
    2: "readLoop (map Inr body) (after_event hb (fst st, Some (make_tx logf hb [] []))) = ([], st1)" "at st1 logf (Some tx)"
    using assms(1) RolledBack by auto
  obtain st2 where 3: "handle_event he ee st1 = ([], st2)" "at st2 logf None"
    using handle_rollback [of ee st1 logf "Some tx" he] 2(2) assms(1) RolledBack p by (simp, blast)
  with 1 2 RolledBack p readLoop_one [OF 2(2) 3(1)] show ?thesis
    using readLoop_append [of "[Inr b]" "map Inr body @ [Inr e]" st] readLoop_append [of "map Inr body" "[Inr e]"] by simp
next
  case (Single e)
  obtain h ev where p: "e = (h, ev)" by (cases e)
  obtain st1 where 1: "handle_event h ev st = (single_out logf h ev, st1)" "at st1 (group_file logf g) None"
    using handle_single [of ev st logf h] assms Single p by (simp, blast)
  with readLoop_one [OF assms(2) 1(1)] Single p show ?thesis by simp
qed

lemma readLoop_groups:
  assumes "list_all group_ok gs" "at st logf None"
  shows "\<exists>st' logf'. readLoop (map Inr (concat (map group_events gs))) st = (groups_out logf gs, st') \<and> at st' logf' None"
  using assms
proof (induction gs arbitrary: st logf)
  case (Cons g gs)
  obtain st1 where 1: "readLoop (map Inr (group_events g)) st = (group_out logf g, st1)" "at st1 (group_file logf g) None"
    using readLoop_group Cons.prems by fastforce
  from Cons.IH [OF _ 1(2)] Cons.prems(1) obtain st' logf' where
    "readLoop (map Inr (concat (map group_events gs))) st1 = (groups_out (group_file logf g) gs, st')" "at st' logf' None" by auto
  with 1 show ?case
    using readLoop_append [of "map Inr (group_events g)" "map Inr (concat (map group_events gs))" st]
    by (auto simp del: group_out.simps)
qed auto

text \<open>
  C7: The source delivers exactly the committed transactions. On a log made of committed and rolled
  back transactions, statements outside of transactions and events of no interest, with
  rotations between them, the transactions sent are, in order, one for every committed group
  with all its row changes, the time of its beginning and the position of its end, and one for every
  single statement; nothing of a transaction that was rolled back as a whole is sent, and no
  transaction is left open. (A rollback to a savepoint is, for the code and here, a statement without
  effect inside its transaction.)
\<close>

theorem readLoop_committed:
  assumes "list_all group_ok gs" "live s"
  shows "fst (readLoop (map Inr (concat (map group_events gs))) (s, None)) = groups_out (Pos_File (BS_currentPos s)) gs
    \<and> snd (snd (readLoop (map Inr (concat (map group_events gs))) (s, None))) = None"
proof -
  have "at (s, None) (Pos_File (BS_currentPos s)) None" using assms(2) by (simp add: at_def)
  from readLoop_groups [OF assms(1) this] show ?thesis by (auto simp: at_def)
qed

section \<open>Column names\<close>

text \<open>A change whose images have no column but \<open>col_0\<close>, \<open>col_1\<close> and so on.\<close>

definition positional :: "RowChange \<Rightarrow> bool" where
  "positional ch \<longleftrightarrow> (\<forall>row. RC_BeforeImage ch = Some row \<or> RC_AfterImage ch = Some row \<longrightarrow>
     (\<forall>k \<in> fst ` set row. take 4 k = ''col_''))"

lemma col_map_names: "(k, v) \<in> set (col_map vals) \<Longrightarrow> take 4 k = ''col_''"
  by (auto simp: col_map_def)

lemma parse_positional: "ch \<in> set (parseRowChanges rows action schema table) \<Longrightarrow> positional ch"
  using col_map_names by (auto simp: parseRowChanges_def positional_def Let_def split: if_splits)

lemma positional_no_context: "positional ch \<Longrightarrow> context_of ch = None"
proof -
  assume p: "positional ch"
  have "map_of row ''user_id'' = None" if "RC_AfterImage ch = Some row" for row
  proof (rule ccontr)
    assume "map_of row ''user_id'' \<noteq> None"
    then have "''user_id'' \<in> fst ` set row" by (metis map_of_eq_None_iff)
    with p that have "take 4 ''user_id'' = ''col_''" unfolding positional_def by blast
    then show False by simp
  qed
  then show ?thesis by (auto simp: context_of_def Let_def split: option.splits)
qed

lemma handle_positional:
  assumes "handle_event h ev (s, cur) = (out, (s', cur'))" "\<forall>tx. cur = Some tx \<longrightarrow> list_all positional (Tx_Changes tx)"
  shows "(\<forall>tx \<in> set out. list_all positional (Tx_Changes tx)) \<and> (\<forall>tx. cur' = Some tx \<longrightarrow> list_all positional (Tx_Changes tx))"
  using assms
  by (cases ev) (auto simp: handle_event_def Let_def make_tx_def finish_tx_def list_all_iff parse_positional
      positional_def [of "\<lparr>RC_Schema = _, RC_Table = _, RC_Action = _, RC_BeforeImage = None, RC_AfterImage = None\<rparr>"]
      split: if_splits option.splits)

lemma readLoop_positional:
  assumes "\<forall>tx. snd st = Some tx \<longrightarrow> list_all positional (Tx_Changes tx)" "tx \<in> set (fst (readLoop evs st))"
  shows "list_all positional (Tx_Changes tx)"
  using assms
proof (induction evs arbitrary: st)
  case (Cons got evs)
  show ?case
  proof (cases got)
    case (Inl err)
    with Cons show ?thesis by (auto split: if_splits)
  next
    case (Inr p)
    obtain h ev where p: "p = (h, ev)" by (cases p)
    obtain s cur where st: "st = (s, cur)" by (cases st)
    obtain out s' cur' where e: "handle_event h ev (s, cur) = (out, (s', cur'))" using prod_cases3 by blast
    have pos: "\<forall>tx \<in> set out. list_all positional (Tx_Changes tx)"
        "\<forall>tx. snd (after_event h (s', cur')) = Some tx \<longrightarrow> list_all positional (Tx_Changes tx)"
      using handle_positional [OF e] Cons.prems(1) st by (simp_all add: after_event_def)
    have "tx \<in> set out \<or> tx \<in> set (fst (readLoop evs (after_event h (s', cur'))))"
      using Cons.prems(2) Inr p st e by (auto split: if_splits prod.splits)
    with Cons.IH [OF pos(2)] pos(1) show ?thesis by blast
  qed
qed simp

text \<open>
  C40: Transactions that come from the binary log are never attributed. Because the source names
  columns by position, no context row it delivers has a user, so that for every transaction
  it sends, whatever rows the transaction wrote to \<open>_audit_context\<close>, the correlator finds no actor.
\<close>

theorem binlog_never_attributed:
  assumes "tx \<in> set (fst (readLoop evs (s, None)))"
  shows "AA_ActorUserID (CorrelateTransaction m tx table) = None"
proof -
  have "list_all positional (Tx_Changes tx)" using readLoop_positional [OF _ assms] by simp
  then have "find_context (Tx_Changes tx) = None"
    using positional_no_context by (auto simp: find_context_None list_all_iff)
  from CorrelateTransaction_policy [OF this] show ?thesis .
qed

section \<open>A concrete log\<close>

definition sample_header :: "32 word \<Rightarrow> EventHeader" where
  "sample_header p = \<lparr>EH_Timestamp = 5, EH_LogPos = p\<rparr>"

definition sample_source :: MySQLBinlogSource where
  "sample_source = snd (Stream None (NewMySQLBinlogSource
     \<lparr>BC_Host = ''h'', BC_Port = 3306, BC_User = ''u'', BC_Password = ''p'', BC_ServerID = 0, BC_Flavor = []\<rparr>))"

definition sample_log :: "group list" where
  "sample_log =
     [Single (sample_header 0, RotateEvent ''bin.1'' 4),
      Committed (sample_header 10, QueryEvent ''app'' ''BEGIN'')
        [(sample_header 20, RowsEvent WriteRows ''app'' ''_audit_context'' [[GString ''alice'']])] (sample_header 30, XIDEvent 7)]"

lemma trim_begin: "ToUpper (TrimSpace ''BEGIN'') = ''BEGIN''"
proof -
  have "find (\<lambda>w. w \<noteq> [] \<and> has_prefix ''BEGIN'' w) unicode_spaces = None"
    "find (\<lambda>w. w \<noteq> [] \<and> has_suffix ''BEGIN'' w) unicode_spaces = None" by code_simp+
  then have "TrimSpace ''BEGIN'' = ''BEGIN''"
    unfolding TrimSpace_def by (subst trim_left.simps, simp only: option.case) (subst trim_right.simps, simp)
  then show ?thesis by (simp add: upper_ascii_def)
qed

lemma sample_log_ok: "list_all group_ok sample_log" "live sample_source"
  by (simp_all add: sample_log_def ends_def trim_begin live_def sample_source_def Stream_def)

theorem readLoop_committed_witness:
  "map Tx_TransactionID (fst (readLoop (map Inr (concat (map group_events sample_log))) (sample_source, None))) = [''xid:7'']"
proof -
  have "fst (readLoop (map Inr (concat (map group_events sample_log))) (sample_source, None))
      = groups_out (Pos_File (BS_currentPos sample_source)) sample_log"
    using readLoop_committed [OF sample_log_ok] by blast
  moreover have "show_nat 7 = ''7''" by code_simp
  then have "map Tx_TransactionID (groups_out f sample_log) = [''xid:7'']" for f by (simp add: sample_log_def)
  ultimately show ?thesis by simp
qed

theorem binlog_never_attributed_witness:
  "\<exists>tx. tx \<in> set (fst (readLoop (map Inr (concat (map group_events sample_log))) (sample_source, None)))
     \<and> AA_ActorUserID (CorrelateTransaction NewManager tx ''accounts'') = None"
proof -
  obtain st' where "readLoop (map Inr (concat (map group_events sample_log))) (sample_source, None)
      = (groups_out [] sample_log, st')"
    using readLoop_groups [OF sample_log_ok(1), of "(sample_source, None)" "[]"] sample_log_ok(2)
    by (auto simp: at_def sample_source_def Stream_def NewMySQLBinlogSource_def Let_def)
  moreover obtain tx where "tx \<in> set (groups_out [] sample_log)" by (simp add: sample_log_def)
  ultimately have t: "tx \<in> set (fst (readLoop (map Inr (concat (map group_events sample_log))) (sample_source, None)))" by simp
  from binlog_never_attributed [OF t] t show ?thesis by blast
qed

end
