(* ===== verification/Tiering.thy ===== *)
theory Tiering
  imports Batching
begin

text \<open>
  The retention tiering service, \<open>internal/tiering/tiering.go\<close>: batches older than the retention
  window are written to the archive as JSON lines, indexed, purged from the store and marked.

  The lemmas show that no record leaves the store before its batch is in the archive, for every
  store and archive that keep their contracts, and what a run leaves behind.
\<close>

section \<open>Model\<close>

text \<open>\<open>json.Marshal\<close> of a \<open>store.Record\<close>.\<close>

definition marshal_record :: "Record \<Rightarrow> string result" where
  "marshal_record r =
     result_bind (marshal_raw (R_PrimaryKey r)) (\<lambda>pk.
     result_bind (raw_field ''before_image'' (R_BeforeImage r)) (\<lambda>before.
     result_bind (raw_field ''after_image'' (R_AfterImage r)) (\<lambda>after.
     result_bind (marshal_time (R_CommittedAt r)) (\<lambda>committed.
       Inr (''{'' @ json_key ''id'' @ quote (R_ID r)
            @ '','' @ json_key ''batch_id'' @ quote (R_BatchID r)
            @ '','' @ json_key ''table_name'' @ quote (R_TableName r)
            @ '','' @ json_key ''primary_key'' @ pk
            @ '','' @ json_key ''event_type'' @ quote (R_EventType r)
            @ before @ after
            @ opt_field ''actor_user_id'' (R_ActorUserID r)
            @ '','' @ json_key ''actor_type'' @ quote (R_ActorType r)
            @ '','' @ json_key ''transaction_id'' @ quote (R_TransactionID r)
            @ '','' @ json_key ''schema_version'' @ quote (R_SchemaVersion r)
            @ '','' @ json_key ''committed_at'' @ committed
            @ '','' @ json_key ''merkle_leaf_index'' @ show_int (R_MerkleLeafIndex r) @ ''}'')))))"

definition LF :: char where
  "LF = CHR 0x0A"

definition default_window :: duration where
  "default_window = 90 * 24 * 3600 * 1000000000"

text \<open>\<open>NewService\<close>: the retention window the service works with.\<close>

definition NewService :: "duration \<Rightarrow> duration" where
  "NewService retentionWindow = (if retentionWindow \<le> 0 then default_window else retentionWindow)"

record TierResult =
  TR_BatchesTiered :: int
  TR_RecordsPurged :: int
  TR_Errors :: "go_error list"

text \<open>What the work on one batch draws: the time of tiering and, for its reports, alert draws.\<close>

record tier_env =
  tn_now :: time
  tn_reports :: "nat \<Rightarrow> trigger_env"

definition reportFailure :: "http_api \<Rightarrow> trigger_env \<Rightarrow> string \<Rightarrow> go_error \<Rightarrow> ('s, 'a) World \<Rightarrow> ('s, 'a) World" where
  "reportFailure h env batchID err w =
     w\<lparr>W_dispatcher := map_option (\<lambda>d. snd (Trigger h d env
         \<lparr>ta_trigger = ''tiering_job_failure'', ta_severity = ''critical'', ta_tableName = ''audit_batches'',
          ta_recordID = batchID, ta_txID = [],
          ta_message = ''Retention tiering job failed for batch '' @ batchID @ '': '' @ error_text err\<rparr>))
       (W_dispatcher w)\<rparr>"

definition tier_fail ::
  "http_api \<Rightarrow> trigger_env \<Rightarrow> string \<Rightarrow> go_error \<Rightarrow> TierResult \<times> ('s, 'a) World \<Rightarrow> TierResult \<times> ('s, 'a) World" where
  "tier_fail h env batchID err st =
     (case st of (res, w) \<Rightarrow> (res\<lparr>TR_Errors := TR_Errors res @ [err]\<rparr>, reportFailure h env batchID err w))"

text \<open>Step 1, the loop over the records. A record that cannot be marshalled is reported and left out.\<close>

fun marshal_lines ::
  "http_api \<Rightarrow> (nat \<Rightarrow> trigger_env) \<Rightarrow> string \<Rightarrow> Record list \<Rightarrow> string \<Rightarrow> nat \<Rightarrow> TierResult \<times> ('s, 'a) World
     \<Rightarrow> string \<times> nat \<times> TierResult \<times> ('s, 'a) World" where
  "marshal_lines h envs batchID [] buf n st = (buf, n, st)"
| "marshal_lines h envs batchID (r # rs) buf n st =
     (case marshal_record r of
        Inl err \<Rightarrow> marshal_lines h envs batchID rs buf (n + 1)
          (tier_fail h (envs n) batchID (Wrapf (''failed to marshal record '' @ R_ID r) err) st)
      | Inr t \<Rightarrow> marshal_lines h envs batchID rs (buf @ t @ [LF]) n st)"

text \<open>Steps 3 to 5: index the batch, purge its records, mark it.\<close>

definition purge_batch :: "'s StoreI \<Rightarrow> time \<Rightarrow> string \<Rightarrow> 's \<Rightarrow> go_error option \<times> 's" where
  "purge_batch S now batchID s =
     (case st_InsertWORMIndex S s \<lparr>W_BatchID = batchID, W_WORMObjectKey = archive_key batchID,
             W_TieredAt = now, W_PurgedFromPostgresAt = Some now\<rparr> of
        (Some err, s) \<Rightarrow> (Some (Wrapf (''failed to insert worm index for batch '' @ batchID) err), s)
      | (None, s) \<Rightarrow>
          (case st_DeleteRecordsByBatchID S s batchID of
             (Some err, s) \<Rightarrow> (Some (Wrapf (''failed to purge records for batch '' @ batchID) err), s)
           | (None, s) \<Rightarrow>
               (case st_UpdateBatchStatus S s batchID ''archived'' (Some (archive_key batchID)) of
                  (Some err, s) \<Rightarrow> (Some (Wrapf (''failed to update batch status for '' @ batchID) err), s)
                | (None, s) \<Rightarrow> (None, s))))"

definition tier_batch ::
  "('s, 'a) Deps \<Rightarrow> tier_env \<Rightarrow> Batch \<Rightarrow> TierResult \<times> ('s, 'a) World \<Rightarrow> TierResult \<times> ('s, 'a) World" where
  "tier_batch dp env b st =
     (case st_GetRecordsByBatchID (dp_store dp) (W_store (snd st)) (B_ID b) of
        Inl err \<Rightarrow> tier_fail (dp_http dp) (tn_reports env 0) (B_ID b)
                     (Wrapf (''failed to get records for batch '' @ B_ID b) err) st
      | Inr records \<Rightarrow>
          (case marshal_lines (dp_http dp) (tn_reports env) (B_ID b) records [] 0 st of
             (buf, n, res, w) \<Rightarrow>
               (case ar_PutArchive (dp_archive dp) (W_archive w) (B_ID b) (bytes_of buf) of
                  (Some err, a) \<Rightarrow> tier_fail (dp_http dp) (tn_reports env n) (B_ID b)
                     (Wrapf (''failed to put archive for batch '' @ B_ID b @ '' to WORM'') err) (res, w\<lparr>W_archive := a\<rparr>)
                | (None, a) \<Rightarrow>
                    (case purge_batch (dp_store dp) (tn_now env) (B_ID b) (W_store w) of
                       (Some err, s) \<Rightarrow> tier_fail (dp_http dp) (tn_reports env n) (B_ID b) err
                                          (res, w\<lparr>W_archive := a, W_store := s\<rparr>)
                     | (None, s) \<Rightarrow>
                         (res\<lparr>TR_BatchesTiered := TR_BatchesTiered res + 1,
                              TR_RecordsPurged := TR_RecordsPurged res + int (length records)\<rparr>,
                          w\<lparr>W_archive := a, W_store := s\<rparr>)))))"

fun tier_batches ::
  "('s, 'a) Deps \<Rightarrow> (tier_env \<times> Batch) list \<Rightarrow> TierResult \<times> ('s, 'a) World \<Rightarrow> TierResult \<times> ('s, 'a) World" where
  "tier_batches dp [] st = st"
| "tier_batches dp ((env, b) # rest) st = tier_batches dp rest (tier_batch dp env b st)"

definition RunOnce ::
  "('s, 'a) Deps \<Rightarrow> duration \<Rightarrow> time \<Rightarrow> (nat \<Rightarrow> tier_env) \<Rightarrow> ('s, 'a) World \<Rightarrow> TierResult result \<times> ('s, 'a) World" where
  "RunOnce dp window now envs w =
     (case st_GetBatchesForTiering (dp_store dp) (W_store w) (now - window) of
        Inl err \<Rightarrow> (Inl (Wrapf ''failed to query batches for tiering'' err), w)
      | Inr batches \<Rightarrow>
          (case tier_batches dp (map (\<lambda>(i, b). (envs i, b)) (enumerate 0 batches))
                  (\<lparr>TR_BatchesTiered = 0, TR_RecordsPurged = 0, TR_Errors = []\<rparr>, w) of
             (res, w) \<Rightarrow> (Inr res, w)))"

section \<open>The object written for a batch\<close>

definition json_line :: "Record \<Rightarrow> string" where
  "json_line r = (case marshal_record r of Inl _ \<Rightarrow> [] | Inr t \<Rightarrow> t @ [LF])"

definition jsonl :: "Record list \<Rightarrow> string" where
  "jsonl rs = concat (map json_line rs)"

lemma jsonl_line:
  assumes "marshal_record r = Inr line" "r \<in> set rs"
  shows "\<exists>pre post. jsonl rs = pre @ line @ [LF] @ post"
proof -
  obtain as bs where "rs = as @ r # bs" using assms(2) split_list by fast
  then have "jsonl rs = jsonl as @ line @ [LF] @ jsonl bs" using assms(1) by (simp add: jsonl_def json_line_def)
  then show ?thesis by blast
qed

lemma tier_fail_frame [simp]:
  "W_store (snd (tier_fail h env i err st)) = W_store (snd st)"
  "W_archive (snd (tier_fail h env i err st)) = W_archive (snd st)"
  "fst (tier_fail h env i err st) = (fst st)\<lparr>TR_Errors := TR_Errors (fst st) @ [err]\<rparr>"
  by (auto simp: tier_fail_def reportFailure_def split: prod.splits)

lemma marshal_lines_spec:
  "marshal_lines h envs i rs buf n st = (buf', n', st') \<Longrightarrow>
     buf' = buf @ jsonl rs \<and> W_store (snd st') = W_store (snd st) \<and> W_archive (snd st') = W_archive (snd st)
     \<and> (\<exists>es. fst st' = (fst st)\<lparr>TR_Errors := TR_Errors (fst st) @ es\<rparr>
          \<and> (es = [] \<longleftrightarrow> list_all (\<lambda>r. \<exists>t. marshal_record r = Inr t) rs))"
proof (induction rs arbitrary: buf n st)
  case (Cons r rs)
  show ?case
  proof (cases "marshal_record r")
    case (Inl err)
    with Cons show ?thesis by (fastforce simp: jsonl_def json_line_def)
  next
    case (Inr t)
    with Cons show ?thesis by (fastforce simp: jsonl_def json_line_def)
  qed
qed (auto simp: jsonl_def intro: exI [of _ "[]"])

text \<open>The two outcomes of the work on a batch: stopped with the store as it was, or archived.\<close>

lemma tier_batch_cases [consumes 1, case_names stopped archived]:
  assumes "tier_batch dp env b st = st'"
  obtains (stopped) err es where "W_store (snd st') = W_store (snd st)"
      "W_archive (snd st') = W_archive (snd st) \<or>
       (\<exists>e d. ar_PutArchive (dp_archive dp) (W_archive (snd st)) (B_ID b) d = (Some e, W_archive (snd st')))"
      "fst st' = (fst st)\<lparr>TR_Errors := TR_Errors (fst st) @ es @ [err]\<rparr>"
    | (archived) rs e es where "st_GetRecordsByBatchID (dp_store dp) (W_store (snd st)) (B_ID b) = Inr rs"
      "ar_PutArchive (dp_archive dp) (W_archive (snd st)) (B_ID b) (bytes_of (jsonl rs)) = (None, W_archive (snd st'))"
      "purge_batch (dp_store dp) (tn_now env) (B_ID b) (W_store (snd st)) = (e, W_store (snd st'))"
      "es = [] \<longleftrightarrow> list_all (\<lambda>r. \<exists>t. marshal_record r = Inr t) rs"
      "fst st' = (case e of
          Some err \<Rightarrow> (fst st)\<lparr>TR_Errors := TR_Errors (fst st) @ es @ [err]\<rparr>
        | None \<Rightarrow> \<lparr>TR_BatchesTiered = TR_BatchesTiered (fst st) + 1,
                   TR_RecordsPurged = TR_RecordsPurged (fst st) + int (length rs), TR_Errors = TR_Errors (fst st) @ es\<rparr>)"
proof (cases "st_GetRecordsByBatchID (dp_store dp) (W_store (snd st)) (B_ID b)")
  case (Inl err)
  then show ?thesis using assms stopped [of "[]"] by (auto simp: tier_batch_def)
next
  case (Inr rs)
  obtain buf n res w where m: "marshal_lines (dp_http dp) (tn_reports env) (B_ID b) rs [] 0 st = (buf, n, res, w)"
    using prod_cases4 by blast
  then obtain es where ms: "buf = jsonl rs" "W_store w = W_store (snd st)" "W_archive w = W_archive (snd st)"
      "res = (fst st)\<lparr>TR_Errors := TR_Errors (fst st) @ es\<rparr>"
      "es = [] \<longleftrightarrow> list_all (\<lambda>r. \<exists>t. marshal_record r = Inr t) rs"
    using marshal_lines_spec [OF m] by auto
  obtain e a where p: "ar_PutArchive (dp_archive dp) (W_archive (snd st)) (B_ID b) (bytes_of (jsonl rs)) = (e, a)" by fastforce
  show ?thesis
  proof (cases e)
    case (Some err)
    then show ?thesis using assms Inr m ms p by (intro stopped [of es]) (auto simp: tier_batch_def)
  next
    case None
    obtain e' s where q: "purge_batch (dp_store dp) (tn_now env) (B_ID b) (W_store (snd st)) = (e', s)" by fastforce
    have "W_archive (snd st') = a \<and> W_store (snd st') = s \<and> fst st' = (case e' of
          Some err \<Rightarrow> (fst st)\<lparr>TR_Errors := TR_Errors (fst st) @ es @ [err]\<rparr>
        | None \<Rightarrow> \<lparr>TR_BatchesTiered = TR_BatchesTiered (fst st) + 1,
                   TR_RecordsPurged = TR_RecordsPurged (fst st) + int (length rs), TR_Errors = TR_Errors (fst st) @ es\<rparr>)"
      using assms Inr m ms p q None by (auto simp: tier_batch_def split: option.splits)
    then show ?thesis using Inr p q None ms by (intro archived) simp_all
  qed
qed

lemma purge_preserves:
  assumes "purge_batch S now i s = (e, s')" "P s"
    and "\<And>s x e s'. P s \<Longrightarrow> st_InsertWORMIndex S s x = (e, s') \<Longrightarrow> P s'"
    and "\<And>s e s'. P s \<Longrightarrow> st_DeleteRecordsByBatchID S s i = (e, s') \<Longrightarrow> P s'"
    and "\<And>s st k e s'. P s \<Longrightarrow> st_UpdateBatchStatus S s i st k = (e, s') \<Longrightarrow> P s'"
  shows "P s'"
proof -
  obtain e1 s1 where 1: "st_InsertWORMIndex S s \<lparr>W_BatchID = i, W_WORMObjectKey = archive_key i,
      W_TieredAt = now, W_PurgedFromPostgresAt = Some now\<rparr> = (e1, s1)" by fastforce
  obtain e2 s2 where 2: "st_DeleteRecordsByBatchID S s1 i = (e2, s2)" by fastforce
  obtain e3 s3 where 3: "st_UpdateBatchStatus S s2 i ''archived'' (Some (archive_key i)) = (e3, s3)" by fastforce
  have "P s1" "P s2" "P s3" using assms(2) assms(3) [OF _ 1] assms(4) [OF _ 2] assms(5) [OF _ 3] by blast+
  then show ?thesis using assms(1) 1 2 3 by (auto simp: purge_batch_def split: option.splits)
qed

section \<open>What the service needs of a store\<close>

text \<open>\<open>named\<close> are the identifiers of batches as the store itself writes them.\<close>

locale retention_store = store_contract S s_inv storable sealable
  for S :: "'s StoreI" and s_inv :: "'s \<Rightarrow> bool" and storable :: "Record \<Rightarrow> bool" and sealable :: "Batch \<Rightarrow> bool" +
  fixes named :: "string \<Rightarrow> bool"
  assumes worm_inv: "s_inv s \<Longrightarrow> st_InsertWORMIndex S s x = (e, s') \<Longrightarrow> s_inv s'"
    and worm_records: "st_InsertWORMIndex S s x = (e, s') \<Longrightarrow> st_GetRecord S s' rid = st_GetRecord S s rid"
    and delete_inv: "s_inv s \<Longrightarrow> st_DeleteRecordsByBatchID S s i = (e, s') \<Longrightarrow> s_inv s'"
    and delete_others: "st_DeleteRecordsByBatchID S s i = (e, s') \<Longrightarrow> s_inv s \<Longrightarrow> st_GetRecord S s rid = Inr r \<Longrightarrow>
      named i \<Longrightarrow> R_BatchID r \<noteq> i \<Longrightarrow> st_GetRecord S s' rid = Inr r"
    and status_inv: "s_inv s \<Longrightarrow> st_UpdateBatchStatus S s i st k = (e, s') \<Longrightarrow> s_inv s'"
    and status_records: "st_UpdateBatchStatus S s i st k = (e, s') \<Longrightarrow> st_GetRecord S s' rid = st_GetRecord S s rid"
    and listed: "s_inv s \<Longrightarrow> st_GetRecord S s rid = Inr r \<Longrightarrow> st_GetRecordsByBatchID S s (R_BatchID r) = Inr rs \<Longrightarrow> r \<in> set rs"
    and due_named: "s_inv s \<Longrightarrow> st_GetBatchesForTiering S s t = Inr bs \<Longrightarrow> b \<in> set bs \<Longrightarrow> named (B_ID b)"
begin

lemma purge_inv: "s_inv s \<Longrightarrow> purge_batch S now i s = (e, s') \<Longrightarrow> s_inv s'"
  using purge_preserves [where P = s_inv] worm_inv delete_inv status_inv by blast

lemma purge_others:
  assumes "s_inv s" "purge_batch S now i s = (e, s')" "st_GetRecord S s rid = Inr r" "named i" "R_BatchID r \<noteq> i"
  shows "st_GetRecord S s' rid = Inr r"
proof -
  have "s_inv s' \<and> st_GetRecord S s' rid = Inr r"
  proof (rule purge_preserves [OF assms(2)])
    show "s_inv s \<and> st_GetRecord S s rid = Inr r" using assms by blast
  next
    fix s x e s' assume "s_inv s \<and> st_GetRecord S s rid = Inr r" "st_InsertWORMIndex S s x = (e, s')"
    then show "s_inv s' \<and> st_GetRecord S s' rid = Inr r" using worm_inv [of s x e s'] worm_records [of s x e s' rid] by simp
  next
    fix s e s' assume "s_inv s \<and> st_GetRecord S s rid = Inr r" "st_DeleteRecordsByBatchID S s i = (e, s')"
    then show "s_inv s' \<and> st_GetRecord S s' rid = Inr r" using delete_inv delete_others [OF _ _ _ assms(4,5)] by blast
  next
    fix s st k e s' assume "s_inv s \<and> st_GetRecord S s rid = Inr r" "st_UpdateBatchStatus S s i st k = (e, s')"
    then show "s_inv s' \<and> st_GetRecord S s' rid = Inr r" using status_inv [of s i st k e s'] status_records [of s i st k e s' rid] by simp
  qed
  then show ?thesis ..
qed

end

text \<open>A record is still in the store, or in the archived object of its batch.\<close>

definition kept :: "'s StoreI \<Rightarrow> 'a ArchiveI \<Rightarrow> string \<Rightarrow> Record \<Rightarrow> ('s, 'a) World \<Rightarrow> bool" where
  "kept S A rid r w \<longleftrightarrow> st_GetRecord S (W_store w) rid = Inr r
     \<or> (\<exists>rs. r \<in> set rs \<and> ar_Get A (W_archive w) (archive_key (R_BatchID r)) = Inr (bytes_of (jsonl rs)))"

locale retention_system =
  retention_store S s_inv storable sealable named + archive_contract A a_inv
  for S :: "'s StoreI" and s_inv :: "'s \<Rightarrow> bool" and storable :: "Record \<Rightarrow> bool" and sealable :: "Batch \<Rightarrow> bool"
    and named :: "string \<Rightarrow> bool" and A :: "'a ArchiveI" and a_inv :: "'a \<Rightarrow> bool" +
  fixes dp :: "('s, 'a) Deps"
  assumes deps: "dp_store dp = S" "dp_archive dp = A"
begin

lemma tier_batch_keeps:
  assumes "tier_batch dp env b st = st'" "s_inv (W_store (snd st))" "a_inv (W_archive (snd st))"
    "safe_id (R_BatchID r)" "kept S A rid r (snd st)" "named (B_ID b)"
  shows "s_inv (W_store (snd st')) \<and> a_inv (W_archive (snd st')) \<and> kept S A rid r (snd st')"
  using assms(1)
proof (cases rule: tier_batch_cases)
  case (stopped err es)
  then show ?thesis using assms(2,3,5) put_archive_inv put_archive_keeps unfolding kept_def deps by metis
next
  case (archived rs e es)
  have inv: "s_inv (W_store (snd st'))" "a_inv (W_archive (snd st'))"
    using archived assms(2,3) purge_inv put_archive_inv unfolding deps by blast+
  have "kept S A rid r (snd st')"
  proof (cases "\<exists>rs. r \<in> set rs \<and> ar_Get A (W_archive (snd st)) (archive_key (R_BatchID r)) = Inr (bytes_of (jsonl rs))")
    case True
    then show ?thesis using archived(2) put_archive_keeps [OF assms(3)] unfolding kept_def deps by blast
  next
    case False
    then have g: "st_GetRecord S (W_store (snd st)) rid = Inr r" using assms(5) by (auto simp: kept_def)
    show ?thesis
    proof (cases "R_BatchID r = B_ID b")
      case True
      then have "r \<in> set rs" using listed [OF assms(2) g] archived(1) deps by simp
      with True archived(2) put_archive_get [OF assms(3,4)] deps show ?thesis by (auto simp: kept_def)
    next
      case False
      with purge_others [OF assms(2) _ g assms(6)] archived(3) deps show ?thesis by (auto simp: kept_def)
    qed
  qed
  with inv show ?thesis by blast
qed

lemma tier_batches_keep:
  assumes "tier_batches dp evs st = st'" "s_inv (W_store (snd st))" "a_inv (W_archive (snd st))"
    "safe_id (R_BatchID r)" "kept S A rid r (snd st)" "list_all (\<lambda>(env, b). named (B_ID b)) evs"
  shows "s_inv (W_store (snd st')) \<and> a_inv (W_archive (snd st')) \<and> kept S A rid r (snd st')"
  using assms
proof (induction evs arbitrary: st)
  case (Cons ev evs)
  then show ?case using tier_batch_keeps [OF refl Cons.prems(2-5)] by (cases ev) simp
qed simp

lemma RunOnce_keeps:
  assumes "RunOnce dp window now envs w = (res, w')" "s_inv (W_store w)" "a_inv (W_archive w)"
    "safe_id (R_BatchID r)" "st_GetRecord S (W_store w) rid = Inr r"
  shows "kept S A rid r w'"
proof -
  have k: "kept S A rid r w" using assms(5) by (simp add: kept_def)
  show ?thesis
  proof (cases "st_GetBatchesForTiering S (W_store w) (now - window)")
    case (Inr bs)
    let ?evs = "map (\<lambda>(i, b). (envs i, b)) (enumerate 0 bs)"
    have "list_all (\<lambda>(env, b). named (B_ID b)) ?evs"
      using due_named [OF assms(2) Inr] by (auto simp: list_all_iff in_set_enumerate_eq)
    then have "kept S A rid r (snd (tier_batches dp ?evs (res0, w)))" for res0
      using tier_batches_keep [OF refl, of "(res0, w)" r rid ?evs] k assms(2-4) by simp
    with Inr assms(1) show ?thesis by (auto simp: RunOnce_def deps case_prod_unfold)
  qed (use k assms(1) in \<open>simp add: RunOnce_def deps\<close>)
qed

text \<open>Once the archive holds the object of a batch, tiering the batch again never gets past it.\<close>

lemma tier_batch_stuck:
  assumes "tier_batch dp env b st = st'" "a_inv (W_archive (snd st))" "safe_id (B_ID b)"
    "ar_Get A (W_archive (snd st)) (archive_key (B_ID b)) = Inr c"
  shows "W_store (snd st') = W_store (snd st) \<and> TR_Errors (fst st') \<noteq> TR_Errors (fst st)
    \<and> TR_BatchesTiered (fst st') = TR_BatchesTiered (fst st)"
  using assms(1)
proof (cases rule: tier_batch_cases)
  case (archived rs e es)
  then show ?thesis using put_archive_refused [OF assms(2-4)] deps by blast
qed auto

end

lemma ms_update_status_inv:
  "ms_inv m \<Longrightarrow> ms_inv (snd (ms_UpdateBatchStatus m i st k))"
proof (cases "map_of (MS_batches m) i")
  case (Some b)
  assume m: "ms_inv m"
  then have "B_ID b = i" using map_of_SomeD [OF Some] by (auto simp: ms_inv_def list_all_iff)
  with m Some show ?thesis
    by (simp add: ms_UpdateBatchStatus_def ms_inv_def Let_def list_all_update distinct_update)
qed (simp add: ms_UpdateBatchStatus_def)

interpretation mr: retention_store memory_store ms_inv "\<lambda>_. True" "\<lambda>_. True" "\<lambda>_. True"
proof unfold_locales
  fix m x e m' assume "ms_inv m" "st_InsertWORMIndex memory_store m x = (e, m')"
  then show "ms_inv m'"
    by (auto simp: memory_store_def ms_InsertWORMIndex_def ms_inv_def distinct_update list_all_update)
next
  fix m x e m' rid assume "st_InsertWORMIndex memory_store m x = (e, m')"
  then show "st_GetRecord memory_store m' rid = st_GetRecord memory_store m rid"
    by (auto simp: memory_store_def ms_InsertWORMIndex_def ms_GetRecord_def)
next
  fix m i e m' assume "ms_inv m" "st_DeleteRecordsByBatchID memory_store m i = (e, m')"
  then show "ms_inv m'"
    by (auto simp: memory_store_def ms_DeleteRecordsByBatchID_def ms_inv_def list_all_iff distinct_map_filter)
next
  fix m i e m' rid r
  assume "st_DeleteRecordsByBatchID memory_store m i = (e, m')" "ms_inv m" "st_GetRecord memory_store m rid = Inr r" "R_BatchID r \<noteq> i"
  then show "st_GetRecord memory_store m' rid = Inr r"
    by (auto simp: memory_store_def ms_DeleteRecordsByBatchID_def ms_GetRecord_def ms_inv_def distinct_map_filter
        split: option.splits)
next
  fix m i st k e m' assume "ms_inv m" "st_UpdateBatchStatus memory_store m i st k = (e, m')"
  then show "ms_inv m'" using ms_update_status_inv [of m i st k] by (simp add: memory_store_def)
next
  fix m i st k e m' rid assume "st_UpdateBatchStatus memory_store m i st k = (e, m')"
  then show "st_GetRecord memory_store m' rid = st_GetRecord memory_store m rid"
    by (auto simp: memory_store_def ms_UpdateBatchStatus_def ms_GetRecord_def Let_def split: option.splits)
next
  fix m rid r rs
  assume "st_GetRecord memory_store m rid = Inr r" "st_GetRecordsByBatchID memory_store m (R_BatchID r) = Inr rs"
  then show "r \<in> set rs"
    by (auto simp: memory_store_def ms_GetRecord_def ms_GetRecordsByBatchID_def image_iff split: option.splits
        dest!: map_of_SomeD intro!: bexI [of _ "(rid, r)"])
qed simp

definition memory_deps :: "(bytes \<Rightarrow> (bytes \<times> string) result) \<Rightarrow> http_api \<Rightarrow> (MemoryStore, LocalDirArchiveStore) Deps" where
  "memory_deps sg h = \<lparr>dp_store = memory_store, dp_archive = local_dir_archive, dp_sign = sg, dp_http = h\<rparr>"

interpretation mrs: retention_system memory_store ms_inv "\<lambda>_. True" "\<lambda>_. True" "\<lambda>_. True" local_dir_archive ld_inv "memory_deps sg h" for sg h
  by unfold_locales (simp_all add: memory_deps_def)

section \<open>Properties\<close>

text \<open>
  What \<open>json.Marshal\<close> accepts: every record that can be hashed, as all records of a sealed batch can, and
  was committed in a year of at most four digits.
\<close>

lemma marshal_hashable:
  assumes "record_leaf r = Inr h" "year_ok (R_CommittedAt r)"
  shows "\<exists>line. marshal_record r = Inr line"
proof -
  have "\<exists>t. marshal_payload (normalize_payload (record_payload r)) = Inr t"
    using assms(1) by (auto simp: record_leaf_def ComputeRecordLeafHash_def canonical_bytes_def)
  moreover have "P_PrimaryKey (normalize_payload (record_payload r)) = R_PrimaryKey r"
    "P_BeforeImage (normalize_payload (record_payload r)) = R_BeforeImage r"
    "P_AfterImage (normalize_payload (record_payload r)) = R_AfterImage r"
    by (simp_all add: normalize_payload_def record_payload_def split: option.split)
  ultimately show ?thesis using assms(2) by (auto simp: marshal_payload_def marshal_record_def marshal_time_def)
qed

text \<open>
  C3: With the in-memory store and the directory archive, tiering loses no record that \<open>json.Marshal\<close>
  accepts. Whatever batches a run picks and whichever system call of the archive fails, \<open>Stat\<close> excepted
  (\<open>ld_inv\<close>), a record that was in the store and that \<open>json.Marshal\<close> accepts is afterwards still
  in the store, or the archive holds, under the key of its batch, an object of which the JSON text
  of the record is a line. \<open>marshal_hashable\<close> says which records these are; one that \<open>json.Marshal\<close>
  rejects is lost (\<open>unmarshalled_record_lost\<close>).
\<close>

theorem RunOnce_no_loss:
  assumes "RunOnce (memory_deps sg h) window now envs w = (res, w')"
    and "ms_inv (W_store w)" "ld_inv (W_archive w)" "safe_id (R_BatchID r)" "ms_GetRecord (W_store w) rid = Inr r"
    and "marshal_record r = Inr line"
  shows "ms_GetRecord (W_store w') rid = Inr r
    \<or> (\<exists>pre post. Get (W_archive w') (archive_key (R_BatchID r)) = Inr (bytes_of (pre @ line @ [LF] @ post)))"
proof -
  have "st_GetRecord memory_store (W_store w) rid = Inr r" using assms(5) by (simp add: memory_store_def)
  from mrs.RunOnce_keeps [OF assms(1-4) this] have "ms_GetRecord (W_store w') rid = Inr r
      \<or> (\<exists>rs. r \<in> set rs \<and> Get (W_archive w') (archive_key (R_BatchID r)) = Inr (bytes_of (jsonl rs)))"
    by (simp add: kept_def memory_store_def local_dir_archive_def)
  with jsonl_line [OF assms(6)] show ?thesis by metis
qed

text \<open>
  A failure after the archive object is written cannot be repaired by running again: with the
  object of the batch in the archive, every later attempt at the batch adds an error, leaves its
  records in the store and does not count it as tiered.
\<close>

theorem tiering_stuck_once_archived:
  assumes "tier_batch (memory_deps sg h) env b (res, w) = (res', w')"
    and "ld_inv (W_archive w)" "safe_id (B_ID b)" "Get (W_archive w) (archive_key (B_ID b)) = Inr c"
  shows "W_store w' = W_store w \<and> TR_Errors res' \<noteq> TR_Errors res \<and> TR_BatchesTiered res' = TR_BatchesTiered res"
proof -
  have "ar_Get local_dir_archive (W_archive w) (archive_key (B_ID b)) = Inr c" using assms(4) by (simp add: local_dir_archive_def)
  with mrs.tier_batch_stuck [OF assms(1)] assms(2,3) show ?thesis by simp
qed

lemma memory_deps_simps [simp]:
  "dp_store (memory_deps sg h) = memory_store" "dp_archive (memory_deps sg h) = local_dir_archive"
  by (simp_all add: memory_deps_def)

lemma purge_batch_memory:
  assumes "purge_batch memory_store now i m = (None, m')"
  shows "MS_records m' = filter (\<lambda>(id, r). R_BatchID r \<noteq> i) (MS_records m)
    \<and> (\<exists>b. map_of (MS_batches m) i = Some b \<and> MS_batches m' =
         AList.update i (b\<lparr>B_Status := ''archived'', B_WORMObjectKey := Some (archive_key i)\<rparr>) (MS_batches m))
    \<and> map_of (MS_wormIndex m') i = Some \<lparr>W_BatchID = i, W_WORMObjectKey = archive_key i,
         W_TieredAt = now, W_PurgedFromPostgresAt = Some now\<rparr>"
  using assms by (auto simp: purge_batch_def memory_store_def ms_InsertWORMIndex_def ms_DeleteRecordsByBatchID_def
      ms_UpdateBatchStatus_def Let_def update_conv' split: option.splits)

lemma tier_batch_counted:
  assumes "tier_batch dp env b (res, w) = (res', w')" "TR_BatchesTiered res' \<noteq> TR_BatchesTiered res"
  obtains rs where "st_GetRecordsByBatchID (dp_store dp) (W_store w) (B_ID b) = Inr rs"
    "ar_PutArchive (dp_archive dp) (W_archive w) (B_ID b) (bytes_of (jsonl rs)) = (None, W_archive w')"
    "purge_batch (dp_store dp) (tn_now env) (B_ID b) (W_store w) = (None, W_store w')"
    "TR_BatchesTiered res' = TR_BatchesTiered res + 1" "TR_RecordsPurged res' = TR_RecordsPurged res + int (length rs)"
  using assms(1)
proof (cases rule: tier_batch_cases)
  case (archived rs e es)
  then show ?thesis using that [of rs] assms(2) by (cases e) auto
qed (use assms(2) in auto)

text \<open>
  What counting a batch as tiered means: its records, in leaf order, are in the archive one JSON
  line each, none of them is left in the store, the index entry and the status of the batch
  point to the object, and the counters have grown by one batch and by its number of records.
\<close>

theorem tier_batch_success:
  assumes "tier_batch (memory_deps sg h) env b (res, w) = (res', w')" "TR_BatchesTiered res' \<noteq> TR_BatchesTiered res"
    and "ms_GetRecordsByBatchID (W_store w) (B_ID b) = Inr rs" "ld_inv (W_archive w)" "safe_id (B_ID b)"
  shows "Get (W_archive w') (archive_key (B_ID b)) = Inr (bytes_of (jsonl rs))
    \<and> ms_GetRecordsByBatchID (W_store w') (B_ID b) = Inr []
    \<and> (\<exists>e. ms_GetWORMIndex (W_store w') (B_ID b) = Inr e \<and> W_WORMObjectKey e = archive_key (B_ID b))
    \<and> (\<exists>b'. ms_GetBatch (W_store w') (B_ID b) = Inr b' \<and> B_Status b' = ''archived''
          \<and> B_WORMObjectKey b' = Some (archive_key (B_ID b)))
    \<and> TR_BatchesTiered res' = TR_BatchesTiered res + 1 \<and> TR_RecordsPurged res' = TR_RecordsPurged res + int (length rs)"
proof -
  obtain rs' where rs': "st_GetRecordsByBatchID memory_store (W_store w) (B_ID b) = Inr rs'"
    "ar_PutArchive local_dir_archive (W_archive w) (B_ID b) (bytes_of (jsonl rs')) = (None, W_archive w')"
    "purge_batch memory_store (tn_now env) (B_ID b) (W_store w) = (None, W_store w')"
    "TR_BatchesTiered res' = TR_BatchesTiered res + 1" "TR_RecordsPurged res' = TR_RecordsPurged res + int (length rs')"
    using tier_batch_counted [OF assms(1,2)] by auto
  have "rs' = rs" using rs'(1) assms(3) by (simp add: memory_store_def)
  moreover have "Get (W_archive w') (archive_key (B_ID b)) = Inr (bytes_of (jsonl rs'))"
    using lda.put_archive_get [OF assms(4,5) rs'(2)] by (simp add: local_dir_archive_def)
  ultimately show ?thesis using purge_batch_memory [OF rs'(3)] rs'(4,5)
    by (auto simp: ms_GetRecordsByBatchID_def ms_GetWORMIndex_def ms_GetBatch_def update_conv' filter_empty_conv)
qed

text \<open>A record that cannot be marshalled is skipped by the archive and purged with its batch.\<close>

theorem unmarshalled_record_lost:
  assumes "tier_batch (memory_deps sg h) env b (res, w) = (res', w')" "TR_BatchesTiered res' \<noteq> TR_BatchesTiered res"
    and "ms_GetRecordsByBatchID (W_store w) (B_ID b) = Inr (rs @ r # rs')" "marshal_record r = Inl e"
    and "ld_inv (W_archive w)" "safe_id (B_ID b)"
  shows "Get (W_archive w') (archive_key (B_ID b)) = Inr (bytes_of (jsonl (rs @ rs')))
    \<and> ms_GetRecordsByBatchID (W_store w') (B_ID b) = Inr []"
  using tier_batch_success [OF assms(1-3,5,6)] assms(4) by (simp add: jsonl_def json_line_def)

lemma tier_batches_errors:
  "\<exists>es. TR_Errors (fst (tier_batches dp evs st)) = TR_Errors (fst st) @ es"
proof (induction evs arbitrary: st)
  case (Cons ev evs)
  obtain env b where ev: "ev = (env, b)" by (cases ev)
  have "\<exists>es. TR_Errors (fst (tier_batch dp env b st)) = TR_Errors (fst st) @ es"
    using refl [of "tier_batch dp env b st"] by (cases rule: tier_batch_cases) (auto split: option.splits)
  with Cons [of "tier_batch dp env b st"] ev show ?case by auto
qed simp

text \<open>The batches of the in-memory store that are due, and one error-free step on them.\<close>

definition due :: "time \<Rightarrow> MemoryStore \<Rightarrow> Batch set" where
  "due t m = {b. b \<in> snd ` set (MS_batches m) \<and> B_Status b = ''signed'' \<and> B_ClosedAt b < t}"

lemma tier_batch_clean:
  assumes "tier_batch (memory_deps sg h) env b st = st'" "TR_Errors (fst st') = TR_Errors (fst st)" "ms_inv (W_store (snd st))"
  shows "ms_inv (W_store (snd st')) \<and> due t (W_store (snd st')) \<subseteq> {x \<in> due t (W_store (snd st)). B_ID x \<noteq> B_ID b}
    \<and> TR_BatchesTiered (fst st') = TR_BatchesTiered (fst st) + 1
    \<and> TR_RecordsPurged (fst st') + int (length (MS_records (W_store (snd st'))))
        = TR_RecordsPurged (fst st) + int (length (MS_records (W_store (snd st))))"
  using assms(1)
proof (cases rule: tier_batch_cases)
  case (archived rs e es)
  let ?m = "W_store (snd st)" and ?m' = "W_store (snd st')"
  have e: "e = None" using archived(5) assms(2) by (cases e) auto
  then have p: "purge_batch memory_store (tn_now env) (B_ID b) ?m = (None, ?m')" using archived(3) by simp
  have inv: "ms_inv ?m'" using mr.purge_inv [OF assms(3) p] .
  obtain b' where b': "MS_batches ?m' =
      AList.update (B_ID b) (b'\<lparr>B_Status := ''archived'', B_WORMObjectKey := Some (archive_key (B_ID b))\<rparr>) (MS_batches ?m)"
    and recs: "MS_records ?m' = filter (\<lambda>(id, r). R_BatchID r \<noteq> B_ID b) (MS_records ?m)"
    using purge_batch_memory [OF p] by blast
  have "rs = sort_key R_MerkleLeafIndex (filter (\<lambda>r. R_BatchID r = B_ID b) (map snd (MS_records ?m)))"
    using archived(1) by (simp add: memory_store_def ms_GetRecordsByBatchID_def)
  then have "length rs + length (MS_records ?m') = length (MS_records ?m)"
    using sum_length_filter_compl [of "\<lambda>(id, r). R_BatchID r = B_ID b" "MS_records ?m"] recs
    by (simp add: filter_map comp_def case_prod_unfold)
  moreover have "due t ?m' \<subseteq> {x \<in> due t ?m. B_ID x \<noteq> B_ID b}"
  proof
    fix x assume x: "x \<in> due t ?m'"
    then obtain k where k: "(k, x) \<in> set (MS_batches ?m')" "B_Status x = ''signed''" "B_ClosedAt x < t"
      by (auto simp: due_def)
    have "map_of (MS_batches ?m') k = Some x" "B_ID x = k" using k(1) inv by (auto simp: ms_inv_def list_all_iff)
    then have "k \<noteq> B_ID b" "map_of (MS_batches ?m) k = Some x"
      using b' k(2) by (auto simp: update_conv' split: if_splits)
    then show "x \<in> {x \<in> due t ?m. B_ID x \<noteq> B_ID b}"
      using k \<open>B_ID x = k\<close> map_of_SomeD by (force simp: due_def)
  qed
  ultimately show ?thesis using inv archived(5) e by auto
qed (use assms(2) in auto)

lemma tier_batches_clean:
  assumes "TR_Errors (fst (tier_batches (memory_deps sg h) evs st)) = TR_Errors (fst st)" "ms_inv (W_store (snd st))"
  shows "due t (W_store (snd (tier_batches (memory_deps sg h) evs st)))
      \<subseteq> {x \<in> due t (W_store (snd st)). B_ID x \<notin> B_ID ` snd ` set evs}
    \<and> TR_BatchesTiered (fst (tier_batches (memory_deps sg h) evs st)) = TR_BatchesTiered (fst st) + int (length evs)
    \<and> TR_RecordsPurged (fst (tier_batches (memory_deps sg h) evs st))
        + int (length (MS_records (W_store (snd (tier_batches (memory_deps sg h) evs st)))))
      = TR_RecordsPurged (fst st) + int (length (MS_records (W_store (snd st))))"
  using assms
proof (induction evs arbitrary: st)
  case (Cons ev evs)
  obtain env b where ev: "ev = (env, b)" by (cases ev)
  let ?st = "tier_batch (memory_deps sg h) env b st"
  obtain es where "TR_Errors (fst ?st) = TR_Errors (fst st) @ es"
    using tier_batches_errors [of "memory_deps sg h" "[(env, b)]" st] by auto
  moreover obtain es' where "TR_Errors (fst (tier_batches (memory_deps sg h) evs ?st)) = TR_Errors (fst ?st) @ es'"
    using tier_batches_errors by blast
  ultimately have err: "TR_Errors (fst ?st) = TR_Errors (fst st)"
      "TR_Errors (fst (tier_batches (memory_deps sg h) evs ?st)) = TR_Errors (fst ?st)"
    using Cons.prems(1) ev by auto
  note step = tier_batch_clean [OF refl err(1) Cons.prems(2), of t]
  with Cons.IH [OF err(2)] ev show ?case by auto
qed auto

text \<open>
  C24: With the in-memory store, a run without errors is complete: afterwards no batch is due at the
  same cut-off, every batch that was due is counted as tiered, and the number of records counted as
  purged is exactly the number by which the store shrank. On Postgres this needs complete reads:
  \<open>broken_read_loses_records\<close> of \<open>PostgresSystem\<close> is a run without errors that purges more than it counts.
\<close>

theorem RunOnce_complete:
  assumes "RunOnce (memory_deps sg h) window now envs w = (Inr res, w')" "TR_Errors res = []" "ms_inv (W_store w)"
    and "ms_GetBatchesForTiering (W_store w) (now - window) = Inr batches"
  shows "ms_GetBatchesForTiering (W_store w') (now - window) = Inr []
    \<and> TR_BatchesTiered res = int (length batches)
    \<and> TR_RecordsPurged res = int (length (MS_records (W_store w))) - int (length (MS_records (W_store w')))"
proof -
  let ?evs = "map (\<lambda>(i, b). (envs i, b)) (enumerate 0 batches)"
  let ?st = "(\<lparr>TR_BatchesTiered = 0, TR_RecordsPurged = 0, TR_Errors = []\<rparr>, w)"
  have run: "tier_batches (memory_deps sg h) ?evs ?st = (res, w')"
    using assms(1,4) by (auto simp: RunOnce_def memory_store_def split: prod.splits)
  have due: "due (now - window) m = set (filter (\<lambda>b. B_Status b = ''signed'' \<and> B_ClosedAt b < now - window) (map snd (MS_batches m)))" for m
    by (auto simp: due_def)
  have "snd ` set ?evs = set batches"
    by (metis (no_types, lifting) case_prod_beta comp_apply length_map list.map_comp list.set_map map_eq_conv map_snd_enumerate snd_conv)
  moreover have "due (now - window) (W_store w) = set batches"
    unfolding due using assms(4) by (simp only: ms_GetBatchesForTiering_def sum.inject)
  ultimately have "due (now - window) (W_store w') = {}"
    using tier_batches_clean [of sg h ?evs ?st "now - window"] run assms(2,3) by auto
  then show ?thesis using tier_batches_clean [of sg h ?evs ?st "now - window"] run assms(2,3)
    by (simp add: due ms_GetBatchesForTiering_def filter_empty_conv)
qed

section \<open>A concrete run\<close>

definition sample_sealed :: Batch where
  "sample_sealed = \<lparr>B_ID = ''b1'', B_StartedAt = 0, B_ClosedAt = 1, B_EventCount = 1, B_MerkleRoot = [], B_Signature = [],
     B_KeyVersion = ''v1'', B_BinlogFile = [], B_BinlogPosition = 0, B_Status = ''signed'', B_WORMObjectKey = None,
     B_IsBootstrap = False, B_BootstrapTableName = None\<rparr>"

definition tier_record :: Record where
  "tier_record = (sample_record ''r1'')\<lparr>R_BatchID := ''b1''\<rparr>"

definition tier_world :: "(MemoryStore, LocalDirArchiveStore) World" where
  "tier_world = \<lparr>W_store = NewMemoryStore\<lparr>MS_batches := [(''b1'', sample_sealed)], MS_records := [(''r1'', tier_record)]\<rparr>,
     W_archive = empty_archive [], W_dispatcher = None\<rparr>"

definition sample_tier_env :: tier_env where
  "sample_tier_env = \<lparr>tn_now = 200, tn_reports = (\<lambda>_. sample_env 0)\<rparr>"

definition tier_zero :: TierResult where
  "tier_zero = \<lparr>TR_BatchesTiered = 0, TR_RecordsPurged = 0, TR_Errors = []\<rparr>"

lemma tier_marshal: "\<exists>t. marshal_record tier_record = Inr t"
  by (simp add: marshal_record_def tier_record_def sample_record_def marshal_raw_def raw_field_def sample_raw marshal_time_def)

lemma tier_state: "ms_inv (W_store tier_world)" "ld_inv (W_archive tier_world)" "safe_id ''b1''"
  "ms_GetRecord (W_store tier_world) ''r1'' = Inr tier_record" "R_BatchID tier_record = ''b1''"
  "ms_GetRecordsByBatchID (W_store tier_world) ''b1'' = Inr [tier_record]"
  "ms_GetBatchesForTiering (W_store tier_world) 100 = Inr [sample_sealed]"
  using sample_state(4,5)
  by (simp_all add: tier_world_def ms_inv_def NewMemoryStore_def sample_sealed_def tier_record_def sample_record_def
      ms_GetRecord_def ms_GetRecordsByBatchID_def ms_GetBatchesForTiering_def)

lemma put_archive_b1: "\<exists>a. PutArchive (empty_archive []) ''b1'' d = (None, a)"
  by (simp add: archive_eval Let_def)

lemma tier_sample:
  "\<exists>w'. tier_batch (memory_deps sg h) sample_tier_env sample_sealed (tier_zero, tier_world)
     = (\<lparr>TR_BatchesTiered = 1, TR_RecordsPurged = 1, TR_Errors = []\<rparr>, w')"
proof -
  obtain t where t: "marshal_record tier_record = Inr t" using tier_marshal by blast
  obtain a where a: "PutArchive (empty_archive []) ''b1'' (bytes_of (t @ [LF])) = (None, a)" using put_archive_b1 by blast
  have p: "\<exists>s. purge_batch memory_store 200 ''b1'' (W_store tier_world) = (None, s)"
    by (simp add: purge_batch_def memory_store_def ms_InsertWORMIndex_def ms_DeleteRecordsByBatchID_def
        ms_UpdateBatchStatus_def Let_def tier_world_def)
  have "st_GetRecordsByBatchID memory_store (W_store tier_world) ''b1'' = Inr [tier_record]"
    using tier_state(6) by (simp add: memory_store_def)
  moreover have "B_ID sample_sealed = ''b1''" "W_archive tier_world = empty_archive []" "tn_now sample_tier_env = 200"
    by (simp_all add: sample_sealed_def tier_world_def sample_tier_env_def)
  ultimately show ?thesis using t a p
    by (auto simp: tier_batch_def tier_zero_def local_dir_archive_def)
qed

lemma RunOnce_sample:
  "\<exists>w'. RunOnce (memory_deps sg h) 100 200 (\<lambda>_. sample_tier_env) tier_world
     = (Inr \<lparr>TR_BatchesTiered = 1, TR_RecordsPurged = 1, TR_Errors = []\<rparr>, w')"
proof -
  have "st_GetBatchesForTiering memory_store (W_store tier_world) 100 = Inr [sample_sealed]"
    using tier_state(7) by (simp add: memory_store_def)
  then show ?thesis using tier_sample [of sg h] by (auto simp: RunOnce_def tier_zero_def)
qed

theorem RunOnce_no_loss_witness:
  "\<exists>res w' line. RunOnce (memory_deps (Sign toy_crypto (toy_keys ''v1'' [])) no_http) 100 200 (\<lambda>_. sample_tier_env) tier_world = (res, w')
     \<and> marshal_record tier_record = Inr line
     \<and> (ms_GetRecord (W_store w') ''r1'' = Inr tier_record
        \<or> (\<exists>pre post. Get (W_archive w') (archive_key ''b1'') = Inr (bytes_of (pre @ line @ [LF] @ post))))"
proof -
  obtain res w' where r: "RunOnce (memory_deps (Sign toy_crypto (toy_keys ''v1'' [])) no_http) 100 200 (\<lambda>_. sample_tier_env) tier_world = (res, w')"
    by fastforce
  obtain line where l: "marshal_record tier_record = Inr line" using tier_marshal by blast
  have i: "safe_id (R_BatchID tier_record)" using tier_state(3,5) by simp
  from RunOnce_no_loss [OF r tier_state(1,2) i tier_state(4) l] r l show ?thesis unfolding tier_state(5) by blast
qed

theorem tier_batch_success_witness:
  "\<exists>res' w'. tier_batch (memory_deps (Sign toy_crypto (toy_keys ''v1'' [])) no_http) sample_tier_env sample_sealed (tier_zero, tier_world) = (res', w')
     \<and> Get (W_archive w') (archive_key ''b1'') = Inr (bytes_of (jsonl [tier_record]))
     \<and> ms_GetRecordsByBatchID (W_store w') ''b1'' = Inr []"
proof -
  obtain res' w' where t: "tier_batch (memory_deps (Sign toy_crypto (toy_keys ''v1'' [])) no_http) sample_tier_env sample_sealed (tier_zero, tier_world)
      = (res', w')" "TR_BatchesTiered res' \<noteq> TR_BatchesTiered tier_zero"
    using tier_sample [of "Sign toy_crypto (toy_keys ''v1'' [])" no_http] by (auto simp: tier_zero_def)
  have b: "B_ID sample_sealed = ''b1''" by (simp add: sample_sealed_def)
  from tier_batch_success [OF t _ tier_state(2)] tier_state(3,6) t(1) show ?thesis unfolding b by blast
qed

theorem tiering_stuck_once_archived_witness:
  "\<exists>w' res'' w''. tier_batch (memory_deps (Sign toy_crypto (toy_keys ''v1'' [])) no_http) sample_tier_env sample_sealed (tier_zero, w') = (res'', w'')
     \<and> W_store w'' = W_store w' \<and> TR_Errors res'' \<noteq> []"
proof -
  obtain res' w' where t: "tier_batch (memory_deps (Sign toy_crypto (toy_keys ''v1'' [])) no_http) sample_tier_env sample_sealed (tier_zero, tier_world)
      = (res', w')" "TR_BatchesTiered res' \<noteq> TR_BatchesTiered tier_zero"
    using tier_sample [of "Sign toy_crypto (toy_keys ''v1'' [])" no_http] by (auto simp: tier_zero_def)
  obtain res'' w'' where u: "tier_batch (memory_deps (Sign toy_crypto (toy_keys ''v1'' [])) no_http) sample_tier_env sample_sealed (tier_zero, w') = (res'', w'')"
    by fastforce
  obtain rs where p: "ar_PutArchive local_dir_archive (W_archive tier_world) ''b1'' (bytes_of (jsonl rs)) = (None, W_archive w')"
    using tier_batch_counted [OF t] by (auto simp: sample_sealed_def)
  have "ld_inv (W_archive w')" "Get (W_archive w') (archive_key ''b1'') = Inr (bytes_of (jsonl rs))"
    using lda.put_archive_inv [OF tier_state(2) p] lda.put_archive_get [OF tier_state(2,3) p] by (simp_all add: local_dir_archive_def)
  with tiering_stuck_once_archived [OF u] u tier_state(3) show ?thesis by (auto simp: sample_sealed_def tier_zero_def)
qed

theorem RunOnce_complete_witness:
  "\<exists>res w'. RunOnce (memory_deps (Sign toy_crypto (toy_keys ''v1'' [])) no_http) 100 200 (\<lambda>_. sample_tier_env) tier_world = (Inr res, w')
     \<and> ms_GetBatchesForTiering (W_store w') 100 = Inr [] \<and> TR_RecordsPurged res = 1 - int (length (MS_records (W_store w')))"
proof -
  obtain w' where r: "RunOnce (memory_deps (Sign toy_crypto (toy_keys ''v1'' [])) no_http) 100 200 (\<lambda>_. sample_tier_env) tier_world
      = (Inr \<lparr>TR_BatchesTiered = 1, TR_RecordsPurged = 1, TR_Errors = []\<rparr>, w')" using RunOnce_sample by blast
  from RunOnce_complete [OF r _ tier_state(1)] tier_state(7) r show ?thesis by (auto simp: tier_world_def)
qed

end
