(* ===== verification/Postgres.thy ===== *)
theory Postgres
  imports Tiering
begin

text \<open>
  The PostgreSQL store of \<open>internal/store/store.go\<close>, over the tables of \<open>migrations/postgres\<close>.

  The server is the parameter \<open>pg_api\<close>: which texts, numbers and times a column accepts and
  what it gives back for them (a \<open>jsonb\<close> column has its own text for a value, a \<open>timestamptz\<close>
  column its own precision), and the errors it answers with. What the statements mean (keys,
  foreign keys, conditions, order, limits) is written out. The state also says what goes wrong:
  which statement fails, whether a failed statement took effect, after how many rows a
  connection breaks and which row cannot be scanned. The list of a table's rows stands for the order
  in which the server visits them, which SQL leaves open.

  The lemmas show that the store keeps the contracts of the batcher, the verifier and the retention
  job while its reads succeed, for batches and records it can give back; and what happens
  otherwise: a record whose JSON comes back in another order of keys does not verify, and a
  connection that breaks while the retention job reads makes it purge records it did not archive.
\<close>

section \<open>The server\<close>

record pg_api =
  pg_uuid :: "string \<Rightarrow> string result"
  pg_varchar :: "nat \<Rightarrow> string \<Rightarrow> string result"
  pg_text :: "string \<Rightarrow> string result"
  pg_jsonb :: "string \<Rightarrow> string result"
  pg_jsonb_eq :: "string \<Rightarrow> string \<Rightarrow> bool"
  pg_int4 :: "int \<Rightarrow> int result"
  pg_timestamptz :: "time \<Rightarrow> time result"
  pg_duplicate :: go_error
  pg_foreign_key :: go_error
  pg_negative_offset :: go_error

text \<open>The statements, with the key they are about.\<close>

datatype stmt =
    Begin
  | InsertBatch string
  | PrepareRecord
  | InsertRecord string
  | Commit
  | SelectBatch string
  | UpdateBatch string
  | SelectCheckpoint
  | SelectTiering
  | SelectBatches
  | SelectRecord string
  | SelectRecords string
  | SelectHistory string
  | DeleteRecords string
  | UpsertWorm string
  | SelectWorm string

text \<open>
  The tables, and the course of the statements: \<open>PG_fault\<close> is the error of a statement,
  \<open>PG_applied\<close> whether a statement that failed took effect all the same (the reply was lost),
  \<open>PG_cut\<close> the number of rows before the connection breaks (\<open>rows.Next\<close> then returns false, and no
  caller asks \<open>rows.Err\<close>), \<open>PG_scan\<close> the first row whose scan fails.
\<close>

record PgState =
  PG_batches :: "Batch list"
  PG_records :: "Record list"
  PG_worm :: "WORMIndexEntry list"
  PG_fault :: "stmt \<Rightarrow> go_error option"
  PG_applied :: "stmt \<Rightarrow> bool"
  PG_cut :: "stmt \<Rightarrow> nat option"
  PG_scan :: "stmt \<Rightarrow> (nat \<times> go_error) option"

definition exec :: "PgState \<Rightarrow> stmt \<Rightarrow> unit result" where
  "exec s q = (case PG_fault s q of None \<Rightarrow> Inr () | Some e \<Rightarrow> Inl e)"

text \<open>A single statement outside of a transaction, with its effect or the server's refusal.\<close>

definition autocommit :: "PgState \<Rightarrow> stmt \<Rightarrow> PgState result \<Rightarrow> go_error option \<times> PgState" where
  "autocommit s q effect =
     (case effect of
        Inl e \<Rightarrow> (Some e, s)
      | Inr s' \<Rightarrow> (case PG_fault s q of None \<Rightarrow> (None, s') | Some e \<Rightarrow> (Some e, if PG_applied s q then s' else s)))"

text \<open>The loop over the rows of a result.\<close>

definition scan_rows :: "PgState \<Rightarrow> stmt \<Rightarrow> string \<Rightarrow> 'a list \<Rightarrow> 'a list result" where
  "scan_rows s q msg rows =
     (let got = (case PG_cut s q of None \<Rightarrow> rows | Some n \<Rightarrow> take n rows) in
      case PG_scan s q of
        Some (n, e) \<Rightarrow> if n < length got then Inl (Wrapf msg e) else Inr got
      | None \<Rightarrow> Inr got)"

definition newest_first :: "('a \<Rightarrow> time) \<Rightarrow> 'a list \<Rightarrow> 'a list" where
  "newest_first f rows = sort_key (\<lambda>x. - f x) rows"

text \<open>\<open>LIMIT\<close> and \<open>OFFSET\<close>; the code replaces a limit that is not positive by 50.\<close>

definition page :: "pg_api \<Rightarrow> int \<Rightarrow> int \<Rightarrow> 'a list \<Rightarrow> 'a list result" where
  "page pg limit offset rows =
     (if offset < 0 then Inl (pg_negative_offset pg)
      else Inr (take (nat (if limit \<le> 0 then 50 else limit)) (drop (nat offset) rows)))"

definition nullable :: "('a \<Rightarrow> 'a result) \<Rightarrow> 'a option \<Rightarrow> 'a option result" where
  "nullable f v = (case v of None \<Rightarrow> Inr None | Some x \<Rightarrow> result_bind (f x) (\<lambda>y. Inr (Some y)))"

text \<open>A row of \<open>audit_batches\<close> as it comes back after it was inserted.\<close>

definition batch_row :: "pg_api \<Rightarrow> Batch \<Rightarrow> Batch result" where
  "batch_row pg b =
     result_bind (pg_uuid pg (B_ID b)) (\<lambda>i.
     result_bind (pg_timestamptz pg (B_StartedAt b)) (\<lambda>started.
     result_bind (pg_timestamptz pg (B_ClosedAt b)) (\<lambda>closed.
     result_bind (pg_int4 pg (B_EventCount b)) (\<lambda>events.
     result_bind (pg_varchar pg 64 (B_KeyVersion b)) (\<lambda>keyVersion.
     result_bind (pg_varchar pg 255 (B_BinlogFile b)) (\<lambda>binlogFile.
     result_bind (pg_varchar pg 32 (B_Status b)) (\<lambda>status.
     result_bind (nullable (pg_text pg) (B_WORMObjectKey b)) (\<lambda>wormKey.
     result_bind (nullable (pg_varchar pg 255) (B_BootstrapTableName b)) (\<lambda>bootTable.
       Inr \<lparr>B_ID = i, B_StartedAt = started, B_ClosedAt = closed, B_EventCount = events,
            B_MerkleRoot = B_MerkleRoot b, B_Signature = B_Signature b, B_KeyVersion = keyVersion,
            B_BinlogFile = binlogFile, B_BinlogPosition = B_BinlogPosition b, B_Status = status,
            B_WORMObjectKey = wormKey, B_IsBootstrap = B_IsBootstrap b, B_BootstrapTableName = bootTable\<rparr>)))))))))"

text \<open>
  A row of \<open>audit_records\<close>. An empty image is written as NULL and read as nil; the text of a
  \<open>jsonb\<close> value is never empty.
\<close>

definition image_column :: "pg_api \<Rightarrow> string \<Rightarrow> string result" where
  "image_column pg img = (if img = [] then Inr [] else pg_jsonb pg img)"

definition record_row :: "pg_api \<Rightarrow> Record \<Rightarrow> Record result" where
  "record_row pg r =
     result_bind (pg_uuid pg (R_ID r)) (\<lambda>i.
     result_bind (pg_uuid pg (R_BatchID r)) (\<lambda>batchID.
     result_bind (pg_varchar pg 255 (R_TableName r)) (\<lambda>table.
     result_bind (pg_jsonb pg (R_PrimaryKey r)) (\<lambda>pk.
     result_bind (pg_varchar pg 16 (R_EventType r)) (\<lambda>event.
     result_bind (image_column pg (R_BeforeImage r)) (\<lambda>before.
     result_bind (image_column pg (R_AfterImage r)) (\<lambda>after.
     result_bind (nullable (pg_varchar pg 255) (R_ActorUserID r)) (\<lambda>user.
     result_bind (pg_varchar pg 32 (R_ActorType r)) (\<lambda>actor.
     result_bind (pg_varchar pg 255 (R_TransactionID r)) (\<lambda>tx.
     result_bind (pg_varchar pg 64 (R_SchemaVersion r)) (\<lambda>schema.
     result_bind (pg_timestamptz pg (R_CommittedAt r)) (\<lambda>committed.
     result_bind (pg_int4 pg (R_MerkleLeafIndex r)) (\<lambda>index.
       Inr \<lparr>R_ID = i, R_BatchID = batchID, R_TableName = table, R_PrimaryKey = pk, R_EventType = event,
            R_BeforeImage = before, R_AfterImage = after, R_ActorUserID = user, R_ActorType = actor,
            R_TransactionID = tx, R_SchemaVersion = schema, R_CommittedAt = committed,
            R_MerkleLeafIndex = index\<rparr>)))))))))))))"

definition insert_batch :: "pg_api \<Rightarrow> Batch \<Rightarrow> PgState \<Rightarrow> PgState result" where
  "insert_batch pg b s =
     result_bind (exec s (InsertBatch (B_ID b))) (\<lambda>_.
     result_bind (batch_row pg b) (\<lambda>row.
       if B_ID row \<in> B_ID ` set (PG_batches s) then Inl (pg_duplicate pg)
       else Inr (s\<lparr>PG_batches := PG_batches s @ [row]\<rparr>)))"

definition insert_record :: "pg_api \<Rightarrow> Record \<Rightarrow> PgState \<Rightarrow> PgState result" where
  "insert_record pg r s =
     result_bind (exec s (InsertRecord (R_ID r))) (\<lambda>_.
     result_bind (record_row pg r) (\<lambda>row.
       if R_ID row \<in> R_ID ` set (PG_records s) then Inl (pg_duplicate pg)
       else if R_BatchID row \<notin> B_ID ` set (PG_batches s) then Inl (pg_foreign_key pg)
       else Inr (s\<lparr>PG_records := PG_records s @ [row]\<rparr>)))"

section \<open>PostgresStore\<close>

text \<open>The transaction; any error but the one of the commit itself rolls it back.\<close>

definition pg_CreateBatch :: "pg_api \<Rightarrow> PgState \<Rightarrow> Batch \<Rightarrow> Record list \<Rightarrow> go_error option \<times> PgState" where
  "pg_CreateBatch pg s batch records =
     (case
        result_bind (wrap_err ''failed to begin transaction'' (exec s Begin)) (\<lambda>_.
        result_bind (wrap_err ''failed to insert audit_batches'' (insert_batch pg batch s)) (\<lambda>tx.
        result_bind (wrap_err ''failed to prepare record insert stmt'' (exec s PrepareRecord)) (\<lambda>_.
          try_fold (\<lambda>r st. wrap_err (''failed to insert audit_record ('' @ R_ID r @ '')'') (insert_record pg r st)) records tx)))
      of
        Inl err \<Rightarrow> (Some err, s)
      | Inr tx \<Rightarrow>
          (case PG_fault s Commit of
             None \<Rightarrow> (None, tx)
           | Some err \<Rightarrow> (Some (Wrapf ''failed to commit batch transaction'' err), if PG_applied s Commit then tx else s)))"

definition pg_GetBatch :: "pg_api \<Rightarrow> PgState \<Rightarrow> string \<Rightarrow> Batch result" where
  "pg_GetBatch pg s batchID =
     (case wrap_err ''failed to get batch'' (result_bind (exec s (SelectBatch batchID)) (\<lambda>_. pg_uuid pg batchID)) of
        Inl err \<Rightarrow> Inl err
      | Inr key \<Rightarrow> (case find (\<lambda>b. B_ID b = key) (PG_batches s) of None \<Rightarrow> Inl ErrNotFound | Some b \<Rightarrow> Inr b))"

definition pg_UpdateBatchStatus ::
  "pg_api \<Rightarrow> PgState \<Rightarrow> string \<Rightarrow> string \<Rightarrow> string option \<Rightarrow> go_error option \<times> PgState" where
  "pg_UpdateBatchStatus pg s batchID status wormObjectKey =
     (case autocommit s (UpdateBatch batchID)
        (result_bind (pg_uuid pg batchID) (\<lambda>key.
         result_bind (pg_varchar pg 32 status) (\<lambda>status.
         result_bind (nullable (pg_text pg) wormObjectKey) (\<lambda>wormKey.
           Inr (s\<lparr>PG_batches := map (\<lambda>b. if B_ID b = key
                    then b\<lparr>B_Status := status,
                           B_WORMObjectKey := (case wormKey of None \<Rightarrow> B_WORMObjectKey b | Some _ \<Rightarrow> wormKey)\<rparr>
                    else b) (PG_batches s)\<rparr>))))) of
        (Some err, s') \<Rightarrow> (Some (Wrapf ''failed to update batch status'' err), s')
      | (None, s') \<Rightarrow>
          if \<exists>b \<in> set (PG_batches s). pg_uuid pg batchID = Inr (B_ID b) then (None, s') else (Some ErrNotFound, s'))"

definition pg_GetLatestCheckpoint :: "PgState \<Rightarrow> (string \<times> 32 word) result" where
  "pg_GetLatestCheckpoint s =
     (case exec s SelectCheckpoint of
        Inl err \<Rightarrow> Inl (Wrapf ''failed to get latest checkpoint'' err)
      | Inr _ \<Rightarrow>
          (case newest_first B_ClosedAt (PG_batches s) of
             [] \<Rightarrow> Inr ([], 0)
           | b # _ \<Rightarrow> Inr (B_BinlogFile b, B_BinlogPosition b)))"

definition pg_GetBatchesForTiering :: "pg_api \<Rightarrow> PgState \<Rightarrow> time \<Rightarrow> Batch list result" where
  "pg_GetBatchesForTiering pg s olderThan =
     result_bind (wrap_err ''failed to query batches for tiering''
        (result_bind (exec s SelectTiering) (\<lambda>_. pg_timestamptz pg olderThan))) (\<lambda>cutoff.
       scan_rows s SelectTiering ''failed to scan batch''
         (sort_key B_ClosedAt (filter (\<lambda>b. B_Status b = ''signed'' \<and> B_ClosedAt b < cutoff) (PG_batches s))))"

definition pg_ListBatches :: "pg_api \<Rightarrow> PgState \<Rightarrow> int \<Rightarrow> int \<Rightarrow> Batch list result" where
  "pg_ListBatches pg s limit offset =
     result_bind (wrap_err ''failed to list batches''
        (result_bind (exec s SelectBatches) (\<lambda>_. page pg limit offset (newest_first B_ClosedAt (PG_batches s)))))
       (scan_rows s SelectBatches ''failed to scan batch'')"

definition pg_GetRecord :: "pg_api \<Rightarrow> PgState \<Rightarrow> string \<Rightarrow> Record result" where
  "pg_GetRecord pg s recordID =
     (case wrap_err ''failed to get record'' (result_bind (exec s (SelectRecord recordID)) (\<lambda>_. pg_uuid pg recordID)) of
        Inl err \<Rightarrow> Inl err
      | Inr key \<Rightarrow> (case find (\<lambda>r. R_ID r = key) (PG_records s) of None \<Rightarrow> Inl ErrNotFound | Some r \<Rightarrow> Inr r))"

definition pg_GetRecordsByBatchID :: "pg_api \<Rightarrow> PgState \<Rightarrow> string \<Rightarrow> Record list result" where
  "pg_GetRecordsByBatchID pg s batchID =
     result_bind (wrap_err ''failed to query records by batch''
        (result_bind (exec s (SelectRecords batchID)) (\<lambda>_. pg_uuid pg batchID))) (\<lambda>key.
       scan_rows s (SelectRecords batchID) ''failed to scan record''
         (sort_key R_MerkleLeafIndex (filter (\<lambda>r. R_BatchID r = key) (PG_records s))))"

definition pg_GetRecordsByTableAndPK ::
  "pg_api \<Rightarrow> PgState \<Rightarrow> string \<Rightarrow> string \<Rightarrow> int \<Rightarrow> int \<Rightarrow> Record list result" where
  "pg_GetRecordsByTableAndPK pg s table primaryKey limit offset =
     result_bind (wrap_err ''failed to query records by table and pk''
        (result_bind (exec s (SelectHistory table)) (\<lambda>_.
         result_bind (pg_jsonb pg primaryKey) (\<lambda>pk.
           page pg limit offset (newest_first R_CommittedAt
             (filter (\<lambda>r. R_TableName r = table \<and> pg_jsonb_eq pg (R_PrimaryKey r) pk) (PG_records s)))))))
       (scan_rows s (SelectHistory table) ''failed to scan record'')"

definition pg_DeleteRecordsByBatchID :: "pg_api \<Rightarrow> PgState \<Rightarrow> string \<Rightarrow> go_error option \<times> PgState" where
  "pg_DeleteRecordsByBatchID pg s batchID =
     (case autocommit s (DeleteRecords batchID)
        (result_bind (pg_uuid pg batchID) (\<lambda>key.
           Inr (s\<lparr>PG_records := filter (\<lambda>r. R_BatchID r \<noteq> key) (PG_records s)\<rparr>))) of
        (Some err, s') \<Rightarrow> (Some (Wrapf (''failed to purge records for batch '' @ batchID) err), s')
      | (None, s') \<Rightarrow> (None, s'))"

definition worm_row :: "pg_api \<Rightarrow> WORMIndexEntry \<Rightarrow> WORMIndexEntry result" where
  "worm_row pg e =
     result_bind (pg_uuid pg (W_BatchID e)) (\<lambda>i.
     result_bind (pg_text pg (W_WORMObjectKey e)) (\<lambda>wormKey.
     result_bind (pg_timestamptz pg (W_TieredAt e)) (\<lambda>tiered.
     result_bind (nullable (pg_timestamptz pg) (W_PurgedFromPostgresAt e)) (\<lambda>purged.
       Inr \<lparr>W_BatchID = i, W_WORMObjectKey = wormKey, W_TieredAt = tiered, W_PurgedFromPostgresAt = purged\<rparr>))))"

text \<open>\<open>INSERT ... ON CONFLICT (batch_id) DO UPDATE\<close>\<close>

definition pg_InsertWORMIndex :: "pg_api \<Rightarrow> PgState \<Rightarrow> WORMIndexEntry \<Rightarrow> go_error option \<times> PgState" where
  "pg_InsertWORMIndex pg s entry =
     (case autocommit s (UpsertWorm (W_BatchID entry))
        (result_bind (worm_row pg entry) (\<lambda>row.
           if W_BatchID row \<notin> B_ID ` set (PG_batches s) then Inl (pg_foreign_key pg)
           else if W_BatchID row \<in> W_BatchID ` set (PG_worm s)
           then Inr (s\<lparr>PG_worm := map (\<lambda>e. if W_BatchID e = W_BatchID row then row else e) (PG_worm s)\<rparr>)
           else Inr (s\<lparr>PG_worm := PG_worm s @ [row]\<rparr>))) of
        (Some err, s') \<Rightarrow> (Some (Wrapf ''failed to insert audit_worm_index'' err), s')
      | (None, s') \<Rightarrow> (None, s'))"

definition pg_GetWORMIndex :: "pg_api \<Rightarrow> PgState \<Rightarrow> string \<Rightarrow> WORMIndexEntry result" where
  "pg_GetWORMIndex pg s batchID =
     (case wrap_err ''failed to get worm index'' (result_bind (exec s (SelectWorm batchID)) (\<lambda>_. pg_uuid pg batchID)) of
        Inl err \<Rightarrow> Inl err
      | Inr key \<Rightarrow> (case find (\<lambda>e. W_BatchID e = key) (PG_worm s) of None \<Rightarrow> Inl ErrNotFound | Some e \<Rightarrow> Inr e))"

definition pg_GetRecordForVerification :: "pg_api \<Rightarrow> PgState \<Rightarrow> string \<Rightarrow> fetched result" where
  "pg_GetRecordForVerification pg s recordID =
     result_bind (pg_GetRecord pg s recordID) (\<lambda>rec.
     result_bind (pg_GetBatch pg s (R_BatchID rec)) (\<lambda>batch.
     result_bind (pg_GetRecordsByBatchID pg s (R_BatchID rec)) (\<lambda>allRecords.
     result_bind (batch_leaves allRecords) (\<lambda>allLeaves.
       Inr (verification_data rec batch allLeaves)))))"

definition postgres_store :: "pg_api \<Rightarrow> PgState StoreI" where
  "postgres_store pg =
     \<lparr>st_CreateBatch = pg_CreateBatch pg, st_GetBatch = pg_GetBatch pg,
      st_UpdateBatchStatus = pg_UpdateBatchStatus pg, st_GetLatestCheckpoint = pg_GetLatestCheckpoint,
      st_GetBatchesForTiering = pg_GetBatchesForTiering pg, st_ListBatches = pg_ListBatches pg,
      st_GetRecord = pg_GetRecord pg, st_GetRecordsByBatchID = pg_GetRecordsByBatchID pg,
      st_GetRecordsByTableAndPK = pg_GetRecordsByTableAndPK pg,
      st_DeleteRecordsByBatchID = pg_DeleteRecordsByBatchID pg, st_InsertWORMIndex = pg_InsertWORMIndex pg,
      st_GetWORMIndex = pg_GetWORMIndex pg, st_GetRecordForVerification = pg_GetRecordForVerification pg\<rparr>"

section \<open>What the store keeps\<close>

text \<open>
  What is relied on of the server: a UUID it wrote it reads again as the same one. The invariant is
  what the keys and foreign keys of the schema enforce. Reads succeed and are complete.
\<close>

definition pg_laws :: "pg_api \<Rightarrow> bool" where
  "pg_laws pg \<longleftrightarrow> (\<forall>u v. pg_uuid pg u = Inr v \<longrightarrow> pg_uuid pg v = Inr v)"

definition pg_ok :: "pg_api \<Rightarrow> PgState \<Rightarrow> bool" where
  "pg_ok pg s \<longleftrightarrow> distinct (map B_ID (PG_batches s)) \<and> distinct (map R_ID (PG_records s))
     \<and> distinct (map W_BatchID (PG_worm s))
     \<and> (\<forall>b \<in> set (PG_batches s). pg_uuid pg (B_ID b) = Inr (B_ID b))
     \<and> (\<forall>r \<in> set (PG_records s). pg_uuid pg (R_ID r) = Inr (R_ID r))
     \<and> R_BatchID ` set (PG_records s) \<subseteq> B_ID ` set (PG_batches s)
     \<and> W_BatchID ` set (PG_worm s) \<subseteq> B_ID ` set (PG_batches s)"

fun is_select :: "stmt \<Rightarrow> bool" where
  "is_select (SelectBatch _) = True"
| "is_select SelectCheckpoint = True"
| "is_select SelectTiering = True"
| "is_select SelectBatches = True"
| "is_select (SelectRecord _) = True"
| "is_select (SelectRecords _) = True"
| "is_select (SelectHistory _) = True"
| "is_select (SelectWorm _) = True"
| "is_select _ = False"

definition pg_readable :: "PgState \<Rightarrow> bool" where
  "pg_readable s \<longleftrightarrow> (\<forall>q. (if is_select q then PG_fault s q = None else True) \<and> PG_cut s q = None \<and> PG_scan s q = None)"

definition pg_inv :: "pg_api \<Rightarrow> PgState \<Rightarrow> bool" where
  "pg_inv pg s \<longleftrightarrow> pg_laws pg \<and> pg_ok pg s \<and> pg_readable s"

definition pg_storable :: "pg_api \<Rightarrow> Record \<Rightarrow> bool" where
  "pg_storable pg r \<longleftrightarrow> (case record_row pg r of Inl _ \<Rightarrow> False | Inr r' \<Rightarrow> same_record r r')"

definition pg_sealable :: "pg_api \<Rightarrow> Batch \<Rightarrow> bool" where
  "pg_sealable pg b \<longleftrightarrow> (case batch_row pg b of Inl _ \<Rightarrow> False | Inr b' \<Rightarrow> same_seal b b')"

lemma exec_select [simp]: "pg_readable s \<Longrightarrow> is_select q \<Longrightarrow> exec s q = Inr ()"
  by (simp add: pg_readable_def exec_def)

lemma scan_readable [simp]: "pg_readable s \<Longrightarrow> scan_rows s q msg rows = Inr rows"
  by (simp add: pg_readable_def scan_rows_def)

lemma readable_tables [simp]:
  "pg_readable (s\<lparr>PG_batches := bs\<rparr>) = pg_readable s" "pg_readable (s\<lparr>PG_records := rs\<rparr>) = pg_readable s"
  "pg_readable (s\<lparr>PG_worm := es\<rparr>) = pg_readable s"
  by (simp_all add: pg_readable_def)

lemma batch_row_id: "batch_row pg b = Inr b' \<Longrightarrow> pg_uuid pg (B_ID b) = Inr (B_ID b')"
  by (auto simp: batch_row_def)

lemma record_row_ids:
  "record_row pg r = Inr r' \<Longrightarrow> pg_uuid pg (R_ID r) = Inr (R_ID r') \<and> pg_uuid pg (R_BatchID r) = Inr (R_BatchID r')"
  by (auto simp: record_row_def)

text \<open>What a transaction that went through did.\<close>

definition created :: "pg_api \<Rightarrow> PgState \<Rightarrow> Batch \<Rightarrow> Record list \<Rightarrow> PgState \<Rightarrow> bool" where
  "created pg s b rs s' \<longleftrightarrow> (\<exists>row rows. batch_row pg b = Inr row \<and> B_ID row \<notin> B_ID ` set (PG_batches s)
     \<and> traverse (record_row pg) rs = Inr rows \<and> distinct (map R_ID rows)
     \<and> R_ID ` set rows \<inter> R_ID ` set (PG_records s) = {}
     \<and> R_BatchID ` set rows \<subseteq> insert (B_ID row) (B_ID ` set (PG_batches s))
     \<and> s' = s\<lparr>PG_batches := PG_batches s @ [row], PG_records := PG_records s @ rows\<rparr>)"

lemma insert_records:
  assumes "try_fold (\<lambda>r st. wrap_err (m r) (insert_record pg r st)) rs tx = Inr tx'"
  shows "\<exists>rows. traverse (record_row pg) rs = Inr rows \<and> distinct (map R_ID rows)
    \<and> R_ID ` set rows \<inter> R_ID ` set (PG_records tx) = {} \<and> R_BatchID ` set rows \<subseteq> B_ID ` set (PG_batches tx)
    \<and> tx' = tx\<lparr>PG_records := PG_records tx @ rows\<rparr>"
  using assms
proof (induction rs arbitrary: tx)
  case (Cons r rs)
  obtain tx1 where tx1: "insert_record pg r tx = Inr tx1"
      "try_fold (\<lambda>r st. wrap_err (m r) (insert_record pg r st)) rs tx1 = Inr tx'"
    using Cons.prems by auto
  obtain row where row: "record_row pg r = Inr row" "R_ID row \<notin> R_ID ` set (PG_records tx)"
      "R_BatchID row \<in> B_ID ` set (PG_batches tx)" "tx1 = tx\<lparr>PG_records := PG_records tx @ [row]\<rparr>"
    using tx1(1) by (auto simp: insert_record_def split: if_splits)
  obtain rows where "traverse (record_row pg) rs = Inr rows" "distinct (map R_ID rows)"
      "R_ID ` set rows \<inter> R_ID ` set (PG_records tx1) = {}" "R_BatchID ` set rows \<subseteq> B_ID ` set (PG_batches tx1)"
      "tx' = tx1\<lparr>PG_records := PG_records tx1 @ rows\<rparr>"
    using Cons.IH [OF tx1(2)] by blast
  with row show ?case by (intro exI [of _ "row # rows"]) auto
qed simp

lemma pg_create_cases:
  assumes "pg_CreateBatch pg s b rs = (e, s')"
  obtains (failed) "e \<noteq> None" "s' = s" | (committed) "created pg s b rs s'"
proof (cases "e \<noteq> None \<and> s' = s")
  case False
  then obtain tx0 tx where tx: "insert_batch pg b s = Inr tx0" "s' = tx"
      "try_fold (\<lambda>r st. wrap_err (''failed to insert audit_record ('' @ R_ID r @ '')'') (insert_record pg r st)) rs tx0 = Inr tx"
    using assms by (auto simp: pg_CreateBatch_def split: sum.splits option.splits if_splits)
  obtain row where row: "batch_row pg b = Inr row" "B_ID row \<notin> B_ID ` set (PG_batches s)"
      "tx0 = s\<lparr>PG_batches := PG_batches s @ [row]\<rparr>"
    using tx(1) by (auto simp: insert_batch_def split: if_splits)
  obtain rows where "traverse (record_row pg) rs = Inr rows" "distinct (map R_ID rows)"
      "R_ID ` set rows \<inter> R_ID ` set (PG_records s) = {}"
      "R_BatchID ` set rows \<subseteq> insert (B_ID row) (B_ID ` set (PG_batches s))"
      "tx = s\<lparr>PG_batches := PG_batches s @ [row], PG_records := PG_records s @ rows\<rparr>"
    using insert_records [OF tx(3)] row(3) by auto
  then have "created pg s b rs s'" using row(1,2) tx(2) unfolding created_def by blast
  then show ?thesis by (rule committed)
qed (use failed in blast)

lemma pg_create_none: "pg_CreateBatch pg s b rs = (None, s') \<Longrightarrow> created pg s b rs s'"
  by (elim pg_create_cases) auto

lemma traverse_set: "traverse f xs = Inr ys \<Longrightarrow> y \<in> set ys \<Longrightarrow> \<exists>x \<in> set xs. f x = Inr y"
  by (auto simp: traverse_Inr_iff list_all2_conv_all_nth in_set_conv_nth intro!: bexI [of _ "xs ! _"])

lemma pg_okD:
  assumes "pg_ok pg s"
  shows "distinct (map B_ID (PG_batches s))" "distinct (map R_ID (PG_records s))" "distinct (map W_BatchID (PG_worm s))"
    "\<forall>b \<in> set (PG_batches s). pg_uuid pg (B_ID b) = Inr (B_ID b)" "\<forall>r \<in> set (PG_records s). pg_uuid pg (R_ID r) = Inr (R_ID r)"
    "R_BatchID ` set (PG_records s) \<subseteq> B_ID ` set (PG_batches s)" "W_BatchID ` set (PG_worm s) \<subseteq> B_ID ` set (PG_batches s)"
  using assms unfolding pg_ok_def by blast+

lemma pg_canonical: "pg_laws pg \<Longrightarrow> pg_uuid pg u = Inr v \<Longrightarrow> pg_uuid pg v = Inr v"
  unfolding pg_laws_def by blast

lemma created_ok:
  assumes "pg_laws pg" "pg_ok pg s" "created pg s b rs s'"
  shows "pg_ok pg s'"
proof -
  obtain row rows where c: "batch_row pg b = Inr row" "B_ID row \<notin> B_ID ` set (PG_batches s)"
     "traverse (record_row pg) rs = Inr rows" "distinct (map R_ID rows)"
     "R_ID ` set rows \<inter> R_ID ` set (PG_records s) = {}"
     "R_BatchID ` set rows \<subseteq> insert (B_ID row) (B_ID ` set (PG_batches s))"
     "s' = s\<lparr>PG_batches := PG_batches s @ [row], PG_records := PG_records s @ rows\<rparr>"
    using assms(3) by (auto simp: created_def)
  have row: "pg_uuid pg (B_ID row) = Inr (B_ID row)" using pg_canonical [OF assms(1) batch_row_id [OF c(1)]] .
  have rows: "pg_uuid pg (R_ID r) = Inr (R_ID r)" if "r \<in> set rows" for r
    using traverse_set [OF c(3) that] record_row_ids pg_canonical [OF assms(1)] by blast
  have s': "PG_batches s' = PG_batches s @ [row]" "PG_records s' = PG_records s @ rows" "PG_worm s' = PG_worm s"
    by (simp_all add: c(7))
  note old = pg_okD [OF assms(2)]
  show ?thesis unfolding pg_ok_def s'
  proof (intro conjI)
    show "distinct (map B_ID (PG_batches s @ [row]))" using old(1) c(2) by simp
    show "distinct (map R_ID (PG_records s @ rows))" using old(2) c(4,5) by (simp add: Int_commute)
    show "\<forall>b \<in> set (PG_batches s @ [row]). pg_uuid pg (B_ID b) = Inr (B_ID b)"
      using old(4) row by auto
    show "\<forall>r \<in> set (PG_records s @ rows). pg_uuid pg (R_ID r) = Inr (R_ID r)" using old(5) rows by auto
    show "R_BatchID ` set (PG_records s @ rows) \<subseteq> B_ID ` set (PG_batches s @ [row])" using old(6) c(6) by auto
  qed (use old(3,7) in auto)
qed

lemma created_readable: "created pg s b rs s' \<Longrightarrow> pg_readable s' = pg_readable s"
  unfolding created_def by (elim exE conjE) simp

lemma created_inv: "pg_inv pg s \<Longrightarrow> created pg s b rs s' \<Longrightarrow> pg_inv pg s'"
  using created_ok created_readable unfolding pg_inv_def by blast

text \<open>Lookups by key, while reads succeed.\<close>

lemma find_key: "distinct (map f xs) \<Longrightarrow> x \<in> set xs \<Longrightarrow> find (\<lambda>y. f y = f x) xs = Some x"
  by (induction xs) auto

lemma pg_GetRecord_readable:
  "pg_readable s \<Longrightarrow> pg_uuid pg i = Inr k \<Longrightarrow>
     pg_GetRecord pg s i = (case find (\<lambda>r. R_ID r = k) (PG_records s) of None \<Rightarrow> Inl ErrNotFound | Some r \<Rightarrow> Inr r)"
  by (simp add: pg_GetRecord_def)

lemma pg_GetBatch_readable:
  "pg_readable s \<Longrightarrow> pg_uuid pg i = Inr k \<Longrightarrow>
     pg_GetBatch pg s i = (case find (\<lambda>b. B_ID b = k) (PG_batches s) of None \<Rightarrow> Inl ErrNotFound | Some b \<Rightarrow> Inr b)"
  by (simp add: pg_GetBatch_def)

lemma pg_GetRecordsByBatchID_readable:
  "pg_readable s \<Longrightarrow> pg_uuid pg i = Inr k \<Longrightarrow>
     pg_GetRecordsByBatchID pg s i = Inr (sort_key R_MerkleLeafIndex (filter (\<lambda>r. R_BatchID r = k) (PG_records s)))"
  by (simp add: pg_GetRecordsByBatchID_def)

lemma pg_storable_row:
  "list_all (pg_storable pg) rs \<Longrightarrow> traverse (record_row pg) rs = Inr rows \<Longrightarrow> list_all2 same_record rs rows"
  by (auto simp: traverse_Inr_iff list_all2_conv_all_nth list_all_length pg_storable_def)

lemma same_records_numbered: "list_all2 same_record rs rows \<Longrightarrow> numbered bid rs \<Longrightarrow> numbered bid rows"
  by (auto simp: numbered_nth list_all2_conv_all_nth same_record_def)

lemma pg_batch_created:
  assumes s: "pg_inv pg s" and c: "pg_CreateBatch pg s b rs = (None, s')" and "pg_sealable pg b"
  shows "\<exists>b'. pg_GetBatch pg s' (B_ID b) = Inr b' \<and> same_seal b b'"
proof -
  obtain row where row: "batch_row pg b = Inr row" "same_seal b row" using assms(3) by (auto simp: pg_sealable_def split: sum.splits)
  have cr: "created pg s b rs s'" using pg_create_none [OF c] .
  have inv: "pg_ok pg s'" "pg_readable s'" using created_inv [OF s cr] by (simp_all add: pg_inv_def)
  have "row \<in> set (PG_batches s')" using cr row(1) by (auto simp: created_def)
  then have "find (\<lambda>x. B_ID x = B_ID row) (PG_batches s') = Some row" using find_key [OF pg_okD(1) [OF inv(1)]] by simp
  then have "pg_GetBatch pg s' (B_ID b) = Inr row"
    using pg_GetBatch_readable [OF inv(2) batch_row_id [OF row(1)]] by simp
  with row(2) show ?thesis by simp
qed

lemma pg_records_created:
  assumes s: "pg_inv pg s" and c: "pg_CreateBatch pg s b rs = (None, s')" and st: "list_all (pg_storable pg) rs" and n: "numbered (B_ID b) rs"
    and u: "unseen (postgres_store pg) s (B_ID b) rs"
  shows "\<exists>rs'. pg_GetRecordsByBatchID pg s' (B_ID b) = Inr rs' \<and> list_all2 same_record rs rs'"
proof -
  have cr: "created pg s b rs s'" using pg_create_none [OF c] .
  have inv: "pg_laws pg" "pg_readable s" "pg_readable s'" using s created_inv [OF s cr] by (simp_all add: pg_inv_def)
  from cr obtain row rows where t: "batch_row pg b = Inr row" "traverse (record_row pg) rs = Inr rows"
      "PG_records s' = PG_records s @ rows" by (auto simp: created_def)
  have same: "list_all2 same_record rs rows" using pg_storable_row [OF st t(2)] .
  have rn: "numbered (B_ID b) rows" using same_records_numbered [OF same n] .
  obtain k where k: "pg_uuid pg (B_ID b) = Inr k" using batch_row_id [OF t(1)] by blast
  have own: "R_BatchID r = k" if "r \<in> set rows" for r
  proof -
    obtain r0 where r0: "r0 \<in> set rs" "record_row pg r0 = Inr r" using traverse_set [OF t(2) \<open>r \<in> set rows\<close>] by blast
    then have "pg_uuid pg (B_ID b) = Inr (R_BatchID r)" using record_row_ids numbered_batch [OF n] by metis
    with k show ?thesis by simp
  qed
  have "filter (\<lambda>r. R_BatchID r = k) (PG_records s) = []"
    using u pg_GetRecordsByBatchID_readable [OF inv(2) k] by (simp add: unseen_def postgres_store_def)
  moreover have "filter (\<lambda>r. R_BatchID r = k) rows = rows" using own by (simp add: filter_id_conv)
  ultimately have "pg_GetRecordsByBatchID pg s' (B_ID b) = Inr rows"
    using pg_GetRecordsByBatchID_readable [OF inv(3) k] t(3) numbered_sorted [OF rn]
    by (simp add: sort_key_id_if_sorted)
  with same show ?thesis by simp
qed

lemma pg_record_created:
  assumes s: "pg_inv pg s" and c: "pg_CreateBatch pg s b rs = (None, s')" and st: "list_all (pg_storable pg) rs" and r: "r \<in> set rs"
  shows "\<exists>r'. pg_GetRecord pg s' (R_ID r) = Inr r' \<and> same_record r r'"
proof -
  have cr: "created pg s b rs s'" using pg_create_none [OF c] .
  have inv: "pg_ok pg s'" "pg_readable s'" using created_inv [OF s cr] by (simp_all add: pg_inv_def)
  obtain r' where r': "record_row pg r = Inr r'" "same_record r r'"
    using st r by (cases "record_row pg r") (auto simp: list_all_iff pg_storable_def)
  obtain rows where rows: "traverse (record_row pg) rs = Inr rows" "PG_records s' = PG_records s @ rows"
    using cr by (auto simp: created_def)
  have "r' \<in> set rows"
    using rows(1) r r'(1) by (force simp: traverse_Inr_iff list_all2_conv_all_nth in_set_conv_nth)
  then have "find (\<lambda>x. R_ID x = R_ID r') (PG_records s') = Some r'"
    using find_key [OF pg_okD(2) [OF inv(1)]] rows(2) by simp
  then have "pg_GetRecord pg s' (R_ID r) = Inr r'"
    using pg_GetRecord_readable [OF inv(2)] record_row_ids [OF r'(1)] by simp
  with r'(2) show ?thesis by blast
qed

interpretation pgs: store_contract "postgres_store pg" "pg_inv pg" "pg_storable pg" "pg_sealable pg" for pg
proof unfold_locales
  fix s b rs e s' assume "pg_inv pg s" "st_CreateBatch (postgres_store pg) s b rs = (e, s')"
  then show "pg_inv pg s'"
    by (auto simp: postgres_store_def elim!: pg_create_cases intro: created_inv)
next
  fix s b rs s' assume "pg_inv pg s" "st_CreateBatch (postgres_store pg) s b rs = (None, s')" "pg_sealable pg b"
  then show "\<exists>b'. st_GetBatch (postgres_store pg) s' (B_ID b) = Inr b' \<and> same_seal b b'"
    using pg_batch_created by (simp add: postgres_store_def)
next
  fix s b rs s'
  assume "pg_inv pg s" "st_CreateBatch (postgres_store pg) s b rs = (None, s')" "list_all (pg_storable pg) rs"
    "numbered (B_ID b) rs" "unseen (postgres_store pg) s (B_ID b) rs"
  then show "\<exists>rs'. st_GetRecordsByBatchID (postgres_store pg) s' (B_ID b) = Inr rs' \<and> list_all2 same_record rs rs'"
    using pg_records_created [of pg s b rs s'] by (simp add: postgres_store_def)
next
  fix s b rs r s'
  assume "pg_inv pg s" "st_CreateBatch (postgres_store pg) s b rs = (None, s')" "list_all (pg_storable pg) rs" "r \<in> set rs"
  then show "\<exists>r'. st_GetRecord (postgres_store pg) s' (R_ID r) = Inr r' \<and> same_record r r'"
    using pg_record_created [of pg s b rs s' r] by (simp add: postgres_store_def)
next
  fix s rid r b rs
  assume "st_GetRecord (postgres_store pg) s rid = Inr r" "st_GetBatch (postgres_store pg) s (R_BatchID r) = Inr b"
    "st_GetRecordsByBatchID (postgres_store pg) s (R_BatchID r) = Inr rs"
  then show "st_GetRecordForVerification (postgres_store pg) s rid =
      result_bind (batch_leaves rs) (\<lambda>leaves. Inr (verification_data r b leaves))"
    by (simp add: postgres_store_def pg_GetRecordForVerification_def)
qed

section \<open>The retention job on Postgres\<close>

text \<open>A single statement changes one table or nothing.\<close>

lemma autocommit_cases:
  assumes "autocommit s q eff = (e, s')"
  obtains "s' = s" | "eff = Inr s'"
  using assms by (auto simp: autocommit_def split: sum.splits option.splits if_splits)

lemma worm_effect:
  assumes "pg_InsertWORMIndex pg s x = (e, s')"
  obtains "s' = s" | row es where "worm_row pg x = Inr row" "W_BatchID row \<in> B_ID ` set (PG_batches s)" "s' = s\<lparr>PG_worm := es\<rparr>"
      "es = (if W_BatchID row \<in> W_BatchID ` set (PG_worm s)
             then map (\<lambda>e. if W_BatchID e = W_BatchID row then row else e) (PG_worm s) else PG_worm s @ [row])"
proof -
  obtain e' where "autocommit s (UpsertWorm (W_BatchID x))
        (result_bind (worm_row pg x) (\<lambda>row.
           if W_BatchID row \<notin> B_ID ` set (PG_batches s) then Inl (pg_foreign_key pg)
           else if W_BatchID row \<in> W_BatchID ` set (PG_worm s)
           then Inr (s\<lparr>PG_worm := map (\<lambda>e. if W_BatchID e = W_BatchID row then row else e) (PG_worm s)\<rparr>)
           else Inr (s\<lparr>PG_worm := PG_worm s @ [row]\<rparr>))) = (e', s')"
    using assms by (auto simp: pg_InsertWORMIndex_def split: prod.splits option.splits)
  then show ?thesis by (cases rule: autocommit_cases) (use that in \<open>auto split: if_splits\<close>)
qed

lemma delete_effect:
  assumes "pg_DeleteRecordsByBatchID pg s i = (e, s')"
  obtains "s' = s" | k where "pg_uuid pg i = Inr k" "s' = s\<lparr>PG_records := filter (\<lambda>r. R_BatchID r \<noteq> k) (PG_records s)\<rparr>"
proof -
  obtain e' where "autocommit s (DeleteRecords i) (result_bind (pg_uuid pg i) (\<lambda>key.
      Inr (s\<lparr>PG_records := filter (\<lambda>r. R_BatchID r \<noteq> key) (PG_records s)\<rparr>))) = (e', s')"
    using assms by (auto simp: pg_DeleteRecordsByBatchID_def split: prod.splits option.splits)
  then show ?thesis by (cases rule: autocommit_cases) (use that in auto)
qed

lemma status_effect:
  assumes "pg_UpdateBatchStatus pg s i st k = (e, s')"
  obtains "s' = s" | f where "s' = s\<lparr>PG_batches := map f (PG_batches s)\<rparr>" "\<And>b. B_ID (f b) = B_ID b"
proof -
  obtain e' where "autocommit s (UpdateBatch i)
        (result_bind (pg_uuid pg i) (\<lambda>key.
         result_bind (pg_varchar pg 32 st) (\<lambda>status.
         result_bind (nullable (pg_text pg) k) (\<lambda>wormKey.
           Inr (s\<lparr>PG_batches := map (\<lambda>b. if B_ID b = key
                    then b\<lparr>B_Status := status,
                           B_WORMObjectKey := (case wormKey of None \<Rightarrow> B_WORMObjectKey b | Some _ \<Rightarrow> wormKey)\<rparr>
                    else b) (PG_batches s)\<rparr>))))) = (e', s')"
    using assms by (auto simp: pg_UpdateBatchStatus_def split: prod.splits option.splits if_splits)
  then show ?thesis
  proof (cases rule: autocommit_cases)
    case 2
    then obtain key status wormKey where "s' = s\<lparr>PG_batches := map (\<lambda>b. if B_ID b = key
        then b\<lparr>B_Status := status, B_WORMObjectKey := (case wormKey of None \<Rightarrow> B_WORMObjectKey b | Some _ \<Rightarrow> wormKey)\<rparr>
        else b) (PG_batches s)\<rparr>" by auto
    then show ?thesis by (rule that(2)) simp
  qed (rule that(1))
qed

lemma pg_GetRecord_cong:
  "PG_records s' = PG_records s \<Longrightarrow> PG_fault s' = PG_fault s \<Longrightarrow> pg_GetRecord pg s' i = pg_GetRecord pg s i"
  by (simp add: pg_GetRecord_def exec_def cong: sum.case_cong)

lemma distinct_map_replace:
  "distinct (map f xs) \<Longrightarrow> f y = k \<Longrightarrow> distinct (map f (map (\<lambda>x. if f x = k then y else x) xs))"
proof -
  assume "distinct (map f xs)" "f y = k"
  moreover from this have "map f (map (\<lambda>x. if f x = k then y else x) xs) = map f xs" by simp
  ultimately show ?thesis by metis
qed

lemma worm_ok:
  assumes "pg_ok pg s" "pg_InsertWORMIndex pg s x = (e, s')"
  shows "pg_ok pg s'"
  using assms(2)
proof (cases rule: worm_effect)
  case (2 row es)
  have "distinct (map W_BatchID es)"
    using pg_okD(3) [OF assms(1)] 2(4) distinct_map_replace [of W_BatchID "PG_worm s" row] by (cases "W_BatchID row \<in> W_BatchID ` set (PG_worm s)") auto
  moreover have "W_BatchID ` set es \<subseteq> B_ID ` set (PG_batches s)"
    using pg_okD(7) [OF assms(1)] 2(2,4) by (auto split: if_splits)
  ultimately show ?thesis using assms(1) unfolding pg_ok_def 2(3) by simp
qed (use assms(1) in simp)

lemma delete_ok:
  assumes "pg_ok pg s" "pg_DeleteRecordsByBatchID pg s i = (e, s')"
  shows "pg_ok pg s'"
  using assms(2)
proof (cases rule: delete_effect)
  case (2 k)
  have "distinct (map R_ID (filter (\<lambda>r. R_BatchID r \<noteq> k) (PG_records s)))"
    using pg_okD(2) [OF assms(1)] by (rule distinct_map_filter)
  moreover have "R_BatchID ` set (filter (\<lambda>r. R_BatchID r \<noteq> k) (PG_records s)) \<subseteq> B_ID ` set (PG_batches s)"
    using pg_okD(6) [OF assms(1)] by auto
  ultimately show ?thesis using assms(1) unfolding pg_ok_def 2(2) by simp
qed (use assms(1) in simp)

lemma status_ok:
  assumes "pg_ok pg s" "pg_UpdateBatchStatus pg s i st k = (e, s')"
  shows "pg_ok pg s'"
  using assms(2)
proof (cases rule: status_effect)
  case (2 f)
  have "B_ID \<circ> f = B_ID" using 2(2) by auto
  then have "map B_ID (map f (PG_batches s)) = map B_ID (PG_batches s)" "B_ID ` set (map f (PG_batches s)) = B_ID ` set (PG_batches s)"
    by (simp_all add: image_comp)
  moreover have "\<forall>b \<in> set (map f (PG_batches s)). pg_uuid pg (B_ID b) = Inr (B_ID b)"
    using pg_okD(4) [OF assms(1)] 2(2) by simp
  moreover have "PG_batches s' = map f (PG_batches s)" "PG_records s' = PG_records s" "PG_worm s' = PG_worm s" by (simp_all add: 2(1))
  ultimately show ?thesis using assms(1) unfolding pg_ok_def by metis
qed (use assms(1) in simp)

lemma effects_readable:
  "pg_InsertWORMIndex pg s x = (e, s') \<Longrightarrow> pg_readable s' = pg_readable s"
  "pg_DeleteRecordsByBatchID pg s i = (e, s') \<Longrightarrow> pg_readable s' = pg_readable s"
  "pg_UpdateBatchStatus pg s i st k = (e, s') \<Longrightarrow> pg_readable s' = pg_readable s"
  by (erule worm_effect delete_effect status_effect, simp, simp)+

lemma effects_inv:
  "pg_inv pg s \<Longrightarrow> pg_InsertWORMIndex pg s x = (e, s') \<Longrightarrow> pg_inv pg s'"
  "pg_inv pg s \<Longrightarrow> pg_DeleteRecordsByBatchID pg s i = (e, s') \<Longrightarrow> pg_inv pg s'"
  "pg_inv pg s \<Longrightarrow> pg_UpdateBatchStatus pg s i st k = (e, s') \<Longrightarrow> pg_inv pg s'"
  unfolding pg_inv_def
  by (metis worm_ok effects_readable(1), metis delete_ok effects_readable(2), metis status_ok effects_readable(3))

lemma postgres_store_simps [simp]:
  "st_CreateBatch (postgres_store pg) = pg_CreateBatch pg" "st_GetBatch (postgres_store pg) = pg_GetBatch pg"
  "st_UpdateBatchStatus (postgres_store pg) = pg_UpdateBatchStatus pg"
  "st_GetBatchesForTiering (postgres_store pg) = pg_GetBatchesForTiering pg"
  "st_GetRecord (postgres_store pg) = pg_GetRecord pg"
  "st_GetRecordsByBatchID (postgres_store pg) = pg_GetRecordsByBatchID pg"
  "st_DeleteRecordsByBatchID (postgres_store pg) = pg_DeleteRecordsByBatchID pg"
  "st_InsertWORMIndex (postgres_store pg) = pg_InsertWORMIndex pg"
  "st_GetRecordForVerification (postgres_store pg) = pg_GetRecordForVerification pg"
  by (simp_all add: postgres_store_def)

lemma pg_delete_others:
  assumes d: "pg_DeleteRecordsByBatchID pg s i = (e, s')" and inv: "pg_inv pg s"
    and g': "pg_GetRecord pg s rid = Inr r" and n: "pg_uuid pg i = Inr i" "R_BatchID r \<noteq> i"
  shows "pg_GetRecord pg s' rid = Inr r"
  using d
proof (cases rule: delete_effect)
  case (2 k)
  have k: "k = i" using 2(1) n(1) by simp
  obtain key where key: "pg_uuid pg rid = Inr key" "exec s (SelectRecord rid) = Inr ()" "find (\<lambda>x. R_ID x = key) (PG_records s) = Some r"
    using g' by (auto simp: pg_GetRecord_def split: sum.splits option.splits)
  have "find (\<lambda>x. R_ID x = key) (filter (\<lambda>r. R_BatchID r \<noteq> k) (PG_records s)) = Some r"
    using key(3) n(2) pg_okD(2) inv k find_key [of R_ID "filter (\<lambda>r. R_BatchID r \<noteq> k) (PG_records s)" r]
    by (auto simp: pg_inv_def find_Some_iff distinct_map_filter)
  then show ?thesis using key(1,2) 2(2) by (simp add: pg_GetRecord_def exec_def)
qed (use g' in simp)

interpretation pgr: retention_store "postgres_store pg" "pg_inv pg" "pg_storable pg" "pg_sealable pg"
  "\<lambda>i. pg_uuid pg i = Inr i" for pg
proof unfold_locales
  fix s x e s' assume "pg_inv pg s" "st_InsertWORMIndex (postgres_store pg) s x = (e, s')"
  then show "pg_inv pg s'" using effects_inv(1) [of pg s x e s'] by simp
next
  fix s x e s' rid assume "st_InsertWORMIndex (postgres_store pg) s x = (e, s')"
  then have "pg_InsertWORMIndex pg s x = (e, s')" by (simp add: postgres_store_def)
  then show "st_GetRecord (postgres_store pg) s' rid = st_GetRecord (postgres_store pg) s rid"
    by (cases rule: worm_effect) (simp, unfold postgres_store_simps, rule pg_GetRecord_cong, simp_all)
next
  fix s i e s' assume "pg_inv pg s" "st_DeleteRecordsByBatchID (postgres_store pg) s i = (e, s')"
  then show "pg_inv pg s'" using effects_inv(2) [of pg s i e s'] by simp
next
  fix s i e s' rid r
  assume "st_DeleteRecordsByBatchID (postgres_store pg) s i = (e, s')" "pg_inv pg s"
    "st_GetRecord (postgres_store pg) s rid = Inr r" "pg_uuid pg i = Inr i" "R_BatchID r \<noteq> i"
  then show "st_GetRecord (postgres_store pg) s' rid = Inr r" using pg_delete_others by (simp add: postgres_store_def)
next
  fix s i st k e s' assume "pg_inv pg s" "st_UpdateBatchStatus (postgres_store pg) s i st k = (e, s')"
  then show "pg_inv pg s'" using effects_inv(3) [of pg s i st k e s'] by simp
next
  fix s i st k e s' rid assume "st_UpdateBatchStatus (postgres_store pg) s i st k = (e, s')"
  then have "pg_UpdateBatchStatus pg s i st k = (e, s')" by (simp add: postgres_store_def)
  then show "st_GetRecord (postgres_store pg) s' rid = st_GetRecord (postgres_store pg) s rid"
    by (cases rule: status_effect) (simp, unfold postgres_store_simps, rule pg_GetRecord_cong, simp_all)
next
  fix s rid r rs
  assume inv: "pg_inv pg s" and g: "st_GetRecord (postgres_store pg) s rid = Inr r"
    and l: "st_GetRecordsByBatchID (postgres_store pg) s (R_BatchID r) = Inr rs"
  have r: "r \<in> set (PG_records s)" using g
    by (auto simp: postgres_store_def pg_GetRecord_def find_Some_iff split: sum.splits option.splits)
  have ok: "pg_ok pg s" "pg_readable s" using inv by (simp_all add: pg_inv_def)
  obtain b where "b \<in> set (PG_batches s)" "R_BatchID r = B_ID b" using pg_okD(6) [OF ok(1)] r by blast
  then have "pg_uuid pg (R_BatchID r) = Inr (R_BatchID r)" using pg_okD(4) [OF ok(1)] by simp
  from pg_GetRecordsByBatchID_readable [OF ok(2) this] l r show "r \<in> set rs" by auto
next
  fix s t bs b
  assume inv: "pg_inv pg s" and "st_GetBatchesForTiering (postgres_store pg) s t = Inr bs" "b \<in> set bs"
  then have "b \<in> set (PG_batches s)" by (auto simp: postgres_store_def pg_GetBatchesForTiering_def pg_inv_def)
  moreover have "pg_ok pg s" using inv by (simp add: pg_inv_def)
  ultimately show "pg_uuid pg (B_ID b) = Inr (B_ID b)" using pg_okD(4) by blast
qed

end
