(* ===== verification/PostgresSystem.thy ===== *)
theory PostgresSystem
  imports Postgres
begin

text \<open>
  The batcher, the verifier and the retention job on the PostgreSQL store: what the contracts give
  while reads succeed, and what the store's own behaviour does to the guarantees: records that come
  back changed, a batch that cannot be inserted twice, and result sets that end early.
\<close>

section \<open>Batcher and verifier\<close>

interpretation pg_system: audit_system "postgres_store pg" "pg_inv pg" "pg_storable pg" "pg_sealable pg"
  local_dir_archive ld_inv "Sign c" "Verify c" "km_good c" for pg c
  by unfold_locales

definition pg_deps :: "pg_api \<Rightarrow> (bytes \<Rightarrow> (bytes \<times> string) result) \<Rightarrow> http_api \<Rightarrow> (PgState, LocalDirArchiveStore) Deps" where
  "pg_deps pg sg h = \<lparr>dp_store = postgres_store pg, dp_archive = local_dir_archive, dp_sign = sg, dp_http = h\<rparr>"

lemma pg_deps_simps [simp]:
  "dp_store (pg_deps pg sg h) = postgres_store pg" "dp_archive (pg_deps pg sg h) = local_dir_archive"
  "dp_sign (pg_deps pg sg h) = sg" "dp_http (pg_deps pg sg h) = h"
  by (simp_all add: pg_deps_def)

text \<open>
  C13: Every record of a batch closed on Postgres verifies, provided the server gives back what matters
  of it. If \<open>CloseCurrentBatch\<close> succeeds on buffered records the store has not seen, reads succeed,
  each record comes back with its identity, place and leaf hash, and the batch with its seal, then
  the verifier reports each record valid at any later time.
\<close>

theorem postgres_closed_records_verify:
  assumes "CloseCurrentBatch (pg_deps pg (Sign c m) h) env b w = (None, b', w')"
    and "numbered (BT_currentBatchID b) (BT_records b)" "distinct (map R_ID (BT_records b))"
    and "pg_inv pg (W_store w)" "unseen (postgres_store pg) (W_store w) (BT_currentBatchID b) (BT_records b)"
    and "list_all (pg_storable pg) (BT_records b)"
    and "\<And>bt. seal_batch (pg_deps pg (Sign c m) h) (ce_closedAt env) b = Inr bt \<Longrightarrow> pg_sealable pg bt"
    and "km_good c m" "r \<in> set (BT_records b)"
  shows "VR_Valid (fst (VerifyRecord (pg_GetRecordForVerification pg (W_store w')) (Verify c m) now (R_ID r)))"
proof -
  have "BT_records b \<noteq> []" using assms(9) by auto
  from pg_system.closed_batch_verifies [OF _ _ _ assms(1) this assms(4,8,2,3,6,5,7,9)]
  show ?thesis by simp
qed

text \<open>
  C34: A record the server changed does not verify. After a batch was stored whose root is that of the
  canonical texts \<open>D\<close>, a record whose row comes back with a canonical text that is none of \<open>D\<close> (as
  when \<open>jsonb\<close> puts the keys of an image in another order) is not reported valid, whatever the
  signature check says, unless two of the strings collide that are hashed when the root is computed
  from \<open>D\<close> and when the verifier checks the text against the one proof it takes for this record.
\<close>

theorem postgres_altered_record_invalid:
  assumes "pg_CreateBatch pg s b rs = (None, s')" "pg_inv pg s"
    and "numbered (B_ID b) rs" "r \<in> set rs" "record_row pg r = Inr r'"
    and "BuildTree (map HashLeaf D) = Inr t" "B_MerkleRoot b = Root t"
    and "canonical_bytes (record_payload r') = Inr a" "a \<notin> set D"
  shows "\<not> VR_Valid (fst (VerifyRecord (pg_GetRecordForVerification pg s') verify now (R_ID r)))
    \<or> (\<exists>payload d proof. pg_GetRecordForVerification pg s' (R_ID r) = Inr (payload, d)
         \<and> choose_proof d (P_MerkleLeafIndex payload) = Inr proof \<and> \<not> inj_on sha256 (hashed D a proof))"
proof (rule disjCI)
  assume nc: "\<not> (\<exists>payload d proof. pg_GetRecordForVerification pg s' (R_ID r) = Inr (payload, d)
    \<and> choose_proof d (P_MerkleLeafIndex payload) = Inr proof \<and> \<not> inj_on sha256 (hashed D a proof))"
  have cr: "created pg s b rs s'" using pg_create_none [OF assms(1)] .
  have inv: "pg_ok pg s'" "pg_readable s'" using created_inv [OF assms(2) cr] by (simp_all add: pg_inv_def)
  obtain row rows where c: "batch_row pg b = Inr row" "traverse (record_row pg) rs = Inr rows"
      "PG_batches s' = PG_batches s @ [row]" "PG_records s' = PG_records s @ rows" using cr by (auto simp: created_def)
  have r': "r' \<in> set (PG_records s')"
    using c(2,4) assms(4,5) by (force simp: traverse_Inr_iff list_all2_conv_all_nth in_set_conv_nth)
  have ids: "pg_uuid pg (R_ID r) = Inr (R_ID r')" "R_BatchID r' = B_ID row"
    using record_row_ids [OF assms(5)] numbered_batch [OF assms(3,4)] batch_row_id [OF c(1)] by simp_all
  have get: "pg_GetRecord pg s' (R_ID r) = Inr r'"
    using pg_GetRecord_readable [OF inv(2) ids(1)] find_key [OF pg_okD(2) [OF inv(1)] r'] by simp
  have "row \<in> set (PG_batches s')" using c(3) by simp
  then have "pg_GetBatch pg s' (R_BatchID r') = Inr row"
    using pg_GetBatch_readable [OF inv(2), of pg "B_ID row" "B_ID row"] find_key [OF pg_okD(1) [OF inv(1)]]
      pg_okD(4) [OF inv(1)] ids(2) by simp
  then have fetched: "\<exists>leaves. (payload, d) = verification_data r' row leaves"
    if "pg_GetRecordForVerification pg s' (R_ID r) = Inr (payload, d)" for payload d
    using that get by (auto simp: pg_GetRecordForVerification_def dest: sym)
  have root: "B_MerkleRoot row = Root t" using c(1) assms(7) by (auto simp: batch_row_def)
  show "\<not> VR_Valid (fst (VerifyRecord (pg_GetRecordForVerification pg s') verify now (R_ID r)))"
  proof
    assume v: "VR_Valid (fst (VerifyRecord (pg_GetRecordForVerification pg s') verify now (R_ID r)))"
    then obtain payload d where f: "pg_GetRecordForVerification pg s' (R_ID r) = Inr (payload, d)"
      by (auto simp: VerifyRecord_valid_iff)
    then have pd: "payload = record_payload r'" "BV_MerkleRoot d = Root t"
      using fetched [OF f] root by (auto simp: verification_data_def)
    obtain x where "x \<in> set D" "canonical_bytes payload = Inr x"
      using valid_record_member [OF v f assms(6) pd(2)] nc f assms(8) pd(1) by auto
    with assms(8,9) pd(1) show False by simp
  qed
qed

text \<open>
  C35: A batch that is in the store but was not closed can never be closed. Once the row of the current
  batch is in \<open>audit_batches\<close> (because the checkpoint could not be written after the insert, or
  the answer to the commit was lost), every further attempt to close it fails on the primary
  key, with whatever archive, signer and clock, and the batcher keeps buffering.
\<close>

theorem postgres_close_stuck:
  assumes "dp_store dp = postgres_store pg" "BT_records b \<noteq> []"
    and "pg_uuid pg (BT_currentBatchID b) = Inr (B_ID row)" "row \<in> set (PG_batches (W_store w))"
    and "CloseCurrentBatch dp env b w = (e, b', w')"
  shows "e \<noteq> None \<and> b' = b \<and> W_store w' = W_store w"
proof -
  have dup: "\<exists>err. pg_CreateBatch pg (W_store w) bt rs = (Some err, W_store w)" if "B_ID bt = BT_currentBatchID b" for bt rs
  proof -
    obtain e s' where c: "pg_CreateBatch pg (W_store w) bt rs = (e, s')" by fastforce
    have "B_ID x = B_ID row" if "batch_row pg bt = Inr x" for x
      using batch_row_id [OF that] assms(3) \<open>B_ID bt = BT_currentBatchID b\<close> by simp
    then have "\<not> created pg (W_store w) bt rs s'" using assms(4) unfolding created_def by (metis imageI)
    from c show ?thesis by (cases rule: pg_create_cases) (use c \<open>\<not> created pg (W_store w) bt rs s'\<close> in auto)
  qed
  show ?thesis
  proof (cases "seal_batch dp (ce_closedAt env) b")
    case (Inr bt)
    then have "B_ID bt = BT_currentBatchID b" by (auto simp: seal_batch_def)
    with dup obtain err where "pg_CreateBatch pg (W_store w) bt (BT_records b) = (Some err, W_store w)" by blast
    with Inr assms(1,2,5) show ?thesis by (auto simp: CloseCurrentBatch_def)
  qed (use assms(2,5) in \<open>auto simp: CloseCurrentBatch_def\<close>)
qed

section \<open>What the store has of closed batches\<close>

text \<open>Postgres refuses identifiers it knows, so that what was committed stays, whichever batches follow.\<close>

definition pg_holds :: "pg_api \<Rightarrow> PgState \<Rightarrow> Batch \<times> Record list \<Rightarrow> bool" where
  "pg_holds pg s br \<longleftrightarrow> (\<exists>row rows. batch_row pg (fst br) = Inr row \<and> row \<in> set (PG_batches s)
     \<and> traverse (record_row pg) (snd br) = Inr rows \<and> set rows \<subseteq> set (PG_records s))"

interpretation pg_durable: durable_store "postgres_store pg" "pg_holds pg" "\<lambda>_ _. True" for pg
proof unfold_locales
  fix bt rs' s s' assume "st_CreateBatch (postgres_store pg) s bt rs' = (None, s')"
  then have "created pg s bt rs' s'" using pg_create_none by simp
  then show "pg_holds pg s' (bt, rs')" by (auto simp: created_def pg_holds_def)
next
  fix bt rs' br s e s' assume h: "pg_holds pg s br" "st_CreateBatch (postgres_store pg) s bt rs' = (e, s')"
  from h(2) have "pg_CreateBatch pg s bt rs' = (e, s')" by simp
  then show "pg_holds pg s' br"
  proof (cases rule: pg_create_cases)
    case committed
    then have "set (PG_batches s) \<subseteq> set (PG_batches s')" "set (PG_records s) \<subseteq> set (PG_records s')" by (auto simp: created_def)
    with h(1) show ?thesis unfolding pg_holds_def by blast
  qed (use h(1) in simp)
qed simp

section \<open>Retention\<close>

interpretation pg_retention: retention_system "postgres_store pg" "pg_inv pg" "pg_storable pg" "pg_sealable pg"
  "\<lambda>i. pg_uuid pg i = Inr i" local_dir_archive ld_inv "pg_deps pg sg h" for pg sg h
  by unfold_locales simp_all

text \<open>
  C14: On Postgres, too, tiering loses no record that \<open>json.Marshal\<close> accepts, while reads of the store succeed
  and are complete (\<open>pg_inv\<close>) and no \<open>Stat\<close> of the archive fails (\<open>ld_inv\<close>): whichever write to the
  store or other system call of the archive fails, and whether or not a failed statement took effect,
  a record that was in the store and that \<open>json.Marshal\<close> accepts is afterwards still there, or the
  archive holds, under the key of its batch, an object of which the JSON text of the record is a
  line. \<open>json.Marshal\<close> accepts every record that can be hashed and was committed in a year of at
  most four digits (\<open>marshal_hashable\<close>); any other is skipped and purged.
\<close>

theorem postgres_RunOnce_no_loss:
  assumes "RunOnce (pg_deps pg sg h) window now envs w = (res, w')"
    and "pg_inv pg (W_store w)" "ld_inv (W_archive w)" "safe_id (R_BatchID r)" "pg_GetRecord pg (W_store w) rid = Inr r"
    and "marshal_record r = Inr line"
  shows "pg_GetRecord pg (W_store w') rid = Inr r
    \<or> (\<exists>pre post. Get (W_archive w') (archive_key (R_BatchID r)) = Inr (bytes_of (pre @ line @ [LF] @ post)))"
proof -
  have "st_GetRecord (postgres_store pg) (W_store w) rid = Inr r" using assms(5) by simp
  from pg_retention.RunOnce_keeps [OF assms(1-4) this] have "pg_GetRecord pg (W_store w') rid = Inr r
      \<or> (\<exists>rs. r \<in> set rs \<and> Get (W_archive w') (archive_key (R_BatchID r)) = Inr (bytes_of (jsonl rs)))"
    by (simp add: kept_def local_dir_archive_def)
  with jsonl_line [OF assms(6)] show ?thesis by metis
qed

lemma purge_deletes:
  assumes "pg_uuid pg i = Inr k" "purge_batch (postgres_store pg) now i s = (None, s')"
  shows "list_all (\<lambda>r. R_BatchID r \<noteq> k) (PG_records s')"
proof -
  obtain x s1 s2 where p: "pg_DeleteRecordsByBatchID pg s1 i = (None, s2)"
      "pg_UpdateBatchStatus pg s2 i ''archived'' x = (None, s')"
    using assms(2) by (auto simp: purge_batch_def split: prod.splits option.splits)
  have "PG_records s2 = filter (\<lambda>r. R_BatchID r \<noteq> k) (PG_records s1)"
    using p(1) assms(1) by (auto simp: pg_DeleteRecordsByBatchID_def autocommit_def split: option.splits)
  moreover have "PG_records s' = PG_records s2" using p(2) by (cases rule: status_effect) simp_all
  ultimately show ?thesis by (simp add: list_all_iff)
qed

text \<open>
  C36: A connection that breaks while the records of a batch are read makes tiering lose the rest of
  them. If the result set ends after \<open>n\<close> rows and the batch is counted as tiered, the archived
  object has the first \<open>n\<close> records of the batch only, and all of its records are gone from the
  store.
\<close>

theorem broken_read_loses_records:
  assumes "tier_batch (pg_deps pg sg h) env b (res, w) = (res', w')" "TR_BatchesTiered res' \<noteq> TR_BatchesTiered res"
    and "PG_cut (W_store w) (SelectRecords (B_ID b)) = Some n" "pg_uuid pg (B_ID b) = Inr k"
    and "ld_inv (W_archive w)" "safe_id (B_ID b)"
  shows "Get (W_archive w') (archive_key (B_ID b)) = Inr (bytes_of (jsonl (take n
      (sort_key R_MerkleLeafIndex (filter (\<lambda>r. R_BatchID r = k) (PG_records (W_store w)))))))
    \<and> list_all (\<lambda>r. R_BatchID r \<noteq> k) (PG_records (W_store w'))"
proof -
  obtain rs where t: "pg_GetRecordsByBatchID pg (W_store w) (B_ID b) = Inr rs"
      "ar_PutArchive local_dir_archive (W_archive w) (B_ID b) (bytes_of (jsonl rs)) = (None, W_archive w')"
      "purge_batch (postgres_store pg) (tn_now env) (B_ID b) (W_store w) = (None, W_store w')"
    using tier_batch_counted [OF assms(1,2)] by auto
  have "rs = take n (sort_key R_MerkleLeafIndex (filter (\<lambda>r. R_BatchID r = k) (PG_records (W_store w))))"
    using t(1) assms(3,4) by (auto simp: pg_GetRecordsByBatchID_def scan_rows_def Let_def split: option.splits prod.splits if_splits)
  moreover have "Get (W_archive w') (archive_key (B_ID b)) = Inr (bytes_of (jsonl rs))"
    using lda.put_archive_get [OF assms(5,6) t(2)] by (simp add: local_dir_archive_def)
  moreover have "list_all (\<lambda>r. R_BatchID r \<noteq> k) (PG_records (W_store w'))"
    using t(3) purge_deletes [OF assms(4)] by blast
  ultimately show ?thesis by simp
qed

section \<open>Concrete runs\<close>

text \<open>
  A server that takes every text, prints a space into the key of the sample record, puts shorter keys
  of an object first, as \<open>jsonb\<close> does, and keeps times to the microsecond.
\<close>

definition wide_key :: string where
  "wide_key = ''{'' @ json_key ''ab'' @ ''1,'' @ json_key ''c'' @ ''2}''"

definition turned_key :: string where
  "turned_key = ''{'' @ json_key ''c'' @ '' 2, '' @ json_key ''ab'' @ '' 1}''"

definition sample_pg :: pg_api where
  "sample_pg = \<lparr>pg_uuid = Inr, pg_varchar = (\<lambda>_. Inr), pg_text = Inr,
     pg_jsonb = (\<lambda>t. Inr (if t = sample_key then spaced_key else if t = wide_key then turned_key else t)),
     pg_jsonb_eq = (=), pg_int4 = Inr, pg_timestamptz = (\<lambda>t. Inr (t div 1000 * 1000)),
     pg_duplicate = NewErr ''duplicate key'', pg_foreign_key = NewErr ''foreign key'',
     pg_negative_offset = NewErr ''OFFSET must not be negative''\<rparr>"

definition empty_pg :: PgState where
  "empty_pg = \<lparr>PG_batches = [], PG_records = [], PG_worm = [], PG_fault = (\<lambda>_. None), PG_applied = (\<lambda>_. False),
     PG_cut = (\<lambda>_. None), PG_scan = (\<lambda>_. None)\<rparr>"

definition pg_world :: "write_io list \<Rightarrow> (PgState, LocalDirArchiveStore) World" where
  "pg_world plan = \<lparr>W_store = empty_pg, W_archive = empty_archive plan, W_dispatcher = None\<rparr>"

definition sample_pg_deps :: "(PgState, LocalDirArchiveStore) Deps" where
  "sample_pg_deps = pg_deps sample_pg (Sign toy_crypto (toy_keys ''v1'' [])) no_http"

lemma sample_pg_ok: "pg_inv sample_pg empty_pg"
  by (simp add: pg_inv_def pg_laws_def pg_ok_def pg_readable_def sample_pg_def empty_pg_def)

lemma sample_batch_row:
  "batch_row sample_pg bt = Inr (bt\<lparr>B_StartedAt := B_StartedAt bt div 1000 * 1000, B_ClosedAt := B_ClosedAt bt div 1000 * 1000\<rparr>)"
  by (cases "B_WORMObjectKey bt"; cases "B_BootstrapTableName bt")
    (simp_all add: batch_row_def sample_pg_def nullable_def)

lemma sample_sealable: "pg_sealable sample_pg bt"
  by (simp add: pg_sealable_def sample_batch_row same_seal_def)

lemma pg_seal: "seal_batch sample_pg_deps t b = seal_batch sample_deps t b"
  by (simp add: seal_batch_def sample_pg_deps_def sample_deps_def)

definition stored_record :: Record where
  "stored_record = (sample_record ''r1'')\<lparr>R_BatchID := ''b1'', R_MerkleLeafIndex := 0, R_PrimaryKey := spaced_key, R_AfterImage := spaced_key\<rparr>"

lemma stored_ids: "R_ID stored_record = ''r1''" "R_BatchID stored_record = ''b1''"
  by (simp_all add: stored_record_def sample_record_def)

lemma sample_record_row:
  "record_row sample_pg ((sample_record ''r1'')\<lparr>R_BatchID := ''b1'', R_MerkleLeafIndex := 0\<rparr>) = Inr stored_record"
  by (simp add: record_row_def sample_pg_def sample_record_def image_column_def nullable_def sample_raw(2) stored_record_def)

lemma sample_same_record:
  "same_record ((sample_record ''r1'')\<lparr>R_BatchID := ''b1'', R_MerkleLeafIndex := 0\<rparr>) stored_record"
proof -
  let ?r = "(sample_record ''r1'')\<lparr>R_BatchID := ''b1'', R_MerkleLeafIndex := 0\<rparr>"
  have n: "normalize_payload (record_payload ?r) = record_payload ?r"
    "normalize_payload (record_payload stored_record) = record_payload stored_record"
    by (rule normalize_format [OF year_ok_0], simp add: record_payload_def sample_record_def stored_record_def)+
  have "canonical_bytes (record_payload stored_record) = canonical_bytes (record_payload ?r)"
    unfolding canonical_bytes_def n
    by (simp add: marshal_payload_def marshal_raw_def raw_field_def sample_raw record_payload_def sample_record_def stored_record_def)
  then show ?thesis
    by (simp add: same_record_def record_leaf_def ComputeRecordLeafHash_def stored_record_def)
qed

lemma pg_create_sample:
  assumes "B_ID bt = ''b1''"
  shows "\<exists>row. batch_row sample_pg bt = Inr row \<and> pg_CreateBatch sample_pg empty_pg bt (BT_records sample_batcher)
    = (None, empty_pg\<lparr>PG_batches := [row], PG_records := [stored_record]\<rparr>)"
  using assms
  by (simp add: pg_CreateBatch_def exec_def empty_pg_def insert_batch_def insert_record_def sample_batch_row sample_records
      sample_record_row stored_ids)

lemma pg_close_with:
  assumes "\<And>d. \<exists>e a. PutCheckpoint (empty_archive plan) ''b1'' d = (e, a) \<and> (e = None) = good"
  shows "\<exists>e b' w' row. CloseCurrentBatch sample_pg_deps sample_close_env sample_batcher (pg_world plan) = (e, b', w')
    \<and> (e = None) = good \<and> row \<in> set (PG_batches (W_store w')) \<and> B_ID row = ''b1''"
proof -
  obtain bt where bt: "seal_batch sample_pg_deps 0 sample_batcher = Inr bt" "B_ID bt = ''b1''" "B_StartedAt bt = 0" "B_ClosedAt bt = 0"
    using sample_seal pg_seal by metis
  obtain chk where chk: "marshal_checkpoint (checkpoint_object sample_batcher bt) = Inr chk"
    using marshal_checkpoint_total [of "checkpoint_object sample_batcher bt"] bt by (auto simp: checkpoint_object_def)
  obtain row where row: "batch_row sample_pg bt = Inr row" "pg_CreateBatch sample_pg empty_pg bt (BT_records sample_batcher)
      = (None, empty_pg\<lparr>PG_batches := [row], PG_records := [stored_record]\<rparr>)" using pg_create_sample [OF bt(2)] by blast
  have rid: "B_ID row = ''b1''" using row(1) bt(2) by (auto simp: sample_batch_row)
  obtain e a where put: "PutCheckpoint (empty_archive plan) ''b1'' (bytes_of chk) = (e, a)" "(e = None) = good" using assms by blast
  have "ce_closedAt sample_close_env = 0" "ar_PutCheckpoint local_dir_archive = PutCheckpoint"
    by (simp_all add: sample_close_env_def local_dir_archive_def)
  with bt chk row put rid show ?thesis
    by (cases e) (auto simp: CloseCurrentBatch_def sample_records Let_def sample_pg_deps_def pg_world_def)
qed

theorem postgres_closed_records_verify_witness:
  "\<exists>b' w'. CloseCurrentBatch sample_pg_deps sample_close_env sample_batcher (pg_world []) = (None, b', w')
     \<and> VR_Valid (fst (VerifyRecord (pg_GetRecordForVerification sample_pg (W_store w'))
          (Verify toy_crypto (toy_keys ''v1'' [])) 99 ''r1''))"
proof -
  have "\<exists>e a. PutCheckpoint (empty_archive []) ''b1'' d = (e, a) \<and> (e = None) = True" for d using put_b1 by auto
  from pg_close_with [OF this] obtain b' w' where
    c: "CloseCurrentBatch sample_pg_deps sample_close_env sample_batcher (pg_world []) = (None, b', w')" by auto
  have st: "list_all (pg_storable sample_pg) (BT_records sample_batcher)"
    using sample_record_row sample_same_record by (simp add: sample_records pg_storable_def)
  have un: "unseen (postgres_store sample_pg) empty_pg ''b1'' (BT_records sample_batcher)"
    by (simp add: unseen_def pg_GetRecordsByBatchID_def pg_GetRecord_def exec_def scan_rows_def empty_pg_def sample_pg_def list_all_iff)
  have "VR_Valid (fst (VerifyRecord (pg_GetRecordForVerification sample_pg (W_store w'))
      (Verify toy_crypto (toy_keys ''v1'' [])) 99 (R_ID (hd (BT_records sample_batcher)))))"
    by (rule postgres_closed_records_verify [OF c [unfolded sample_pg_deps_def]])
      (use sample_state(1) sample_pg_ok sample_sealable toy_good(1) st un in \<open>simp_all add: sample_records pg_world_def\<close>)
  with c show ?thesis by (auto simp: sample_records sample_record_def)
qed

theorem postgres_close_stuck_witness:
  "\<exists>err w'. CloseCurrentBatch sample_pg_deps sample_close_env sample_batcher
       (pg_world [(io_ok ''0'')\<lparr>io_create := Some (NewErr ''ENOSPC'')\<rparr>]) = (Some err, sample_batcher, w')
     \<and> fst (CloseCurrentBatch sample_pg_deps sample_close_env sample_batcher w') \<noteq> None"
proof -
  let ?plan = "[(io_ok ''0'')\<lparr>io_create := Some (NewErr ''ENOSPC'')\<rparr>]"
  have "\<exists>e a. PutCheckpoint (empty_archive ?plan) ''b1'' d = (e, a) \<and> (e = None) = False" for d
    by (simp add: archive_eval Let_def)
  from pg_close_with [OF this] obtain err b' w' row where
    c: "CloseCurrentBatch sample_pg_deps sample_close_env sample_batcher (pg_world ?plan) = (Some err, b', w')"
      "row \<in> set (PG_batches (W_store w'))" "B_ID row = ''b1''" by auto
  from c(1) have b: "b' = sample_batcher" by (cases rule: CloseCurrentBatch_cases) auto
  obtain e b2 w2 where d: "CloseCurrentBatch sample_pg_deps sample_close_env sample_batcher w' = (e, b2, w2)" using prod_cases3 by blast
  have "dp_store sample_pg_deps = postgres_store sample_pg" by (simp add: sample_pg_deps_def)
  from postgres_close_stuck [OF this _ _ c(2) d] c b d show ?thesis by (simp add: sample_records sample_pg_def)
qed

text \<open>A record with a key of two columns, and the row the server keeps of it.\<close>

definition wide_record :: Record where
  "wide_record = (sample_record ''r1'')\<lparr>R_BatchID := ''b1'', R_PrimaryKey := wide_key\<rparr>"

lemma wide_raw:
  "compact wide_key = Inr wide_key" "compact turned_key = Inr (''{'' @ json_key ''c'' @ ''2,'' @ json_key ''ab'' @ ''1}'')"
  "wide_key \<noteq> []" "turned_key \<noteq> []" "wide_key \<noteq> sample_key"
  by (simp_all add: wide_key_def turned_key_def sample_key_def compact_def json_key_def compact_eval)

lemma wide_row: "record_row sample_pg wide_record = Inr (wide_record\<lparr>R_PrimaryKey := turned_key, R_AfterImage := spaced_key\<rparr>)"
  by (simp add: record_row_def sample_pg_def wide_record_def sample_record_def image_column_def nullable_def sample_raw(2) wide_raw(5))

lemma wide_texts:
  "\<exists>a d. canonical_bytes (record_payload (wide_record\<lparr>R_PrimaryKey := turned_key, R_AfterImage := spaced_key\<rparr>)) = Inr a
     \<and> canonical_bytes (record_payload wide_record) = Inr d \<and> a \<noteq> d"
proof -
  let ?r' = "wide_record\<lparr>R_PrimaryKey := turned_key, R_AfterImage := spaced_key\<rparr>"
  have n: "normalize_payload (record_payload wide_record) = record_payload wide_record"
    "normalize_payload (record_payload ?r') = record_payload ?r'"
    by (rule normalize_format [OF year_ok_0], simp add: record_payload_def sample_record_def wide_record_def)+
  have "\<exists>d. canonical_bytes (record_payload wide_record) = Inr d" "\<exists>a. canonical_bytes (record_payload ?r') = Inr a"
    unfolding canonical_bytes_def n
    by (simp_all add: marshal_payload_def marshal_raw_def raw_field_def sample_raw wide_raw record_payload_def
        sample_record_def wide_record_def)
  then obtain a d where t: "canonical_bytes (record_payload ?r') = Inr a" "canonical_bytes (record_payload wide_record) = Inr d" by blast
  have u: "payload_utf8 (record_payload wide_record)" "payload_utf8 (record_payload ?r')"
    by (simp_all add: payload_utf8_def record_payload_def wide_record_def sample_record_def)
  have "\<not> same_payload (record_payload wide_record) (record_payload ?r')"
    by (simp add: same_payload_def record_payload_def marshal_raw_def wide_record_def wide_raw) (simp add: wide_key_def json_key_def)
  then have "a \<noteq> d"
    using leaf_hash_binds [OF _ _ u, unfolded n] t by (auto simp: ComputeRecordLeafHash_def)
  with t show ?thesis by blast
qed

theorem postgres_altered_record_invalid_witness:
  "\<exists>a d b s'. pg_CreateBatch sample_pg empty_pg b [wide_record] = (None, s') \<and> canonical_bytes (record_payload wide_record) = Inr d \<and> a \<noteq> d
     \<and> (\<not> VR_Valid (fst (VerifyRecord (pg_GetRecordForVerification sample_pg s') (Verify toy_crypto (toy_keys ''v1'' [])) 0 ''r1''))
        \<or> (\<exists>payload e proof. pg_GetRecordForVerification sample_pg s' ''r1'' = Inr (payload, e)
             \<and> choose_proof e (P_MerkleLeafIndex payload) = Inr proof \<and> \<not> inj_on sha256 (hashed [d] a proof)))"
proof -
  obtain a d where t: "canonical_bytes (record_payload (wide_record\<lparr>R_PrimaryKey := turned_key, R_AfterImage := spaced_key\<rparr>)) = Inr a"
      "canonical_bytes (record_payload wide_record) = Inr d" "a \<noteq> d" using wide_texts by blast
  obtain tr where tr: "BuildTree (map HashLeaf [d]) = Inr tr" using BuildTree_total by blast
  let ?b = "sample_sealed\<lparr>B_MerkleRoot := Root tr\<rparr>"
  have b: "B_ID ?b = ''b1''" "R_ID wide_record = ''r1''" "R_BatchID wide_record = ''b1''" "R_MerkleLeafIndex wide_record = 0"
    by (simp_all add: sample_sealed_def wide_record_def sample_record_def)
  obtain s' where c: "pg_CreateBatch sample_pg empty_pg ?b [wide_record] = (None, s')"
    using b by (simp add: pg_CreateBatch_def exec_def empty_pg_def insert_batch_def insert_record_def sample_batch_row wide_row)
  have "\<not> VR_Valid (fst (VerifyRecord (pg_GetRecordForVerification sample_pg s') (Verify toy_crypto (toy_keys ''v1'' [])) 0 (R_ID wide_record)))
      \<or> (\<exists>payload e proof. pg_GetRecordForVerification sample_pg s' (R_ID wide_record) = Inr (payload, e)
           \<and> choose_proof e (P_MerkleLeafIndex payload) = Inr proof \<and> \<not> inj_on sha256 (hashed [d] a proof))"
    by (rule postgres_altered_record_invalid [OF c sample_pg_ok _ _ wide_row tr _ t(1)]) (use b t(3) in \<open>simp_all add: numbered_def\<close>)
  with c t(2,3) show ?thesis unfolding b(2) by blast
qed

text \<open>A batch of two records, with a connection that may break.\<close>

definition tier_pg :: "(stmt \<Rightarrow> nat option) \<Rightarrow> PgState" where
  "tier_pg broken = empty_pg\<lparr>PG_batches := [sample_sealed],
     PG_records := [tier_record, tier_record\<lparr>R_ID := ''r2'', R_MerkleLeafIndex := 1\<rparr>], PG_cut := broken\<rparr>"

definition tier_pg_world :: "(stmt \<Rightarrow> nat option) \<Rightarrow> (PgState, LocalDirArchiveStore) World" where
  "tier_pg_world broken = \<lparr>W_store = tier_pg broken, W_archive = empty_archive [], W_dispatcher = None\<rparr>"

lemma tier_ids: "R_ID tier_record = ''r1''" "R_BatchID tier_record = ''b1''" "R_MerkleLeafIndex tier_record = 0" "B_ID sample_sealed = ''b1''"
  by (simp_all add: tier_record_def sample_record_def sample_sealed_def)

lemma tier_pg_inv: "pg_inv sample_pg (tier_pg (\<lambda>_. None))"
  by (simp add: pg_inv_def pg_laws_def pg_ok_def pg_readable_def sample_pg_def tier_pg_def empty_pg_def tier_ids)

theorem postgres_RunOnce_no_loss_witness:
  "\<exists>res w' line. RunOnce sample_pg_deps 100 200 (\<lambda>_. sample_tier_env) (tier_pg_world (\<lambda>_. None)) = (res, w')
     \<and> marshal_record tier_record = Inr line
     \<and> (pg_GetRecord sample_pg (W_store w') ''r1'' = Inr tier_record
        \<or> (\<exists>pre post. Get (W_archive w') (archive_key ''b1'') = Inr (bytes_of (pre @ line @ [LF] @ post))))"
proof -
  let ?w = "tier_pg_world (\<lambda>_. None)"
  obtain res w' where r: "RunOnce sample_pg_deps 100 200 (\<lambda>_. sample_tier_env) ?w = (res, w')" by fastforce
  obtain line where l: "marshal_record tier_record = Inr line" using tier_marshal by blast
  have "pg_inv sample_pg (W_store ?w)" "ld_inv (W_archive ?w)" "safe_id (R_BatchID tier_record)"
    "pg_GetRecord sample_pg (W_store ?w) ''r1'' = Inr tier_record"
    using tier_pg_inv sample_state(4,5)
    by (simp_all add: tier_pg_world_def tier_ids pg_GetRecord_def exec_def tier_pg_def empty_pg_def sample_pg_def)
  from postgres_RunOnce_no_loss [OF r [unfolded sample_pg_deps_def] this l] r l show ?thesis unfolding tier_ids by blast
qed

lemma broken_tier_sample:
  "\<exists>w'. tier_batch sample_pg_deps sample_tier_env sample_sealed (tier_zero, tier_pg_world (\<lambda>_. Some 1))
     = (\<lparr>TR_BatchesTiered = 1, TR_RecordsPurged = 1, TR_Errors = []\<rparr>, w')"
proof -
  obtain t where t: "marshal_record tier_record = Inr t" using tier_marshal by blast
  obtain a where a: "PutArchive (empty_archive []) ''b1'' (bytes_of (t @ [LF])) = (None, a)" using put_archive_b1 by blast
  have p: "\<exists>s. purge_batch (postgres_store sample_pg) 200 ''b1'' (tier_pg (\<lambda>_. Some 1)) = (None, s)"
    by (simp add: purge_batch_def pg_InsertWORMIndex_def pg_DeleteRecordsByBatchID_def pg_UpdateBatchStatus_def autocommit_def
        worm_row_def nullable_def sample_pg_def tier_pg_def empty_pg_def tier_ids)
  have "pg_GetRecordsByBatchID sample_pg (tier_pg (\<lambda>_. Some 1)) ''b1'' = Inr [tier_record]"
    by (simp add: pg_GetRecordsByBatchID_def exec_def scan_rows_def sample_pg_def tier_pg_def empty_pg_def tier_ids)
  moreover have "W_archive (tier_pg_world c) = empty_archive []" "W_store (tier_pg_world c) = tier_pg c" "tn_now sample_tier_env = 200" for c
    by (simp_all add: tier_pg_world_def sample_tier_env_def)
  ultimately show ?thesis using t a p tier_ids(4)
    by (auto simp: tier_batch_def tier_zero_def local_dir_archive_def sample_pg_deps_def)
qed

theorem broken_read_loses_records_witness:
  "\<exists>res' w'. tier_batch sample_pg_deps sample_tier_env sample_sealed (tier_zero, tier_pg_world (\<lambda>_. Some 1)) = (res', w')
     \<and> TR_Errors res' = [] \<and> Get (W_archive w') (archive_key ''b1'') = Inr (bytes_of (jsonl [tier_record]))
     \<and> list_all (\<lambda>r. R_BatchID r \<noteq> ''b1'') (PG_records (W_store w'))"
proof -
  obtain w' where t: "tier_batch sample_pg_deps sample_tier_env sample_sealed (tier_zero, tier_pg_world (\<lambda>_. Some 1))
     = (\<lparr>TR_BatchesTiered = 1, TR_RecordsPurged = 1, TR_Errors = []\<rparr>, w')" using broken_tier_sample by blast
  have "Get (W_archive w') (archive_key (B_ID sample_sealed)) = Inr (bytes_of (jsonl (take 1
      (sort_key R_MerkleLeafIndex (filter (\<lambda>r. R_BatchID r = ''b1'') (PG_records (W_store (tier_pg_world (\<lambda>_. Some 1)))))))))
    \<and> list_all (\<lambda>r. R_BatchID r \<noteq> ''b1'') (PG_records (W_store w'))"
    by (rule broken_read_loses_records [OF t [unfolded sample_pg_deps_def]])
      (use sample_state(4,5) in \<open>simp_all add: tier_pg_world_def tier_ids tier_zero_def tier_pg_def empty_pg_def sample_pg_def\<close>)
  moreover have "take 1 (sort_key R_MerkleLeafIndex (filter (\<lambda>r. R_BatchID r = ''b1'') (PG_records (W_store (tier_pg_world (\<lambda>_. Some 1))))))
      = [tier_record]"
    by (simp add: tier_pg_world_def tier_pg_def empty_pg_def tier_ids)
  ultimately show ?thesis using t tier_ids(4) by simp
qed

end
