(* ===== verification/Api.thy ===== *)
theory Api
  imports Snapshot Store Alerting Keyfile
begin

text \<open>
  The HTTP interface, \<open>internal/api\<close>: tokens and permissions (\<open>rbac.go\<close>), routing
  (\<open>server.go\<close>) and the handlers (\<open>handlers.go\<close>).

  A request is given by what the handlers read of it; a reply is the value a handler passes
  to the JSON encoder. The lemmas show who is served what, that decryption for display inverts
  the encryption of the snapshot builder, and what the public verification endpoint vouches for.
\<close>

section \<open>Permissions\<close>

type_synonym Permission = string

definition PermRecordRead :: Permission where "PermRecordRead = ''record:read''"
definition PermRecordSearch :: Permission where "PermRecordSearch = ''record:search''"
definition PermBatchRead :: Permission where "PermBatchRead = ''batch:read''"
definition PermVerificationRead :: Permission where "PermVerificationRead = ''verification:read''"
definition PermConfigRead :: Permission where "PermConfigRead = ''config:read''"
definition PermAlertAck :: Permission where "PermAlertAck = ''alert:acknowledge''"

definition RolePermissions :: "(string, Permission list) gomap" where
  "RolePermissions =
     [(''admin'', [PermRecordRead, PermRecordSearch, PermBatchRead, PermVerificationRead, PermConfigRead, PermAlertAck]),
      (''app_service'', [PermRecordRead, PermRecordSearch, PermVerificationRead]),
      (''auditor'', [PermRecordRead, PermRecordSearch, PermBatchRead, PermVerificationRead, PermConfigRead]),
      (''verifier'', [PermVerificationRead])]"

type_synonym StaticTokenValidator = "(string, Permission list) gomap"

definition ValidateToken :: "StaticTokenValidator \<Rightarrow> string \<Rightarrow> string \<times> Permission list \<times> bool" where
  "ValidateToken v token =
     (case map_of v token of None \<Rightarrow> ([], [], False) | Some perms \<Rightarrow> (''service'', perms, True))"

fun hasPermission :: "Permission list \<Rightarrow> Permission \<Rightarrow> bool" where
  "hasPermission [] required = False"
| "hasPermission (p # ps) required = (if p = required then True else hasPermission ps required)"

section \<open>Requests and replies\<close>

record VerifyRequest =
  VQ_RecordCanonical :: RecordCanonicalPayload
  VQ_Proof :: "ProofNode list"
  VQ_MerkleRootHex :: string
  VQ_SignatureHex :: string
  VQ_KeyVersion :: string
  VQ_PublicKeyBase64 :: string

text \<open>
  What a handler reads of a request: method, path (without percent encoding), the first value of
  each query parameter, the header \<open>Authorization\<close> and, for the one endpoint that takes a body,
  the outcome of decoding it.
\<close>

record Request =
  RQ_Method :: string
  RQ_Path :: string
  RQ_Query :: "(string, string) gomap"
  RQ_Authorization :: string
  RQ_Body :: "VerifyRequest result"

definition query :: "Request \<Rightarrow> string \<Rightarrow> string" where
  "query r k = the_default [] (map_of (RQ_Query r) k)"

record PublicRootEntry =
  PE_BatchID :: string
  PE_StartedAt :: string
  PE_ClosedAt :: string
  PE_EventCount :: int
  PE_MerkleRootHex :: string
  PE_SignatureHex :: string
  PE_KeyVersion :: string

datatype body =
    ErrorBody string string
  | HealthBody string
  | RecordsBody "Record list" int int
  | RecordBody Record
  | ResultBody VerificationResult
  | BatchBody "(string \<times> gval) list"
  | ConfigsBody "TableConfig list"
  | AckBody string
  | KeysBody string string
  | RootsBody "PublicRootEntry list" int int
  | VerdictBody bool string

text \<open>
  A reply with status and value, the portal page, the not-found page, a redirect, or a connection
  that the server drops because the handler panicked.
\<close>

datatype response =
    Reply nat body
  | Portal
  | NotFoundPage
  | Redirect string
  | Dropped string

definition writeError :: "nat \<Rightarrow> string \<Rightarrow> string \<Rightarrow> response" where
  "writeError status errCode message = Reply status (ErrorBody errCode message)"

text \<open>
  The dependencies of the handlers; \<open>H_time\<close> is the clock and \<open>H_number\<close> the text that the
  JSON encoder prints for the float nearest to a decimal literal (none if it overflows).
\<close>

record 's Handler =
  H_store :: "'s StoreI"
  H_state :: 's
  H_configMgr :: Manager
  H_verifier :: "string \<Rightarrow> VerificationResult \<times> go_error option"
  H_publicKey :: "string \<Rightarrow> bytes result"
  H_decrypt :: "(bytes \<Rightarrow> string \<Rightarrow> bytes result) option"
  H_memorySink :: "MemorySink option"
  H_crypto :: crypto_api
  H_time :: time
  H_number :: "string \<Rightarrow> string option"

section \<open>Handlers\<close>

text \<open>\<open>strconv.Atoi\<close> with its error dropped: 0 for no number, the nearest bound for too large a one.\<close>

definition atoi :: "string \<Rightarrow> int" where
  "atoi s =
     (let neg = has_prefix s ''-''; ds = (if neg \<or> has_prefix s ''+'' then tl s else s) in
      if ds = [] \<or> \<not> list_all is_digit ds then 0
      else if neg then max (- int (nat_of_digits ds)) (- (2 ^ 63)) else min (int (nat_of_digits ds)) (2 ^ 63 - 1))"

definition HealthHandler :: "'s Handler \<Rightarrow> Request \<Rightarrow> response" where
  "HealthHandler h r = Reply 200 (HealthBody (format_RFC3339 (H_time h)))"

definition GetRecordsHandler :: "'s Handler \<Rightarrow> Request \<Rightarrow> response" where
  "GetRecordsHandler h r =
     (let table = query r ''table''; pkStr = query r ''primary_key'';
          limit = atoi (query r ''limit''); offset = atoi (query r ''offset'');
          limit = (if limit \<le> 0 then 50 else limit) in
      if table = [] \<or> pkStr = [] then writeError 400 ''BAD_REQUEST'' ''Both 'table' and 'primary_key' parameters are required''
      else
        let pkJSON = (if has_prefix pkStr ''{'' then pkStr else ''{'' @ json_key ''id'' @ [DQ] @ pkStr @ [DQ] @ ''}'') in
        case st_GetRecordsByTableAndPK (H_store h) (H_state h) table pkJSON limit offset of
          Inl err \<Rightarrow> writeError 500 ''INTERNAL_ERROR'' (error_text err)
        | Inr records \<Rightarrow> Reply 200 (RecordsBody records limit offset))"

definition trim_slashes :: "string \<Rightarrow> string" where
  "trim_slashes p = rev (dropWhile ((=) SLASH) (rev (dropWhile ((=) SLASH) p)))"

definition pathParts :: "Request \<Rightarrow> string list" where
  "pathParts r = split_slash (trim_slashes (RQ_Path r))"

text \<open>\<open>json.Unmarshal\<close> into an \<open>interface{}\<close>: numbers become floats, the last of equal keys wins.\<close>

fun any_val :: "(string \<Rightarrow> string option) \<Rightarrow> jval \<Rightarrow> gval option"
  and any_list :: "(string \<Rightarrow> string option) \<Rightarrow> jval list \<Rightarrow> gval list option"
  and any_fields :: "(string \<Rightarrow> string option) \<Rightarrow> (string \<times> jval) list \<Rightarrow> (string, gval) gomap \<Rightarrow> (string, gval) gomap option" where
  "any_val num JNull = Some GNil"
| "any_val num (JBool b) = Some (GBool b)"
| "any_val num (JNum t) = map_option (\<lambda>x. GFloat (Some x)) (num t)"
| "any_val num (JStr s) = Some (GString s)"
| "any_val num (JArr vs) = map_option GList (any_list num vs)"
| "any_val num (JObj kvs) = map_option GMap (any_fields num kvs [])"
| "any_list num [] = Some []"
| "any_list num (v # vs) =
     Option.bind (any_val num v) (\<lambda>x. Option.bind (any_list num vs) (\<lambda>xs. Some (x # xs)))"
| "any_fields num [] m = Some m"
| "any_fields num ((k, v) # kvs) m = Option.bind (any_val num v) (\<lambda>x. any_fields num kvs (AList.update k x m))"

definition unmarshal_any :: "(string \<Rightarrow> string option) \<Rightarrow> string \<Rightarrow> gval option" where
  "unmarshal_any num s = Option.bind (json_parse s) (any_val num)"

text \<open>Into a map: an object, or null for a nil map; anything else is an error.\<close>

definition unmarshal_map :: "(string \<Rightarrow> string option) \<Rightarrow> string \<Rightarrow> (string, gval) gomap option option" where
  "unmarshal_map num s =
     (case json_parse s of
        Some (JObj kvs) \<Rightarrow> map_option Some (any_fields num kvs [])
      | Some JNull \<Rightarrow> Some None
      | _ \<Rightarrow> None)"

text \<open>\<open>strings.SplitN(str, ":", 3)\<close>, when it has three parts.\<close>

definition split_colon :: "string \<Rightarrow> (string \<times> string) option" where
  "split_colon s =
     (if CHR '':'' \<in> set s then Some (takeWhile (\<lambda>c. c \<noteq> CHR '':'') s, tl (dropWhile (\<lambda>c. c \<noteq> CHR '':'') s)) else None)"

definition decrypt_value :: "(string \<Rightarrow> string option) \<Rightarrow> (bytes \<Rightarrow> string \<Rightarrow> bytes result) \<Rightarrow> gval \<Rightarrow> gval" where
  "decrypt_value num decrypt v =
     (case v of
        GString str \<Rightarrow>
          if \<not> has_prefix str ''enc:'' then v
          else (case Option.bind (split_colon str) (\<lambda>(_, rest). split_colon rest) of
                  None \<Rightarrow> v
                | Some (version, b64) \<Rightarrow>
                    (case b64_decode b64 of
                       None \<Rightarrow> v
                     | Some cipherBytes \<Rightarrow>
                         (case decrypt cipherBytes version of
                            Inl _ \<Rightarrow> v
                          | Inr plaintext \<Rightarrow>
                              (case unmarshal_any num (string_of plaintext) of
                                 Some parsed \<Rightarrow> parsed
                               | None \<Rightarrow> GString (string_of plaintext)))))
      | _ \<Rightarrow> v)"

definition decryptMap :: "(string \<Rightarrow> string option) \<Rightarrow> (bytes \<Rightarrow> string \<Rightarrow> bytes result) \<Rightarrow> row \<Rightarrow> row" where
  "decryptMap num decrypt data = map (\<lambda>(k, v). (k, decrypt_value num decrypt v)) data"

text \<open>An image that is no object is left alone; a marshalling error, which is dropped, leaves it empty.\<close>

definition decrypt_image :: "(string \<Rightarrow> string option) \<Rightarrow> (bytes \<Rightarrow> string \<Rightarrow> bytes result) \<Rightarrow> string \<Rightarrow> string" where
  "decrypt_image num decrypt img =
     (if img = [] then img
      else case unmarshal_map num img of
        None \<Rightarrow> img
      | Some None \<Rightarrow> ''null''
      | Some (Some data) \<Rightarrow>
          (case marshal (GMap (decryptMap num decrypt data)) of Inl _ \<Rightarrow> [] | Inr t \<Rightarrow> t))"

definition decryptRecordFields :: "(string \<Rightarrow> string option) \<Rightarrow> (bytes \<Rightarrow> string \<Rightarrow> bytes result) \<Rightarrow> Record \<Rightarrow> Record" where
  "decryptRecordFields num decrypt rec =
     rec\<lparr>R_BeforeImage := decrypt_image num decrypt (R_BeforeImage rec),
         R_AfterImage := decrypt_image num decrypt (R_AfterImage rec)\<rparr>"

definition GetRecordDetailHandler :: "'s Handler \<Rightarrow> Request \<Rightarrow> response" where
  "GetRecordDetailHandler h r =
     (if length (pathParts r) < 3 then writeError 400 ''BAD_REQUEST'' ''Record ID required in path''
      else case st_GetRecord (H_store h) (H_state h) (pathParts r ! 2) of
        Inl err \<Rightarrow>
          if errors_Is err ErrNotFound then writeError 404 ''NOT_FOUND'' ''Record not found''
          else writeError 500 ''INTERNAL_ERROR'' (error_text err)
      | Inr rec \<Rightarrow>
          Reply 200 (RecordBody
            (case H_decrypt h of
               Some decrypt \<Rightarrow> if query r ''decrypt'' = ''true'' then decryptRecordFields (H_number h) decrypt rec else rec
             | None \<Rightarrow> rec)))"

definition VerifyRecordHandler :: "'s Handler \<Rightarrow> Request \<Rightarrow> response" where
  "VerifyRecordHandler h r =
     (if length (pathParts r) < 3 then writeError 400 ''BAD_REQUEST'' ''Record ID required in path''
      else case H_verifier h (pathParts r ! 2) of
        (_, Some (Panic m)) \<Rightarrow> Dropped m
      | (_, Some err) \<Rightarrow> writeError 404 ''VERIFICATION_ERROR'' (error_text err)
      | (res, None) \<Rightarrow> Reply 200 (ResultBody res))"

definition batch_view :: "Batch \<Rightarrow> (string \<times> gval) list" where
  "batch_view b =
     [(''id'', GString (B_ID b)), (''started_at'', GString (format_RFC3339 (B_StartedAt b))),
      (''closed_at'', GString (format_RFC3339 (B_ClosedAt b))), (''event_count'', GInt KInt (B_EventCount b)),
      (''merkle_root'', GString (hex_encode (B_MerkleRoot b))), (''signature'', GString (hex_encode (B_Signature b))),
      (''key_version'', GString (B_KeyVersion b)), (''binlog_file'', GString (B_BinlogFile b)),
      (''binlog_position'', GInt KUint32 (int (unat (B_BinlogPosition b)))), (''status'', GString (B_Status b)),
      (''worm_object_key'', case B_WORMObjectKey b of None \<Rightarrow> GNil | Some k \<Rightarrow> GString k),
      (''is_bootstrap'', GBool (B_IsBootstrap b))]"

definition GetBatchHandler :: "'s Handler \<Rightarrow> Request \<Rightarrow> response" where
  "GetBatchHandler h r =
     (if length (pathParts r) < 3 then writeError 400 ''BAD_REQUEST'' ''Batch ID required in path''
      else case st_GetBatch (H_store h) (H_state h) (pathParts r ! 2) of
        Inl err \<Rightarrow>
          if errors_Is err ErrNotFound then writeError 404 ''NOT_FOUND'' ''Batch not found''
          else writeError 500 ''INTERNAL_ERROR'' (error_text err)
      | Inr batch \<Rightarrow> Reply 200 (BatchBody (batch_view batch)))"

definition GetConfigHandler :: "'s Handler \<Rightarrow> Request \<Rightarrow> response" where
  "GetConfigHandler h r = Reply 200 (ConfigsBody (GetAllConfigs (H_configMgr h)))"

text \<open>The one handler that changes state.\<close>

definition AcknowledgeAlertHandler :: "'s Handler \<Rightarrow> Request \<Rightarrow> response \<times> 's Handler" where
  "AcknowledgeAlertHandler h r =
     (if length (pathParts r) < 3 then (writeError 400 ''BAD_REQUEST'' ''Alert ID required in path'', h)
      else
        let alertID = pathParts r ! 2;
            missing = writeError 404 ''NOT_FOUND'' ''Alert not found or already acknowledged'' in
        case H_memorySink h of
          None \<Rightarrow> (missing, h)
        | Some sink \<Rightarrow>
            (case Acknowledge sink alertID of (ok, sink') \<Rightarrow>
               if ok then (Reply 200 (AckBody alertID), h\<lparr>H_memorySink := Some sink'\<rparr>)
               else (missing, h\<lparr>H_memorySink := Some sink'\<rparr>)))"

definition PublicKeysHandler :: "'s Handler \<Rightarrow> Request \<Rightarrow> response" where
  "PublicKeysHandler h r =
     (case H_publicKey h [] of
        Inl _ \<Rightarrow> writeError 500 ''INTERNAL_ERROR'' ''Failed to retrieve public key''
      | Inr pubKey \<Rightarrow> Reply 200 (KeysBody (b64_encode pubKey) (hex_encode pubKey)))"

definition root_entry :: "Batch \<Rightarrow> PublicRootEntry" where
  "root_entry b =
     \<lparr>PE_BatchID = B_ID b, PE_StartedAt = format_RFC3339 (B_StartedAt b), PE_ClosedAt = format_RFC3339 (B_ClosedAt b),
      PE_EventCount = B_EventCount b, PE_MerkleRootHex = hex_encode (B_MerkleRoot b),
      PE_SignatureHex = hex_encode (B_Signature b), PE_KeyVersion = B_KeyVersion b\<rparr>"

definition PublicRootsHandler :: "'s Handler \<Rightarrow> Request \<Rightarrow> response" where
  "PublicRootsHandler h r =
     (let limit = atoi (query r ''limit''); offset = atoi (query r ''offset'');
          limit = (if limit \<le> 0 then 100 else limit) in
      case st_ListBatches (H_store h) (H_state h) limit offset of
        Inl err \<Rightarrow> writeError 500 ''INTERNAL_ERROR'' (error_text err)
      | Inr batches \<Rightarrow> Reply 200 (RootsBody (map root_entry batches) limit offset))"

text \<open>The key to check against: the caller's, if the request has one, or the server's for the version.\<close>

definition choose_key :: "'s Handler \<Rightarrow> VerifyRequest \<Rightarrow> (string, bytes) sum" where
  "choose_key h req =
     (if VQ_PublicKeyBase64 req \<noteq> [] then
        (case b64_decode (VQ_PublicKeyBase64 req) of None \<Rightarrow> Inl ''Invalid public_key_base64'' | Some pk \<Rightarrow> Inr pk)
      else
        (case H_publicKey h (VQ_KeyVersion req) of
           Inl _ \<Rightarrow> Inl (''Public key not found for version: '' @ VQ_KeyVersion req)
         | Inr pk \<Rightarrow> Inr pk))"

definition PublicVerifyProofHandler :: "'s Handler \<Rightarrow> Request \<Rightarrow> response" where
  "PublicVerifyProofHandler h r =
     (case RQ_Body r of
        Inl err \<Rightarrow> writeError 400 ''BAD_REQUEST'' (''Invalid json payload: '' @ error_text err)
      | Inr req \<Rightarrow>
      (case hex_decode (VQ_MerkleRootHex req) of
         None \<Rightarrow> writeError 400 ''BAD_REQUEST'' ''Invalid merkle_root_hex''
       | Some expectedRoot \<Rightarrow>
      (case hex_decode (VQ_SignatureHex req) of
         None \<Rightarrow> writeError 400 ''BAD_REQUEST'' ''Invalid signature_hex''
       | Some signature \<Rightarrow>
      (case choose_key h req of
         Inl message \<Rightarrow> writeError 400 ''BAD_REQUEST'' message
       | Inr pubKey \<Rightarrow>
      (case ed25519_Verify (H_crypto h) pubKey expectedRoot signature of
         Inl err \<Rightarrow> Dropped (error_text err)
       | Inr sigValid \<Rightarrow>
           if \<not> sigValid then Reply 200 (VerdictBody False ''invalid digital signature'')
           else case ComputeRecordLeafHash (VQ_RecordCanonical req) of
             Inl err \<Rightarrow> Reply 200 (VerdictBody False (''failed to compute leaf hash: '' @ error_text err))
           | Inr leafHash \<Rightarrow>
               if \<not> VerifyProof leafHash (VQ_Proof req) expectedRoot
               then Reply 200 (VerdictBody False ''merkle proof does not match expected root'')
               else Reply 200 (VerdictBody True (format_RFC3339 (H_time h))))))))"

section \<open>Routing\<close>

datatype endpoint =
    EHealth | EPortal | ERoot | EKeys | ERoots | EVerifyProof
  | ERecords | ERecordDetail | EVerifyRecord | EBatch | EConfig | EAlert
  | ERedirect string

text \<open>
  \<open>ServeMux\<close>: paths are cleaned and redirected to their clean form (except for \<open>CONNECT\<close>), a
  subtree asked for without its slash is redirected, and otherwise the longest pattern wins.
\<close>

definition cleanPath :: "string \<Rightarrow> string" where
  "cleanPath p =
     (if p = [] then ''/''
      else let np = path_string (filepath_Clean (if is_abs p then p else ''/'' @ p)) in
        if last p = SLASH \<and> np \<noteq> ''/'' then np @ ''/'' else np)"

definition match_path :: "string \<Rightarrow> endpoint" where
  "match_path p =
     (if p = ''/health'' then EHealth
      else if p = ''/verify'' then EPortal
      else if p = ''/public/verification/keys'' then EKeys
      else if p = ''/public/verification/roots'' then ERoots
      else if p = ''/public/verification/verify'' then EVerifyProof
      else if p = ''/audit/records'' then ERecords
      else if has_prefix p ''/audit/records/'' then (if has_suffix p ''/verify'' then EVerifyRecord else ERecordDetail)
      else if has_prefix p ''/audit/batches/'' then EBatch
      else if p = ''/audit/config'' then EConfig
      else if has_prefix p ''/audit/alerts/'' then EAlert
      else if p = ''/audit/batches'' \<or> p = ''/audit/alerts'' then ERedirect (p @ ''/'')
      else ERoot)"

definition route :: "Request \<Rightarrow> endpoint" where
  "route r =
     (let p = RQ_Path r; p' = (if RQ_Method r = ''CONNECT'' then p else cleanPath p) in
      case match_path p' of
        ERedirect u \<Rightarrow> ERedirect u
      | e \<Rightarrow> if p' \<noteq> p then ERedirect p' else e)"

definition RBACMiddleware ::
  "Permission \<Rightarrow> StaticTokenValidator \<Rightarrow> ('s Handler \<Rightarrow> Request \<Rightarrow> response \<times> 's Handler)
     \<Rightarrow> 's Handler \<Rightarrow> Request \<Rightarrow> response \<times> 's Handler" where
  "RBACMiddleware required validator next h r =
     (if RQ_Authorization r = [] then (writeError 401 ''UNAUTHORIZED'' ''Missing authorization header'', h)
      else case ValidateToken validator (TrimSpace (TrimPrefix (RQ_Authorization r) ''Bearer '')) of
        (caller, perms, valid) \<Rightarrow>
          if \<not> valid then (writeError 403 ''FORBIDDEN'' ''Invalid token or insufficient credentials'', h)
          else if \<not> hasPermission perms required
          then (writeError 403 ''FORBIDDEN'' (''Access denied: missing permission '' @ required), h)
          else next h r)"

definition pure_handler :: "('s Handler \<Rightarrow> Request \<Rightarrow> response) \<Rightarrow> 's Handler \<Rightarrow> Request \<Rightarrow> response \<times> 's Handler" where
  "pure_handler f h r = (f h r, h)"

definition serve :: "StaticTokenValidator \<Rightarrow> 's Handler \<Rightarrow> Request \<Rightarrow> response \<times> 's Handler" where
  "serve v h r =
     (case route r of
        EHealth \<Rightarrow> (HealthHandler h r, h)
      | EPortal \<Rightarrow> (Portal, h)
      | ERoot \<Rightarrow> (if RQ_Path r = ''/'' then Portal else NotFoundPage, h)
      | EKeys \<Rightarrow> (PublicKeysHandler h r, h)
      | ERoots \<Rightarrow> (PublicRootsHandler h r, h)
      | EVerifyProof \<Rightarrow>
          (if RQ_Method r \<noteq> ''POST'' then writeError 405 ''METHOD_NOT_ALLOWED'' ''POST required''
           else PublicVerifyProofHandler h r, h)
      | ERecords \<Rightarrow> RBACMiddleware PermRecordRead v (pure_handler GetRecordsHandler) h r
      | EVerifyRecord \<Rightarrow> RBACMiddleware PermVerificationRead v (pure_handler VerifyRecordHandler) h r
      | ERecordDetail \<Rightarrow> RBACMiddleware PermRecordRead v (pure_handler GetRecordDetailHandler) h r
      | EBatch \<Rightarrow> RBACMiddleware PermBatchRead v (pure_handler GetBatchHandler) h r
      | EConfig \<Rightarrow> RBACMiddleware PermConfigRead v (pure_handler GetConfigHandler) h r
      | EAlert \<Rightarrow> RBACMiddleware PermAlertAck v AcknowledgeAlertHandler h r
      | ERedirect u \<Rightarrow> (Redirect u, h))"

section \<open>Who is served what\<close>

text \<open>The header carries a known token, and the token the permission.\<close>

definition authorised :: "StaticTokenValidator \<Rightarrow> Request \<Rightarrow> Permission \<Rightarrow> bool" where
  "authorised v r p \<longleftrightarrow> RQ_Authorization r \<noteq> []
     \<and> (\<exists>perms. map_of v (TrimSpace (TrimPrefix (RQ_Authorization r) ''Bearer '')) = Some perms \<and> p \<in> set perms)"

definition required :: "endpoint \<Rightarrow> Permission option" where
  "required e = (case e of
       ERecords \<Rightarrow> Some PermRecordRead | ERecordDetail \<Rightarrow> Some PermRecordRead
     | EVerifyRecord \<Rightarrow> Some PermVerificationRead | EBatch \<Rightarrow> Some PermBatchRead
     | EConfig \<Rightarrow> Some PermConfigRead | EAlert \<Rightarrow> Some PermAlertAck | _ \<Rightarrow> None)"

text \<open>The permission without which nobody is to see a value.\<close>

fun needs :: "body \<Rightarrow> Permission option" where
  "needs (RecordsBody _ _ _) = Some PermRecordRead"
| "needs (RecordBody _) = Some PermRecordRead"
| "needs (ResultBody _) = Some PermVerificationRead"
| "needs (BatchBody _) = Some PermBatchRead"
| "needs (ConfigsBody _) = Some PermConfigRead"
| "needs (AckBody _) = Some PermAlertAck"
| "needs _ = None"

definition permitted :: "StaticTokenValidator \<Rightarrow> Request \<Rightarrow> response \<Rightarrow> bool" where
  "permitted v r res = (case res of
       Reply _ b \<Rightarrow> (case needs b of Some p \<Rightarrow> authorised v r p | None \<Rightarrow> True) | _ \<Rightarrow> True)"

definition refused :: "response \<Rightarrow> bool" where
  "refused res = (case res of Reply st (ErrorBody _ _) \<Rightarrow> st = 401 \<or> st = 403 | _ \<Rightarrow> False)"

lemma hasPermission_iff: "hasPermission perms p \<longleftrightarrow> p \<in> set perms"
  by (induction perms) auto

lemma RBAC_cases:
  "authorised v r p \<and> RBACMiddleware p v f h r = f h r
   \<or> \<not> authorised v r p \<and> refused (fst (RBACMiddleware p v f h r)) \<and> snd (RBACMiddleware p v f h r) = h"
  by (auto simp: RBACMiddleware_def authorised_def ValidateToken_def hasPermission_iff writeError_def refused_def
      split: option.splits)

lemma permitted_error [simp]: "permitted v r (writeError st errCode why)"
  by (simp add: permitted_def writeError_def)

lemma refused_permitted: "refused res \<Longrightarrow> permitted v r res"
  by (auto simp: refused_def permitted_def split: response.splits body.splits)

lemma handler_permitted:
  "permitted v r (HealthHandler h r)" "permitted v r (PublicKeysHandler h r)" "permitted v r (PublicRootsHandler h r)"
  "permitted v r (PublicVerifyProofHandler h r)"
  "authorised v r PermRecordRead \<Longrightarrow> permitted v r (GetRecordsHandler h r)"
  "authorised v r PermRecordRead \<Longrightarrow> permitted v r (GetRecordDetailHandler h r)"
  "authorised v r PermVerificationRead \<Longrightarrow> permitted v r (VerifyRecordHandler h r)"
  "authorised v r PermBatchRead \<Longrightarrow> permitted v r (GetBatchHandler h r)"
  "authorised v r PermConfigRead \<Longrightarrow> permitted v r (GetConfigHandler h r)"
  "authorised v r PermAlertAck \<Longrightarrow> permitted v r (fst (AcknowledgeAlertHandler h r))"
  by (auto simp: HealthHandler_def PublicKeysHandler_def PublicRootsHandler_def PublicVerifyProofHandler_def
      GetRecordsHandler_def GetRecordDetailHandler_def VerifyRecordHandler_def GetBatchHandler_def GetConfigHandler_def
      AcknowledgeAlertHandler_def Let_def permitted_def [of _ _ "Reply _ _"] permitted_def [of _ _ "Dropped _"]
      split: sum.splits option.splits prod.splits go_error.splits)

lemma RBAC_permitted:
  assumes "authorised v r p \<Longrightarrow> permitted v r (fst (f h r))"
  shows "permitted v r (fst (RBACMiddleware p v f h r))"
  using RBAC_cases [of v r p f h] assms refused_permitted by metis

text \<open>
  C4: Access control is complete. For every request the server answers: an endpoint that requires a
  permission refuses a caller without it (401 or 403) and changes nothing; no reply that carries
  records, verification results, batches, configurations or an acknowledgement goes to a caller
  whose token lacks the permission for it; and state changes only for a caller who may
  acknowledge alerts.
\<close>

theorem serve_authorised:
  "case serve v h r of (res, h') \<Rightarrow>
     (case required (route r) of
        Some p \<Rightarrow> authorised v r p \<or> refused res \<and> h' = h
      | None \<Rightarrow> h' = h)
     \<and> permitted v r res \<and> (h' = h \<or> authorised v r PermAlertAck)"
proof -
  have pure: "snd (RBACMiddleware p v (pure_handler f) h r) = h" for p f
    using RBAC_cases [of v r p "pure_handler f" h] by (auto simp: pure_handler_def)
  have "permitted v r (fst (RBACMiddleware p v (pure_handler f) h r))" if "authorised v r p \<Longrightarrow> permitted v r (f h r)" for p f
    using RBAC_permitted [of v r p "pure_handler f" h] that by (simp add: pure_handler_def)
  then have p: "permitted v r (fst (RBACMiddleware PermRecordRead v (pure_handler GetRecordsHandler) h r))"
    "permitted v r (fst (RBACMiddleware PermRecordRead v (pure_handler GetRecordDetailHandler) h r))"
    "permitted v r (fst (RBACMiddleware PermVerificationRead v (pure_handler VerifyRecordHandler) h r))"
    "permitted v r (fst (RBACMiddleware PermBatchRead v (pure_handler GetBatchHandler) h r))"
    "permitted v r (fst (RBACMiddleware PermConfigRead v (pure_handler GetConfigHandler) h r))"
    "permitted v r (fst (RBACMiddleware PermAlertAck v AcknowledgeAlertHandler h r))"
    using handler_permitted(5-9) RBAC_permitted [of v r PermAlertAck AcknowledgeAlertHandler h] handler_permitted(10) by blast+
  have pages: "permitted v r Portal" "permitted v r NotFoundPage" "permitted v r (Redirect u)" for u
    by (simp_all add: permitted_def)
  show ?thesis
    using RBAC_cases [of v r] pure p pages handler_permitted(1-4) [of v r h]
    by (cases "route r") (simp_all add: serve_def required_def case_prod_unfold, blast+)
qed

section \<open>Decryption for display\<close>

text \<open>
  What is shown for a value of a single column that went through JSON: strings and booleans as they
  were, a byte string as its base64 text, and an integer as the float \<open>num\<close> reads from its decimal
  text (or as that text, if there is none).
\<close>

fun single :: "gval \<Rightarrow> bool" where
  "single (GString s) = valid_utf8 s"
| "single (GBool _) = True"
| "single (GBytes _) = True"
| "single (GInt _ _) = True"
| "single _ = False"

fun shown :: "(string \<Rightarrow> string option) \<Rightarrow> gval \<Rightarrow> gval" where
  "shown num (GBytes bs) = GString (b64_encode bs)"
| "shown num (GInt k i) = (case num (show_int i) of None \<Rightarrow> GString (show_int i) | Some x \<Rightarrow> GFloat (Some x))"
| "shown num v = v"

lemma parse_quote: "valid_utf8 s \<Longrightarrow> json_parse (quote s) = Some (JStr s)"
  using accepted_compact [OF accepted_quote [of "[]" s]] parse_val_quote [of s "[]" _ "[]"] by (auto simp: json_parse_def blank_def)

lemma parse_bool: "json_parse ''true'' = Some (JBool True)" "json_parse ''false'' = Some (JBool False)"
proof -
  have "\<not> isl (compact ''true'')" "\<not> isl (compact ''false'')"
    using accepted_compact [OF accepted_word(2) [of "[]"]] accepted_compact [OF accepted_word(3) [of "[]"]] by auto
  moreover have "parse_val (Suc n) ''true'' = Some (JBool True, [])" "parse_val (Suc n) ''false'' = Some (JBool False, [])" for n
    by (simp_all add: skip_ws_def is_space_def)
  note this(1) [of 9] this(2) [of 11]
  ultimately show "json_parse ''true'' = Some (JBool True)" "json_parse ''false'' = Some (JBool False)"
    by (simp_all add: json_parse_def)
qed

lemma parse_int: "json_parse (show_int i) = Some (JNum (show_int i))"
proof -
  obtain c cs where t: "show_int i = c # cs" "is_digit c \<or> c = CHR ''-''" "list_all is_digit cs"
  proof (cases "i < 0")
    case True
    obtain c cs where "show_nat (nat (- i)) = c # cs" "is_digit c" "list_all is_digit cs" using show_nat_literal by blast
    with True show ?thesis by (intro that [of "CHR ''-''" "c # cs"]) (simp_all add: show_int_def)
  next
    case False
    obtain c cs where "show_nat (nat i) = c # cs" "is_digit c" "list_all is_digit cs" using show_nat_literal by blast
    with False show ?thesis by (intro that [of c cs]) (simp_all add: show_int_def)
  qed
  have n: "list_all num_char (c # cs)" using t(2,3) by (auto simp: num_char_def list_all_iff)
  then have "takeWhile num_char (c # cs) = c # cs" by (simp add: takeWhile_eq_all_conv list_all_iff)
  moreover have "skip_ws (c # cs) = c # cs" "c \<notin> set ''{[tfn'' \<union> {DQ}"
    using t(2) by (auto simp: skip_ws_def is_space_def is_digit_def)
  ultimately have "parse_val (Suc n) (show_int i) = Some (JNum (show_int i), dropWhile num_char (c # cs))" for n
    by (simp add: t(1) del: takeWhile.simps dropWhile.simps)
  moreover have "\<not> isl (compact (show_int i))" using accepted_compact [OF accepted_number [OF num_literal_int]] by (metis isl_def sum.distinct(1))
  ultimately show ?thesis by (simp add: json_parse_def)
qed

lemma quote_b64: "quote (b64_encode bs) = [DQ] @ b64_encode bs @ [DQ]" "valid_utf8 (b64_encode bs)"
proof -
  have "code (b64_char n) < 0x80 \<and> escape_ascii (b64_char n) = [b64_char n]" if "n < 64" for n
  proof -
    have "code (b64_char n) = b64_code n" using of_char_b64_char that by blast
    moreover have "b64_code n \<notin> {0x22, 0x26, 0x3C, 0x3E, 0x5C}" "0x20 \<le> b64_code n" "b64_code n < 0x7F"
      using that by (auto simp: b64_code_def split: if_splits)
    ultimately show ?thesis by (auto simp: escape_ascii_def html_special_def)
  qed
  then have all: "\<forall>c \<in> set (b64_encode bs). code c < 0x80 \<and> escape_ascii c = [c]"
    by (induction bs rule: b64_encode.induct) (auto simp: b64_groups escape_ascii_def [of "CHR ''=''"] html_special_def)
  have "quote_body u = u" if "\<forall>c \<in> set u. code c < 0x80 \<and> escape_ascii c = [c]" for u
    using that by (induction u) (auto simp: quote_body_Cons)
  with all have "quote_body (b64_encode bs) = b64_encode bs" by blast
  then show "quote (b64_encode bs) = [DQ] @ b64_encode bs @ [DQ]" by (simp add: quote_def)
  show "valid_utf8 (b64_encode bs)" using all by (auto intro: valid_utf8_ascii)
qed

lemma unmarshal_single:
  assumes "single v"
  shows "\<exists>t. marshal v = Inr t \<and> (case unmarshal_any num t of Some p \<Rightarrow> p | None \<Rightarrow> GString t) = shown num v"
proof (cases v)
  case (GBytes bs)
  then show ?thesis using parse_quote [OF quote_b64(2) [of bs], unfolded quote_b64(1)] by (simp add: unmarshal_any_def)
qed (use assms in \<open>auto simp: unmarshal_any_def parse_quote parse_bool parse_int split: option.splits\<close>)

lemma split_enc_text:
  assumes "CHR '':'' \<notin> set ver"
  shows "Option.bind (split_colon (enc_text ver ct)) (\<lambda>(_, rest). split_colon rest) = Some (ver, b64_encode ct)"
proof -
  have "takeWhile (\<lambda>c. c \<noteq> CHR '':'') (ver @ '':'' @ b64_encode ct) = ver"
    "dropWhile (\<lambda>c. c \<noteq> CHR '':'') (ver @ '':'' @ b64_encode ct) = CHR '':'' # b64_encode ct"
    using assms by (induction ver) auto
  then show ?thesis by (simp add: enc_text_def split_colon_def)
qed

definition looks_encrypted :: "gval \<Rightarrow> bool" where
  "looks_encrypted v = (case v of GString s \<Rightarrow> has_prefix s ''enc:'' | _ \<Rightarrow> False)"

text \<open>A row that can be shown again: the listed columns hold single values, the others look plain.\<close>

definition showable :: "string list \<Rightarrow> row \<Rightarrow> bool" where
  "showable cols row \<longleftrightarrow> list_all (\<lambda>(k, v). if k \<in> set cols \<and> v \<noteq> GNil then single v else \<not> looks_encrypted v) row"

lemma decrypt_plain: "\<not> looks_encrypted v \<Longrightarrow> decrypt_value num decrypt v = v"
  by (cases v) (auto simp: decrypt_value_def looks_encrypted_def)

lemma decrypt_column:
  assumes "process_column (Some (Encrypt c m)) cols rnd (k, v) = Inr kv'" "gcm_ok c" "nonce_ok (rnd k)"
    "CHR '':'' \<notin> set (KM_version m)" "if k \<in> set cols \<and> v \<noteq> GNil then single v else \<not> looks_encrypted v"
  shows "kv' = (k, snd kv') \<and> decrypt_value num (Decrypt c m) (snd kv') = (if k \<in> set cols then shown num v else v)"
proof (cases "k \<in> set cols \<and> v \<noteq> GNil")
  case True
  then obtain t where t: "marshal v = Inr t" "(case unmarshal_any num t of Some p \<Rightarrow> p | None \<Rightarrow> GString t) = shown num v"
    using assms(5) unmarshal_single by (metis (full_types))
  obtain ct ver where e: "Encrypt c m (rnd k) (bytes_of t) = Inr (ct, ver)" "kv' = (k, GString (enc_text ver ct))"
    using assms(1) True t(1) by (auto simp: process_column_def)
  have ver: "ver = KM_version m" using e(1) by (auto simp: Encrypt_def)
  have "Decrypt c m ct ver = Inr (bytes_of t)" using lke.decrypt_encrypt [of c "rnd k" m] assms(2,3) e(1) by blast
  moreover have "has_prefix (enc_text ver ct) ''enc:''" by (simp add: has_prefix_def enc_text_def)
  ultimately have "decrypt_value num (Decrypt c m) (snd kv') = (case unmarshal_any num t of Some p \<Rightarrow> p | None \<Rightarrow> GString t)"
    using e(2) split_enc_text [of ver ct] assms(4) ver by (simp add: decrypt_value_def split: option.split)
  with True e(2) t(2) show ?thesis by simp
next
  case False
  then have "kv' = (k, v)" using process_column_plain [OF assms(1)] by auto
  with False assms(5) decrypt_plain show ?thesis by auto
qed

text \<open>
  C33: Decryption for display gives back what JSON carries. Let a row be processed by the snapshot builder with
  a key version that has no colon, let its listed columns hold strings of valid UTF-8, booleans,
  integers, byte strings or nil, and let no other column hold a string that begins with \<open>enc:\<close>. Then
  \<open>decryptMap\<close>, with the same key manager, shows the row with all other columns as they were, and in
  the listed columns strings, booleans and nil as they were, byte strings as their base64 text, and
  integers as the float of their decimal text. Only without integers and byte strings in the listed
  columns is it the inverse.
\<close>

theorem decryptMap_processRow:
  assumes "processRow (Some (Encrypt c m)) row cols rnd = Inr out" "gcm_ok c" "\<And>k. nonce_ok (rnd k)"
    and "CHR '':'' \<notin> set (KM_version m)" "showable cols row"
  shows "decryptMap num (Decrypt c m) out = map (\<lambda>(k, v). (k, if k \<in> set cols then shown num v else v)) row"
proof -
  have "list_all2 (\<lambda>kv kv'. process_column (Some (Encrypt c m)) cols rnd kv = Inr kv') row out"
    using assms(1) by (simp add: processRow_def traverse_Inr_iff)
  then show ?thesis using assms(5)
  proof (induction rule: list_all2_induct)
    case (Cons kv row kv' out)
    obtain k v where kv: "kv = (k, v)" by (cases kv)
    have "kv' = (k, snd kv') \<and> decrypt_value num (Decrypt c m) (snd kv') = (if k \<in> set cols then shown num v else v)"
      using Cons kv assms(2-4) by (intro decrypt_column) (auto simp: showable_def)
    with Cons kv show ?case by (cases kv') (auto simp: decryptMap_def showable_def)
  qed (simp add: decryptMap_def)
qed

theorem decryptMap_processRow_witness:
  "\<exists>out. processRow (Some (Encrypt toy_crypto (toy_keys ''v1'' [])))
       [(''id'', GInt KInt64 7), (''ssn'', GString ''x''), (''pin'', GInt KInt64 12)] [''ssn'', ''pin''] (\<lambda>_. Inr (replicate 12 3)) = Inr out
     \<and> decryptMap Some (Decrypt toy_crypto (toy_keys ''v1'' [])) out
         = [(''id'', GInt KInt64 7), (''ssn'', GString ''x''), (''pin'', GFloat (Some (show_int 12)))]"
proof -
  let ?row = "[(''id'', GInt KInt64 7), (''ssn'', GString ''x''), (''pin'', GInt KInt64 12)]"
  obtain out where p: "processRow (Some (Encrypt toy_crypto (toy_keys ''v1'' []))) ?row [''ssn'', ''pin''] (\<lambda>_. Inr (replicate 12 3)) = Inr out"
    by (simp add: processRow_def process_column_def Encrypt_def toy_keys_def aes_NewCipher_def)
  have "decryptMap Some (Decrypt toy_crypto (toy_keys ''v1'' [])) out
      = map (\<lambda>(k, v). (k, if k \<in> set [''ssn'', ''pin''] then shown Some v else v)) ?row"
    by (rule decryptMap_processRow [OF p toy_good(2)])
      (simp_all add: nonce_ok_def NonceSize_def toy_keys_def showable_def looks_encrypted_def)
  with p show ?thesis by simp
qed

section \<open>The public verification endpoint\<close>

text \<open>
  A positive verdict against the server's own key is sound. If the endpoint answers that a proof
  is valid and the request brought no key of its own, then the root is signed under the
  server's key of the stated version, and the canonical text of the record is one of the
  entries of every tree with that root, up to a collision among the hashed strings.
\<close>

theorem PublicVerifyProof_sound:
  assumes "PublicVerifyProofHandler h r = Reply 200 (VerdictBody True stamp)" "RQ_Body r = Inr req"
    and "VQ_PublicKeyBase64 req = []"
  shows "\<exists>pub root sig d. H_publicKey h (VQ_KeyVersion req) = Inr pub
    \<and> hex_decode (VQ_MerkleRootHex req) = Some root \<and> hex_decode (VQ_SignatureHex req) = Some sig
    \<and> ed_verify (H_crypto h) pub root sig \<and> canonical_bytes (VQ_RecordCanonical req) = Inr d
    \<and> (\<forall>D t. BuildTree (map HashLeaf D) = Inr t \<and> Root t = root
          \<and> inj_on sha256 (insert (0x00 # d) (set (verify_inputs (HashLeaf d) (VQ_Proof req)))
               \<union> (#) 0x00 ` set D \<union> set (buildInputs (map HashLeaf D))) \<longrightarrow> d \<in> set D)"
proof -
  obtain root sig pub leaf where v: "hex_decode (VQ_MerkleRootHex req) = Some root" "hex_decode (VQ_SignatureHex req) = Some sig"
      "choose_key h req = Inr pub" "ed25519_Verify (H_crypto h) pub root sig = Inr True"
      "ComputeRecordLeafHash (VQ_RecordCanonical req) = Inr leaf" "VerifyProof leaf (VQ_Proof req) root"
    using assms(1,2) by (auto simp: PublicVerifyProofHandler_def writeError_def split: option.splits sum.splits if_splits)
  obtain d where d: "canonical_bytes (VQ_RecordCanonical req) = Inr d" "leaf = HashLeaf d"
    using v(5) by (auto simp: ComputeRecordLeafHash_def)
  have "H_publicKey h (VQ_KeyVersion req) = Inr pub" using v(3) assms(3) by (auto simp: choose_key_def split: sum.splits)
  moreover have "ed_verify (H_crypto h) pub root sig" using v(4) by (auto simp: ed25519_Verify_def split: if_splits)
  ultimately show ?thesis using v(1,2,6) d verify_proof_member by blast
qed

text \<open>
  With a key of the caller's choice the verdict says nothing about the server. For any record that
  can be hashed, a caller who supplies a public key and a signature that verifies under it gets
  a positive verdict for a one-leaf tree made of that record, whatever keys the server has.
\<close>

theorem PublicVerifyProof_caller_key:
  assumes "RQ_Body r = Inr req" "ComputeRecordLeafHash (VQ_RecordCanonical req) = Inr leaf"
    and "VQ_Proof req = []" "VQ_MerkleRootHex req = hex_encode leaf" "VQ_SignatureHex req = hex_encode sig"
    and "VQ_PublicKeyBase64 req = b64_encode pub" "length pub = 32" "ed_verify (H_crypto h) pub leaf sig"
  shows "PublicVerifyProofHandler h r = Reply 200 (VerdictBody True (format_RFC3339 (H_time h)))"
proof -
  have "b64_encode pub \<noteq> []" using assms(7) by (cases pub rule: b64_encode.cases) auto
  then have "choose_key h req = Inr pub" using assms(6) by (simp add: choose_key_def)
  then show ?thesis using assms
    by (simp add: PublicVerifyProofHandler_def ed25519_Verify_def VerifyProof_iff)
qed

definition sample_handler :: "MemoryStore Handler" where
  "sample_handler = \<lparr>H_store = memory_store, H_state = NewMemoryStore, H_configMgr = NewManager,
     H_verifier = VerifyRecord (ms_GetRecordForVerification NewMemoryStore) (Verify toy_crypto (toy_keys ''v1'' [])) 0,
     H_publicKey = PublicKey (toy_keys ''v1'' []), H_decrypt = None, H_memorySink = None, H_crypto = toy_crypto,
     H_time = 0, H_number = Some\<rparr>"

definition sample_verify_request :: "bytes \<Rightarrow> bytes \<Rightarrow> string \<Rightarrow> VerifyRequest" where
  "sample_verify_request leaf key b64 = \<lparr>VQ_RecordCanonical = sample_payload, VQ_Proof = [], VQ_MerkleRootHex = hex_encode leaf,
     VQ_SignatureHex = hex_encode (key @ leaf), VQ_KeyVersion = ''v1'', VQ_PublicKeyBase64 = b64\<rparr>"

definition sample_proof_request :: "bytes \<Rightarrow> bytes \<Rightarrow> string \<Rightarrow> Request" where
  "sample_proof_request leaf key b64 = \<lparr>RQ_Method = ''POST'', RQ_Path = ''/public/verification/verify'', RQ_Query = [],
     RQ_Authorization = [], RQ_Body = Inr (sample_verify_request leaf key b64)\<rparr>"

lemma sample_leaf_hash: "\<exists>a. canonical_bytes sample_payload = Inr a \<and> ComputeRecordLeafHash sample_payload = Inr (HashLeaf a)"
  using sample_canonical(1) by (cases "canonical_bytes sample_payload") (auto simp: ComputeRecordLeafHash_def)

theorem PublicVerifyProof_sound_witness:
  "\<exists>a. PublicVerifyProofHandler sample_handler (sample_proof_request (HashLeaf a) (replicate 32 9) [])
       = Reply 200 (VerdictBody True (format_RFC3339 0))
     \<and> canonical_bytes sample_payload = Inr a \<and> a \<in> set [a]"
proof -
  obtain a where a: "canonical_bytes sample_payload = Inr a" "ComputeRecordLeafHash sample_payload = Inr (HashLeaf a)"
    using sample_leaf_hash by blast
  let ?r = "sample_proof_request (HashLeaf a) (replicate 32 9) []"
  have v: "PublicVerifyProofHandler sample_handler ?r = Reply 200 (VerdictBody True (format_RFC3339 0))"
    using a(2) by (simp add: PublicVerifyProofHandler_def sample_proof_request_def sample_verify_request_def sample_handler_def choose_key_def
        PublicKey_def toy_keys_def ed25519_Verify_def toy_crypto_def VerifyProof_iff)
  obtain req where req: "RQ_Body ?r = Inr req" "VQ_PublicKeyBase64 req = []" "VQ_RecordCanonical req = sample_payload"
    by (simp add: sample_proof_request_def sample_verify_request_def)
  from PublicVerifyProof_sound [OF v req(1,2)] v a(1) req(3) show ?thesis by auto
qed

theorem PublicVerifyProof_caller_key_witness:
  "\<exists>leaf. ComputeRecordLeafHash sample_payload = Inr leaf
     \<and> PublicVerifyProofHandler sample_handler (sample_proof_request leaf (replicate 32 4) (b64_encode (replicate 32 4)))
         = Reply 200 (VerdictBody True (format_RFC3339 0))
     \<and> PublicKey (toy_keys ''v1'' []) ''v1'' \<noteq> Inr (replicate 32 4)"
proof -
  obtain a where a: "ComputeRecordLeafHash sample_payload = Inr (HashLeaf a)" using sample_leaf_hash by blast
  let ?r = "sample_proof_request (HashLeaf a) (replicate 32 4) (b64_encode (replicate 32 4))"
  have "PublicVerifyProofHandler sample_handler ?r = Reply 200 (VerdictBody True (format_RFC3339 (H_time sample_handler)))"
    by (rule PublicVerifyProof_caller_key [where sig = "replicate 32 4 @ HashLeaf a" and pub = "replicate 32 4" and leaf = "HashLeaf a"
        and req = "sample_verify_request (HashLeaf a) (replicate 32 4) (b64_encode (replicate 32 4))"])
      (use a in \<open>simp_all add: sample_proof_request_def sample_verify_request_def sample_handler_def toy_crypto_def\<close>)
  moreover have "H_time sample_handler = 0" by (simp add: sample_handler_def)
  moreover have "PublicKey (toy_keys ''v1'' []) ''v1'' \<noteq> Inr (replicate 32 4)" by (simp add: PublicKey_def toy_keys_def)
  ultimately show ?thesis using a by metis
qed

end
