(* ===== verification/Commands.thy ===== *)
theory Commands
  imports Tiering Bootstrap Api Binlog
begin

text \<open>
  The decisions the programs under \<open>cmd/\<close> take around the packages: which key the daemon signs
  with, which tables it bootstraps and where it resumes, the key generator, the offline check
  of a proof document, and the window of the tiering job.

  Flags and environment variables are arguments; printing is not modelled, an exit code is.
\<close>

section \<open>The daemon\<close>

text \<open>Step 1: load the keyfile, or make a new one if that fails for whatever reason.\<close>

definition unlock_or_create ::
  "crypto_api \<Rightarrow> kdf \<Rightarrow> gen_env \<Rightarrow> go_error option \<Rightarrow> string \<Rightarrow> string \<Rightarrow> disk \<Rightarrow> LocalKeyManager result \<times> disk" where
  "unlock_or_create c kdf env read_fault keyfilePath passphrase files =
     (let passphrase = (if passphrase = [] then ''dev-insecure-passphrase'' else passphrase) in
      case LoadKeyfile c kdf read_fault keyfilePath passphrase files of
        Inr keyMgr \<Rightarrow> (Inr keyMgr, files)
      | Inl (Panic m) \<Rightarrow> (Inl (Panic m), files)
      | Inl err \<Rightarrow> GenerateAndSaveKeyfile c kdf env keyfilePath passphrase ''v1'' files)"

text \<open>Step 9: bootstrap every enabled table that asks for it and has not been started. Errors are logged.\<close>

definition wants_bootstrap :: "TableConfig \<Rightarrow> bool" where
  "wants_bootstrap tbl \<longleftrightarrow> TC_Enabled tbl \<and> TC_BootstrapRequired tbl \<and> TC_BootstrapStatus tbl = ''not_started''"

fun bootstrap_tables ::
  "'r encryptor option \<Rightarrow> ('s, 'a) Deps \<Rightarrow> (string \<Rightarrow> boot_db) \<Rightarrow> (string \<Rightarrow> 'r boot_env) \<Rightarrow> TableConfig list
     \<Rightarrow> ('s, 'a) RState \<Rightarrow> ('s, 'a) RState" where
  "bootstrap_tables enc dp db env [] st = st"
| "bootstrap_tables enc dp db env (tbl # tbls) st =
     bootstrap_tables enc dp db env tbls
       (if wants_bootstrap tbl
        then snd (BootstrapTable enc dp (db (TC_TableName tbl)) (env (TC_TableName tbl)) (TC_TableName tbl) st)
        else st)"

text \<open>Steps 4 and 10: the source resumes where the latest batch of the store ended.\<close>

definition resume_source :: "BinlogConfig \<Rightarrow> string \<times> 32 word \<Rightarrow> MySQLBinlogSource" where
  "resume_source cfg latest =
     (case latest of (lastFile, lastPos) \<Rightarrow>
        let s = NewMySQLBinlogSource cfg in
        if lastFile \<noteq> [] then ResumeFrom \<lparr>Pos_File = lastFile, Pos_Position = lastPos, Pos_GTID = []\<rparr> s else s)"

section \<open>The key generator\<close>

text \<open>The exit code, and the public key printed on success.\<close>

definition keygen ::
  "crypto_api \<Rightarrow> kdf \<Rightarrow> gen_env \<Rightarrow> go_error option \<Rightarrow> string \<Rightarrow> string \<Rightarrow> string \<Rightarrow> string \<Rightarrow> disk
     \<Rightarrow> (int \<times> string option) \<times> disk" where
  "keygen c kdf env read_fault keyfilePath passphrase version action files =
     (if passphrase = [] then ((1, None), files)
      else if action = ''generate'' then
        (case GenerateAndSaveKeyfile c kdf env keyfilePath passphrase version files of
           (Inl err, files) \<Rightarrow> ((1, None), files)
         | (Inr mgr, files) \<Rightarrow>
             ((0, Some (case PublicKey mgr version of Inr pub \<Rightarrow> b64_encode pub | Inl _ \<Rightarrow> [])), files))
      else if action = ''pubkey'' then
        (case LoadKeyfile c kdf read_fault keyfilePath passphrase files of
           Inl err \<Rightarrow> ((1, None), files)
         | Inr mgr \<Rightarrow>
             (case PublicKey mgr version of
                Inl err \<Rightarrow> ((1, None), files)
              | Inr pub \<Rightarrow> ((0, Some (b64_encode pub)), files)))
      else ((1, None), files))"

section \<open>The offline verifier\<close>

record ProofDoc =
  PD_RecordCanonical :: RecordCanonicalPayload
  PD_Proof :: "ProofNode list"
  PD_MerkleRootHex :: string
  PD_SignatureHex :: string
  PD_KeyVersion :: string
  PD_PublicKeyHex :: string

definition singleKey_Verify :: "crypto_api \<Rightarrow> bytes \<Rightarrow> bytes \<Rightarrow> bytes \<Rightarrow> string \<Rightarrow> bool result" where
  "singleKey_Verify c pubKey digest signature keyVersion =
     (if length pubKey \<noteq> 32 \<or> length signature \<noteq> 64 then Inl (NewErr ''invalid ed25519 key or signature size'')
      else ed25519_Verify c pubKey digest signature)"

text \<open>\<open>main\<close>, the second mode: a record of the store is checked against the key given, or the one in the keyfile.\<close>

definition verify_signer ::
  "crypto_api \<Rightarrow> kdf \<Rightarrow> go_error option \<Rightarrow> string \<Rightarrow> string \<Rightarrow> string \<Rightarrow> disk
     \<Rightarrow> (bytes \<Rightarrow> bytes \<Rightarrow> string \<Rightarrow> bool result) result" where
  "verify_signer c kdf read_fault keyfilePath passphrase pubKeyHex files =
     (if pubKeyHex \<noteq> [] then
        (case hex_decode pubKeyHex of
           None \<Rightarrow> Inl (NewErr ''Invalid hex public key'')
         | Some pkBytes \<Rightarrow> Inr (singleKey_Verify c pkBytes))
      else if passphrase \<noteq> [] then
        (case LoadKeyfile c kdf read_fault keyfilePath passphrase files of
           Inl err \<Rightarrow> Inl err
         | Inr km \<Rightarrow> Inr (Verify c km))
      else Inl (NewErr ''Verification requires either -pubkey <hex> or -passphrase <pass> to verify signature''))"

definition printResult_exit :: "VerificationResult \<Rightarrow> int" where
  "printResult_exit res = (if VR_Valid res then 0 else 1)"

text \<open>The exit code of the second mode; a panic ends a Go program with code 2.\<close>

definition exit_of :: "go_error \<Rightarrow> int" where
  "exit_of err = (case err of Panic _ \<Rightarrow> 2 | _ \<Rightarrow> 1)"

definition verify_record_command ::
  "(string \<Rightarrow> fetched result) \<Rightarrow> (bytes \<Rightarrow> bytes \<Rightarrow> string \<Rightarrow> bool result) result \<Rightarrow> go_error option \<Rightarrow> time
     \<Rightarrow> string \<Rightarrow> int" where
  "verify_record_command fetch signer db_open now recordID =
     (if recordID = [] then 1
      else case db_open of
        Some err \<Rightarrow> 1
      | None \<Rightarrow>
          (case signer of
             Inl err \<Rightarrow> exit_of err
           | Inr verify \<Rightarrow>
               (case VerifyRecord fetch verify now recordID of
                  (_, Some err) \<Rightarrow> exit_of err
                | (result, None) \<Rightarrow> printResult_exit result)))"

text \<open>\<open>verifyOfflineProof\<close> on the document read, or the error of reading and parsing it: whether it prints success.\<close>

definition verifyOfflineProof :: "crypto_api \<Rightarrow> ProofDoc result \<Rightarrow> string \<Rightarrow> bool" where
  "verifyOfflineProof c read pubKeyHex =
     (case read of
        Inl err \<Rightarrow> False
      | Inr doc \<Rightarrow>
      let pkToUse = (if pubKeyHex = [] then PD_PublicKeyHex doc else pubKeyHex) in
      if pkToUse = [] then False
      else case (hex_decode pkToUse, hex_decode (PD_MerkleRootHex doc), hex_decode (PD_SignatureHex doc)) of
        (Some pubBytes, Some rootBytes, Some sigBytes) \<Rightarrow>
          (case singleKey_Verify c pubBytes rootBytes sigBytes (PD_KeyVersion doc) of
             Inr True \<Rightarrow>
               (case ComputeRecordLeafHash (PD_RecordCanonical doc) of
                  Inl err \<Rightarrow> False
                | Inr leafHash \<Rightarrow> VerifyProof leafHash (PD_Proof doc) rootBytes)
           | _ \<Rightarrow> False)
      | _ \<Rightarrow> False)"

section \<open>The API server\<close>

text \<open>
  The tokens the server accepts, with the defaults it falls back to. The map literal is evaluated
  from top to bottom, so that of two equal tokens the second counts.
\<close>

definition api_tokens :: "string \<Rightarrow> string \<Rightarrow> StaticTokenValidator" where
  "api_tokens adminToken appToken =
     (let adminToken = (if adminToken = [] then ''admin-secret-token'' else adminToken);
          appToken = (if appToken = [] then ''app-service-token'' else appToken) in
      AList.update appToken (the_default [] (map_of RolePermissions ''app_service''))
        [(adminToken, the_default [] (map_of RolePermissions ''admin''))])"

text \<open>
  The key manager: the keyfile's, or a temporary one; the error of making that one is dropped,
  and there is no key manager then.
\<close>

definition api_keys ::
  "crypto_api \<Rightarrow> kdf \<Rightarrow> gen_env \<Rightarrow> go_error option \<Rightarrow> string \<Rightarrow> string \<Rightarrow> disk
     \<Rightarrow> LocalKeyManager option result \<times> disk" where
  "api_keys c kdf env read_fault keyfilePath passphrase files =
     (let keyfilePath = (if keyfilePath = [] then ''keys.enc'' else keyfilePath) in
      case LoadKeyfile c kdf read_fault keyfilePath passphrase files of
        Inr keyMgr \<Rightarrow> (Inr (Some keyMgr), files)
      | Inl (Panic m) \<Rightarrow> (Inl (Panic m), files)
      | Inl err \<Rightarrow>
          (case GenerateAndSaveKeyfile c kdf env ''keys.tmp.enc'' ''temporary-pass'' ''v1'' files of
             (Inr keyMgr, files) \<Rightarrow> (Inr (Some keyMgr), files)
           | (Inl _, files) \<Rightarrow> (Inr None, files)))"

section \<open>The tiering job\<close>

text \<open>\<open>time.Duration(*days) * 24 * time.Hour\<close> in 64-bit arithmetic, as \<open>NewService\<close> takes it.\<close>

definition tiering_window :: "64 word \<Rightarrow> duration" where
  "tiering_window days = NewService (sint (days * 24 * 3600000000000))"

text \<open>The exit code: zero exactly for a run that reports no error.\<close>

definition tiering_exit :: "TierResult result \<Rightarrow> int" where
  "tiering_exit r = (case r of Inl err \<Rightarrow> 1 | Inr res \<Rightarrow> if TR_Errors res = [] then 0 else 1)"

section \<open>Properties\<close>

text \<open>
  C39: Starting the daemon with a keyfile it cannot unlock destroys the keyfile. If loading fails (a
  mistyped passphrase is enough) and a new key can be made, the file is overwritten: what
  loads from it afterwards is the new key, whatever the file held before.
\<close>

theorem unlock_or_create_overwrites:
  assumes "LoadKeyfile c kdf None path pass files = Inl ErrInvalidPassphrase" "pass \<noteq> []"
    and "unlock_or_create c kdf env None path pass files = (Inr m, files')"
    and "ge_nonce env = Inr nonce" "length nonce = NonceSize" "gcm_ok c" "\<And>p s. length (kdf p s) = 32"
  shows "LoadKeyfile c kdf None path pass files' = Inr m \<and> KM_version m = ''v1''
    \<and> ge_keypair env = Inr (KM_publicKey m, KM_privateKey m)"
proof -
  have g: "GenerateAndSaveKeyfile c kdf env path pass ''v1'' files = (Inr m, files')"
    using assms(1-3) by (simp add: unlock_or_create_def)
  obtain salt where s: "ge_salt env = Inr salt"
    using g by (auto simp: GenerateAndSaveKeyfile_def Let_def split: sum.splits)
  have "ge_keypair env = Inr (KM_publicKey m, KM_privateKey m)"
    using g by (auto simp: GenerateAndSaveKeyfile_def Let_def split: sum.splits option.splits prod.splits)
  moreover have "valid_utf8 ''v1''" by simp
  ultimately show ?thesis using load_generated [OF g s assms(4-7)] by simp
qed

text \<open>
  C32: The offline verifier is sound against a key given on the command line: if it prints success,
  the root of the document is signed under that key, and the canonical text of the record is an
  entry of every tree with that root, up to a collision among the hashed strings.
\<close>

theorem verifyOfflineProof_sound:
  assumes "verifyOfflineProof c (Inr doc) (hex_encode pub)" "pub \<noteq> []"
  shows "\<exists>root sig d. hex_decode (PD_MerkleRootHex doc) = Some root \<and> hex_decode (PD_SignatureHex doc) = Some sig
    \<and> length sig = 64 \<and> ed_verify c pub root sig \<and> canonical_bytes (PD_RecordCanonical doc) = Inr d
    \<and> (\<forall>D t. BuildTree (map HashLeaf D) = Inr t \<and> Root t = root
          \<and> inj_on sha256 (insert (0x00 # d) (set (verify_inputs (HashLeaf d) (PD_Proof doc)))
               \<union> (#) 0x00 ` set D \<union> set (buildInputs (map HashLeaf D))) \<longrightarrow> d \<in> set D)"
proof -
  have k: "hex_encode pub \<noteq> []" using assms(2) by (cases pub) auto
  obtain root sig leaf where v: "hex_decode (PD_MerkleRootHex doc) = Some root" "hex_decode (PD_SignatureHex doc) = Some sig"
      "singleKey_Verify c pub root sig (PD_KeyVersion doc) = Inr True"
      "ComputeRecordLeafHash (PD_RecordCanonical doc) = Inr leaf" "VerifyProof leaf (PD_Proof doc) root"
    using assms(1) k by (auto simp: verifyOfflineProof_def Let_def split: option.splits sum.splits bool.splits)
  obtain d where d: "canonical_bytes (PD_RecordCanonical doc) = Inr d" "leaf = HashLeaf d"
    using v(4) by (auto simp: ComputeRecordLeafHash_def)
  have "length sig = 64" "ed_verify c pub root sig"
    using v(3) by (auto simp: singleKey_Verify_def ed25519_Verify_def split: if_splits)
  with v d verify_proof_member show ?thesis by blast
qed

text \<open>
  C31: The verification command is sound against a key given on the command line: if it exits with code
  0, the store delivered the record, the root of its batch is signed under that key, and the
  canonical text of the record is an entry of every batch with that root, up to a collision
  among the hashed strings.
\<close>

theorem verify_record_command_sound:
  assumes "verify_record_command fetch (verify_signer c kdf fault path pass (hex_encode pub) files) db now rid = 0"
    and "pub \<noteq> []"
  shows "\<exists>payload d. fetch rid = Inr (payload, d) \<and> ed_verify c pub (BV_MerkleRoot d) (BV_Signature d)
    \<and> (\<forall>D t. BuildTree (map HashLeaf D) = Inr t \<and> BV_MerkleRoot d = Root t
         \<and> (\<forall>a proof. canonical_bytes payload = Inr a \<and> choose_proof d (P_MerkleLeafIndex payload) = Inr proof
              \<longrightarrow> inj_on sha256 (hashed D a proof))
         \<longrightarrow> (\<exists>a\<in>set D. canonical_bytes payload = Inr a))"
proof -
  have "hex_encode pub \<noteq> []" using assms(2) by (cases pub) auto
  then have s: "verify_signer c kdf fault path pass (hex_encode pub) files = Inr (singleKey_Verify c pub)"
    by (simp add: verify_signer_def)
  have v: "VR_Valid (fst (VerifyRecord fetch (singleKey_Verify c pub) now rid))"
    using assms(1) unfolding s
    by (auto simp: verify_record_command_def printResult_exit_def exit_of_def
        split: if_splits option.splits prod.splits go_error.splits)
  then obtain payload d where f: "fetch rid = Inr (payload, d)"
      "singleKey_Verify c pub (BV_MerkleRoot d) (BV_Signature d) (BV_KeyVersion d) = Inr True"
    by (auto simp: VerifyRecord_valid_iff)
  have "ed_verify c pub (BV_MerkleRoot d) (BV_Signature d)"
    using f(2) by (auto simp: singleKey_Verify_def ed25519_Verify_def split: if_splits)
  with f(1) valid_record_member [OF v f(1)] show ?thesis by blast
qed

text \<open>
  Who may do what on the deployed server. A caller has a permission exactly if the token of the
  header is the application token and the permission one of three, or it is the administrator's,
  which has all six; if both are configured to the same text, the administrator's permissions are
  lost. A token that is not configured is the constant in the source.
\<close>

theorem api_tokens_authorised:
  "authorised (api_tokens adminToken appToken) r p \<longleftrightarrow>
     (let token = TrimSpace (TrimPrefix (RQ_Authorization r) ''Bearer '');
          adm = (if adminToken = [] then ''admin-secret-token'' else adminToken);
          app = (if appToken = [] then ''app-service-token'' else appToken) in
      RQ_Authorization r \<noteq> []
      \<and> (if token = app then p \<in> {PermRecordRead, PermRecordSearch, PermVerificationRead}
         else token = adm \<and> p \<in> {PermRecordRead, PermRecordSearch, PermBatchRead, PermVerificationRead,
                                  PermConfigRead, PermAlertAck}))"
proof -
  have roles: "the_default [] (map_of RolePermissions ''app_service'') = [PermRecordRead, PermRecordSearch, PermVerificationRead]"
    "the_default [] (map_of RolePermissions ''admin'')
       = [PermRecordRead, PermRecordSearch, PermBatchRead, PermVerificationRead, PermConfigRead, PermAlertAck]"
    by (simp_all add: RolePermissions_def the_default_def)
  have "map_of (api_tokens adminToken appToken) token =
      (if token = (if appToken = [] then ''app-service-token'' else appToken)
       then Some [PermRecordRead, PermRecordSearch, PermVerificationRead]
       else if token = (if adminToken = [] then ''admin-secret-token'' else adminToken)
       then Some [PermRecordRead, PermRecordSearch, PermBatchRead, PermVerificationRead, PermConfigRead, PermAlertAck]
       else None)" for token
    unfolding api_tokens_def Let_def roles update_conv by simp
  then show ?thesis unfolding authorised_def Let_def by simp
qed

lemma day_product:
  fixes days :: "64 word"
  assumes "- 106751 \<le> sint days" "sint days \<le> 106751"
  shows "sint (days * 24 * 3600000000000) = sint days * 86400000000000"
proof -
  have "days * 24 * 3600000000000 = word_of_int (sint days) * word_of_int 86400000000000" by simp
  also have "\<dots> = word_of_int (sint days * 86400000000000)" by (simp only: wi_hom_mult)
  finally have eq: "days * 24 * 3600000000000 = word_of_int (sint days * 86400000000000)" .
  have "sint (word_of_int x :: 64 word) = signed_take_bit 63 x" for x by (simp add: sint_sbintrunc')
  then have "sint (days * 24 * 3600000000000) = signed_take_bit 63 (sint days * 86400000000000)" unfolding eq .
  also have "\<dots> = sint days * 86400000000000" using assms by (intro signed_take_bit_int_eq_self) simp_all
  finally show ?thesis .
qed

text \<open>
  The retention window is what was asked for from one day up to 106751 days; zero and negative
  numbers give the default of 90 days; beyond, the 64-bit product wraps around, and 213504
  days become a window of less than an hour, after which almost everything is tiered.
\<close>

theorem tiering_window_wraps:
  "(if 0 < sint days \<and> sint days \<le> 106751 then tiering_window days = sint days * 24 * 3600000000000
    else if - 106751 \<le> sint days \<and> sint days \<le> 0 then tiering_window days = 90 * 24 * 3600000000000 else True)
   \<and> 0 < tiering_window 213504 \<and> tiering_window 213504 < 3600000000000"
proof -
  have "sint (213504 * 24 * 3600000000000 :: 64 word) = 1526290448384" by simp
  then show ?thesis using day_product [of days]
    by (auto simp: tiering_window_def NewService_def default_window_def)
qed

section \<open>Concrete runs\<close>

theorem unlock_or_create_overwrites_witness:
  "\<exists>files files'. LoadKeyfile keyed_crypto sample_kdf None ''k'' ''x'' files = Inr (toy_keys ''v1'' [])
     \<and> unlock_or_create keyed_crypto sample_kdf (sample_gen\<lparr>ge_aes := Inr (replicate 32 6)\<rparr>) None ''k'' ''y'' files
         = (Inr ((toy_keys ''v1'' [])\<lparr>KM_aesKey := replicate 32 6\<rparr>), files')
     \<and> LoadKeyfile keyed_crypto sample_kdf None ''k'' ''y'' files' = Inr ((toy_keys ''v1'' [])\<lparr>KM_aesKey := replicate 32 6\<rparr>)"
proof -
  have kdf: "length (sample_kdf p q) = 32" for p q by (simp add: sample_kdf_def)
  have g: "\<exists>files'. GenerateAndSaveKeyfile keyed_crypto sample_kdf (sample_gen\<lparr>ge_aes := Inr aes\<rparr>) ''k'' pass ''v1'' files
      = (Inr ((toy_keys ''v1'' [])\<lparr>KM_aesKey := aes\<rparr>), files')" for pass files aes
    by (simp add: GenerateAndSaveKeyfile_def Let_def os_WriteFile_def sample_gen_def aes_NewCipher_def kdf toy_keys_def)
  have e: "ge_salt (sample_gen\<lparr>ge_aes := aes\<rparr>) = Inr (replicate 16 2)" "ge_nonce (sample_gen\<lparr>ge_aes := aes\<rparr>) = Inr (replicate 12 3)"
    "length (replicate 12 3 :: bytes) = NonceSize" "gcm_ok keyed_crypto" "valid_utf8 ''v1''" for aes
    by (simp_all add: sample_gen_def NonceSize_def gcm_ok_def keyed_crypto_def)
  obtain files where f: "GenerateAndSaveKeyfile keyed_crypto sample_kdf (sample_gen\<lparr>ge_aes := Inr (replicate 32 1)\<rparr>) ''k'' ''x'' ''v1'' []
      = (Inr ((toy_keys ''v1'' [])\<lparr>KM_aesKey := replicate 32 1\<rparr>), files)" using g by blast
  have k: "(toy_keys ''v1'' [])\<lparr>KM_aesKey := replicate 32 1\<rparr> = toy_keys ''v1'' []" by (simp add: toy_keys_def)
  have "gcm_open keyed_crypto (sample_kdf (bytes_of ''y'') t) n (gcm_seal keyed_crypto (sample_kdf (bytes_of ''x'') t) n q) = None"
    for t n q by (simp add: keyed_crypto_def sample_kdf_def bytes_of_def)
  with load_generated [OF f e(1-4) kdf e(5), of "''y''"] have l: "LoadKeyfile keyed_crypto sample_kdf None ''k'' ''x'' files = Inr (toy_keys ''v1'' [])"
    "LoadKeyfile keyed_crypto sample_kdf None ''k'' ''y'' files = Inl ErrInvalidPassphrase" unfolding k by auto
  obtain files' where h: "GenerateAndSaveKeyfile keyed_crypto sample_kdf (sample_gen\<lparr>ge_aes := Inr (replicate 32 6)\<rparr>) ''k'' ''y'' ''v1'' files
      = (Inr ((toy_keys ''v1'' [])\<lparr>KM_aesKey := replicate 32 6\<rparr>), files')" using g by blast
  then have u: "unlock_or_create keyed_crypto sample_kdf (sample_gen\<lparr>ge_aes := Inr (replicate 32 6)\<rparr>) None ''k'' ''y'' files
      = (Inr ((toy_keys ''v1'' [])\<lparr>KM_aesKey := replicate 32 6\<rparr>), files')"
    by (simp add: unlock_or_create_def l(2))
  from unlock_or_create_overwrites [OF l(2) _ u e(2-4) kdf] l(1) u show ?thesis by blast
qed

theorem verify_record_command_sound_witness:
  "\<exists>a d. verify_record_command (\<lambda>_. Inr (sample_payload, d))
       (verify_signer toy_crypto sample_kdf None [] [] (hex_encode (replicate 32 9)) []) None 0 ''r1'' = 0
     \<and> canonical_bytes sample_payload = Inr a \<and> a \<in> set [a] \<and> BV_MerkleRoot d = HashLeaf a"
proof -
  obtain a where a: "canonical_bytes sample_payload = Inr a" "ComputeRecordLeafHash sample_payload = Inr (HashLeaf a)"
    using sample_leaf_hash by blast
  define d where "d = \<lparr>BV_BatchID = ''b1'', BV_MerkleRoot = HashLeaf a, BV_Signature = replicate 32 9 @ HashLeaf a,
    BV_KeyVersion = ''v1'', BV_AllLeafHashes = [], BV_Proof = []\<rparr>"
  have k: "hex_encode (replicate 32 9) \<noteq> []" by (metis length_hex_encode length_replicate list.size(3) mult_is_0 zero_neq_numeral)
  have "VR_Valid (fst (VerifyRecord (\<lambda>_. Inr (sample_payload, d)) (singleKey_Verify toy_crypto (replicate 32 9)) 0 ''r1''))"
    unfolding VerifyRecord_valid_iff using a(2)
    by (simp add: d_def singleKey_Verify_def ed25519_Verify_def toy_crypto_def choose_proof_def VerifyProof_iff)
  then have v: "verify_record_command (\<lambda>_. Inr (sample_payload, d))
       (verify_signer toy_crypto sample_kdf None [] [] (hex_encode (replicate 32 9)) []) None 0 ''r1'' = 0"
    using k by (auto simp: verify_record_command_def verify_signer_def printResult_exit_def VerifyRecord_def Let_def
        fresh_result_def fill_batch_def split: sum.splits bool.splits go_error.splits)
  have "replicate 32 (9 :: byte) \<noteq> []" by simp
  from verify_record_command_sound [OF v this] v a(1) show ?thesis by (auto simp: d_def)
qed

theorem verifyOfflineProof_sound_witness:
  "\<exists>a. verifyOfflineProof toy_crypto (Inr \<lparr>PD_RecordCanonical = sample_payload, PD_Proof = [], PD_MerkleRootHex = hex_encode (HashLeaf a),
       PD_SignatureHex = hex_encode (replicate 32 9 @ HashLeaf a), PD_KeyVersion = ''v1'', PD_PublicKeyHex = []\<rparr>)
       (hex_encode (replicate 32 9))
     \<and> canonical_bytes sample_payload = Inr a \<and> a \<in> set [a]"
proof -
  obtain a where a: "canonical_bytes sample_payload = Inr a" "ComputeRecordLeafHash sample_payload = Inr (HashLeaf a)"
    using sample_leaf_hash by blast
  define doc where "doc = \<lparr>PD_RecordCanonical = sample_payload, PD_Proof = [], PD_MerkleRootHex = hex_encode (HashLeaf a),
    PD_SignatureHex = hex_encode (replicate 32 9 @ HashLeaf a), PD_KeyVersion = ''v1'', PD_PublicKeyHex = []\<rparr>"
  have "hex_encode (replicate 32 9) \<noteq> []" by (metis length_hex_encode length_replicate list.size(3) mult_is_0 zero_neq_numeral)
  then have v: "verifyOfflineProof toy_crypto (Inr doc) (hex_encode (replicate 32 9))"
    using a(2) by (simp add: verifyOfflineProof_def doc_def singleKey_Verify_def ed25519_Verify_def toy_crypto_def VerifyProof_iff)
  have "replicate 32 (9 :: byte) \<noteq> []" by simp
  from verifyOfflineProof_sound [OF v this] v a(1) show ?thesis unfolding doc_def by auto
qed

end
