(* ===== verification/Spec2Isabelle.thy ===== *)
theory Spec2Isabelle
  imports Prelude GoStrings Sha256 Codec GoTime Json Decode JsonValid ReadBack
    MerkleTree Canonical Verifier Signing Keyfile Store Archive Alerting
    Source AuditConfig Attribution Snapshot Batching Pipeline Progress Bootstrap Binlog Tiering
    Postgres PostgresSystem Api Commands Daemon Programs
begin

text \<open>
  \<^bold>\<open>A verification development for \<open>auditlogd\<close>, a tamper-evident audit log.\<close>

  The program reads the changes of a MySQL database from its binary log, turns every change of an
  audited table into a record, collects records in batches, builds a Merkle tree over each batch,
  signs its root, and keeps batches in a hot store and checkpoints in a write-once archive.
  An HTTP server and a command line tool verify single records against the signed roots; a
  retention job moves old batches from the store to the archive. The development models this
  code as functions of Isabelle/HOL, in the order of the packages under \<open>src/internal\<close>
  and the programs under \<open>src/cmd\<close>.

  \<^bold>\<open>How the code is modelled.\<close> A structure is a record whose fields carry a prefix, a function is a
  definition of the same name where HOL allows it. Bytes are words of length 8, machine integers
  words where they can wrap around, times nanoseconds as integers. Errors are values of
  \<open>go_error\<close>; a panic is one of them, and no code catches it. A Go map is an association list, its
  order the order of a range loop, which theorems leave open. What the program draws from the
  outside is an argument: the clock, identifiers, random bytes, the outcome of system calls, of
  database statements and of HTTP requests. A method guarded by a lock is one step. Interfaces of Go
  (\<open>Store\<close>, \<open>ArchiveStore\<close>) are records of operations; what their users rely on is a locale,
  interpreted on the implementations that the repository has. Third-party code is a parameter:
  Ed25519, AES-GCM and Argon2 are \<open>crypto_api\<close> and \<open>kdf\<close>, with the laws the program relies on
  (\<open>km_good\<close>, \<open>gcm_ok\<close>) as hypotheses. The library of the language is written out as far as it is
  used: SHA-256, base64 and hexadecimal, the calendar and RFC 3339, the JSON encoder, scanner and
  decoder, path cleaning, and the functions of \<open>strings\<close>.

  \<^bold>\<open>Foundations.\<close>
  \<^item> \<open>Prelude\<close>: errors, results, maps, bytes; \<open>GoStrings\<close>: package \<open>strings\<close>; \<open>Sha256\<close>:
    the hash function; \<open>Codec\<close>: base64, hexadecimal and decimal texts with their round trips.
  \<^item> \<open>GoTime\<close>: formatting and parsing of times; a formatted time parses back to itself.
  \<^item> \<open>Json\<close> (encoder, scanner), \<open>Decode\<close> (decoder), \<open>JsonValid\<close> (what is encoded is valid) and
    \<open>ReadBack\<close> (what is encoded is read back). The parser of \<open>Decode\<close> has fuel: twice the length of the
    text and two. More fuel gives the same result (\<open>parse_fuel\<close>), so that this bound refuses no text.

  \<^bold>\<open>Components.\<close>
  \<^item> \<open>MerkleTree\<close>, \<open>internal/merkle/tree.go\<close>: construction (\<open>BuildTree\<close>), proofs (\<open>GenerateProof\<close>,
    \<open>VerifyProof\<close>). The tree is the one of RFC 6962; generated proofs verify; a proof that verifies shows
    membership and equal roots equal entries, unless two of the strings that were hashed collide.
    No theorem assumes that SHA-256 is injective: the hypotheses range over those strings only.
  \<^item> \<open>Canonical\<close>, same file: the canonical text of a record and its leaf hash, which binds every field.
  \<^item> \<open>Verifier\<close>, \<open>internal/merkle/verifier.go\<close>: \<open>VerifyRecord\<close> reports a record valid exactly under the
    stated conditions.
  \<^item> \<open>Signing\<close> and \<open>Keyfile\<close>, \<open>internal/signing/signing.go\<close>: the key manager with versions, and
    the encrypted keyfile, which loads again after it was generated. Locales \<open>signer_contract\<close> and
    \<open>encryptor_contract\<close>.
  \<^item> \<open>Store\<close>, \<open>internal/store/models.go\<close> and \<open>store.go\<close>: the data, the interface and the in-memory
    store. The locale \<open>store_contract\<close> says what a store owes the batcher and the verifier;
    \<open>ms\<close> interprets it on the in-memory store, \<open>pgs\<close> on Postgres.
  \<^item> \<open>Archive\<close>, \<open>internal/archive/archive.go\<close>: write-once objects in a directory tree whose system calls
    may fail. Locale \<open>archive_contract\<close>, interpreted as \<open>lda\<close>: while no \<open>Stat\<close> fails, an object, once written,
    never changes; a \<open>Stat\<close> that fails lets a write replace it (\<open>stat_failure_overwrites\<close>). No key leads
    out of the directory.
  \<^item> \<open>Alerting\<close>, \<open>internal/alerting/alerting.go\<close>: dispatcher and sinks; the rate limit over any sequence
    of triggers.
  \<^item> \<open>Source\<close>, \<open>internal/source/source.go\<close>, and \<open>Binlog\<close>, \<open>internal/binlog/client.go\<close>: the change
    source; the binlog reader sends exactly the committed transactions.
  \<^item> \<open>AuditConfig\<close>, \<open>internal/config/config.go\<close>: the configuration in memory refines the table
    \<open>_audit_config\<close> under its change events.
  \<^item> \<open>Attribution\<close>, \<open>internal/attribution/attribution.go\<close>, and \<open>Snapshot\<close>,
    \<open>internal/snapshot/snapshot.go\<close>: who did it, and the record of a change with encrypted columns.
  \<^item> \<open>Batching\<close>, \<open>internal/batch/batcher.go\<close>: the batcher as a state machine. \<open>batcher_reach\<close> is
    reachability under every interleaving, every failure and every interference by others that a parameter
    allows; no record is lost, duplicated or reordered. The locale \<open>durable_store\<close> (interpreted as
    \<open>ms_durable\<close> and, on Postgres, \<open>pg_durable\<close>) ties the closed batches to the contents of the store. The
    locale \<open>audit_system\<close> joins store, archive and signer: a batch that was closed verifies and
    its checkpoint stays. Error paths: what a failed close leaves behind.
  \<^item> \<open>Pipeline\<close>, \<open>internal/pipeline/pipeline.go\<close>: from transactions to records; the stream as a whole,
    with the batcher's timer going off at any point (\<open>run_ticks\<close>), and what is left of a transaction
    whose error is dropped (\<open>stream_recorded\<close>).
  \<^item> \<open>Progress\<close>: that nothing fails while store, archive and signer work (locales \<open>store_progress\<close>,
    \<open>archive_progress\<close>, \<open>progress_system\<close>, interpreted as \<open>mp\<close>, \<open>lp\<close> and \<open>memory_progress\<close>), so that every audited
    change does end in a sealed batch that the in-memory store returns.
  \<^item> \<open>Bootstrap\<close>, \<open>internal/bootstrap/bootstrap.go\<close>: the snapshot of a table's existing rows.
  \<^item> \<open>Tiering\<close>, \<open>internal/tiering/tiering.go\<close>: no record that \<open>json.Marshal\<close> accepts leaves the store
    before it is in the archive, whatever fails but \<open>Stat\<close> (locales \<open>retention_store\<close>, \<open>retention_system\<close>).
  \<^item> \<open>Postgres\<close>, \<open>internal/store/store.go\<close>: \<open>PostgresStore\<close> over the tables of the schema. What the server does
    to values is the parameter \<open>pg_api\<close>; any statement may fail, take effect without an answer, or
    break off in the middle of its rows. \<open>PostgresSystem\<close>: batcher, verifier and retention job on it
    (\<open>pg_system\<close>, \<open>pg_retention\<close>), and what its behaviour costs: values that come back changed, a batch that
    cannot be inserted twice, result sets that end early.
  \<^item> \<open>Api\<close>, \<open>internal/api\<close>: tokens, routing and handlers. Access control is complete; decryption for
    display gives back what JSON carries of an encrypted column; what the public verification endpoint vouches for.
  \<^item> \<open>Commands\<close>, \<open>src/cmd\<close>: the steps of the programs, among them the verification commands,
    which are sound against a key given by the user.
  \<^item> \<open>Daemon\<close>, \<open>cmd/daemon/main.go\<close>: the daemon from its flags to its exit code, composed of the components
    above. What was committed to the log, received and processed without error is sealed and in the
    tables of Postgres; where a daemon resumes.
  \<^item> \<open>Programs\<close>, \<open>cmd/tiering/main.go\<close> and \<open>cmd/apiserver/main.go\<close>: the two programs as they are put together;
    the server confirms every record the daemon sealed and Postgres gives back unchanged.

  \<^bold>\<open>Not modelled.\<close> The HTML page of \<open>internal/api/portal.go\<close>, a constant; the replication library, the
  database drivers, the HTTP server below the handlers, parsing of command lines, logging and
  printing; the Go scheduler: a timer is a deadline and an operation that fires between the
  operations of the batcher. The HTTP bodies are values, not JSON texts. A stop of the daemon in the
  middle of its work is a state reached by the steps done so far.
\<close>

end
